(* ===== verification/Prelude.thy ===== *)
theory Prelude
  imports Main "HOL-Library.Word" "HOL-Library.List_Lexorder" "HOL-Library.Char_ord"
begin

text \<open>
  Shared vocabulary of the ArceOS development: the machine integers and results of the Rust
  sources, the standard-library routines the kernel modules call (checked and saturating
  arithmetic, slices, ordered maps, string splitting) and the generic lemmas on them.

  Arithmetic follows the default build of the kernel (\<^verbatim>\<open>MODE=release\<close> in
  \<^verbatim>\<open>arceos/Makefile\<close>): \<open>+\<close>, \<open>-\<close> and \<open>*\<close> on \<open>usize\<close> wrap around, which is what the
  operations of a \<open>64 word\<close> do; \<open>checked_\<close> and \<open>saturating_\<close> routines are written out.
\<close>

unbundle bit_operations_syntax

section \<open>Machine integers\<close>

type_synonym u8 = "8 word"
type_synonym u64 = "64 word"
type_synonym usize = "64 word"

named_theorems usize_nat \<open>reading usize operations as operations on natural numbers\<close>

definition checked_add :: "usize \<Rightarrow> usize \<Rightarrow> usize option" where
  "checked_add a b = (if unat a + unat b < 2 ^ 64 then Some (a + b) else None)"

definition checked_sub :: "usize \<Rightarrow> usize \<Rightarrow> usize option" where
  "checked_sub a b = (if b \<le> a then Some (a - b) else None)"

definition checked_mul :: "usize \<Rightarrow> usize \<Rightarrow> usize option" where
  "checked_mul a b = (if unat a * unat b < 2 ^ 64 then Some (a * b) else None)"

definition saturating_add :: "usize \<Rightarrow> usize \<Rightarrow> usize" where
  "saturating_add a b = (if unat a + unat b < 2 ^ 64 then a + b else - 1)"

definition saturating_sub :: "usize \<Rightarrow> usize \<Rightarrow> usize" where
  "saturating_sub a b = (if b \<le> a then a - b else 0)"

lemma unat_add_usize [usize_nat]:
  "unat a + unat b < 2 ^ 64 \<Longrightarrow> unat (a + b :: usize) = unat a + unat b"
  using unat_add_lem [of a b] by simp

lemma unat_sub_usize [usize_nat]: "b \<le> a \<Longrightarrow> unat (a - b :: usize) = unat a - unat b"
  by (rule unat_sub)

lemma unat_mult_usize [usize_nat]:
  "unat a * unat b < 2 ^ 64 \<Longrightarrow> unat (a * b :: usize) = unat a * unat b"
  using unat_mult_lem [of a b] by simp

lemma unat_usize_less: "unat (a :: usize) < 2 ^ 64"
  using unsigned_less [of a] by simp

lemma of_nat_unat_usize: "unat w = n \<Longrightarrow> w = (of_nat n :: usize)"
  by auto

lemma checked_add_Some:
  "checked_add a b = Some c \<longleftrightarrow> unat a + unat b < 2 ^ 64 \<and> c = a + b"
  by (auto simp: checked_add_def)

lemma checked_add_None: "checked_add a b = None \<longleftrightarrow> 2 ^ 64 \<le> unat a + unat b"
  by (auto simp: checked_add_def)

lemma checked_sub_Some: "checked_sub a b = Some c \<longleftrightarrow> b \<le> a \<and> c = a - b"
  by (auto simp: checked_sub_def)

lemma checked_sub_None: "checked_sub a b = None \<longleftrightarrow> a < b"
  by (auto simp: checked_sub_def not_le)

lemma checked_mul_Some:
  "checked_mul a b = Some c \<longleftrightarrow> unat a * unat b < 2 ^ 64 \<and> c = a * b"
  by (auto simp: checked_mul_def)

lemma checked_mul_None: "checked_mul a b = None \<longleftrightarrow> 2 ^ 64 \<le> unat a * unat b"
  by (auto simp: checked_mul_def)

lemma unat_saturating_sub: "unat (saturating_sub a b) = unat a - unat b"
  by (auto simp: saturating_sub_def unat_sub_usize word_le_nat_alt)

lemma unat_saturating_add: "unat (saturating_add a b) = min (unat a + unat b) (2 ^ 64 - 1)"
proof (cases "unat a + unat b < 2 ^ 64")
  case True
  then show ?thesis by (simp add: saturating_add_def unat_add_usize)
next
  case False
  have "unat (- 1 :: usize) = 2 ^ 64 - 1"
    by (simp add: unsigned_minus_1_eq_mask mask_eq_exp_minus_1)
  with False show ?thesis by (simp add: saturating_add_def)
qed

section \<open>Results\<close>

text \<open>
  The result of a Rust function: a value, an error of its error type, or a panic (a failed
  assertion, an \<open>unwrap\<close> of nothing, an index out of range). \<open>and_then\<close> is the \<open>?\<close> operator.
\<close>

datatype ('e, 'a) outcome = Ok 'a | Err 'e | Panic

fun and_then :: "('e, 'a) outcome \<Rightarrow> ('a \<Rightarrow> ('e, 'b) outcome) \<Rightarrow> ('e, 'b) outcome" where
  "and_then (Ok x) f = f x"
| "and_then (Err e) f = Err e"
| "and_then Panic f = Panic"

fun map_err :: "('e \<Rightarrow> 'f) \<Rightarrow> ('e, 'a) outcome \<Rightarrow> ('f, 'a) outcome" where
  "map_err f (Ok x) = Ok x"
| "map_err f (Err e) = Err (f e)"
| "map_err f Panic = Panic"

definition ok_or :: "'e \<Rightarrow> 'a option \<Rightarrow> ('e, 'a) outcome" where
  "ok_or e x = (case x of None \<Rightarrow> Err e | Some v \<Rightarrow> Ok v)"

fun is_ok :: "('e, 'a) outcome \<Rightarrow> bool" where
  "is_ok (Ok _) = True"
| "is_ok (Err _) = False"
| "is_ok Panic = False"

lemma ok_or_simps [simp]: "ok_or e None = Err e" "ok_or e (Some v) = Ok v"
  by (simp_all add: ok_or_def)

lemma ok_or_eq_Ok [simp]: "ok_or e x = Ok v \<longleftrightarrow> x = Some v"
  by (cases x) auto

lemma ok_or_not_Panic [simp]: "ok_or e x \<noteq> Panic"
  by (cases x) auto

lemma and_then_eq_Ok: "and_then r f = Ok y \<longleftrightarrow> (\<exists>x. r = Ok x \<and> f x = Ok y)"
  by (cases r) auto

lemma and_then_eq_Err: "and_then r f = Err e \<longleftrightarrow> r = Err e \<or> (\<exists>x. r = Ok x \<and> f x = Err e)"
  by (cases r) auto

lemma and_then_eq_Panic: "and_then r f = Panic \<longleftrightarrow> r = Panic \<or> (\<exists>x. r = Ok x \<and> f x = Panic)"
  by (cases r) auto

lemma and_then_cong [fundef_cong]:
  "r = r' \<Longrightarrow> (\<And>x. r' = Ok x \<Longrightarrow> f x = f' x) \<Longrightarrow> and_then r f = and_then r' f'"
  by (cases r') auto

lemma and_then_assoc: "and_then (and_then r f) g = and_then r (\<lambda>x. and_then (f x) g)"
  by (cases r) auto

lemma and_then_Ok_id [simp]: "and_then r Ok = r"
  by (cases r) auto

lemma and_then_case:
  "and_then r f = (case r of Ok x \<Rightarrow> f x | Err e \<Rightarrow> Err e | Panic \<Rightarrow> Panic)"
  by (cases r) auto

lemma and_then_split:
  "P (and_then r f) \<longleftrightarrow>
     (\<forall>x. r = Ok x \<longrightarrow> P (f x)) \<and> (\<forall>e. r = Err e \<longrightarrow> P (Err e)) \<and> (r = Panic \<longrightarrow> P Panic)"
  by (cases r) auto

text \<open>The operator \<^verbatim>\<open>?\<close> on an operation that also changes a state.\<close>

fun and_then_st ::
    "('e, 'a) outcome \<times> 's \<Rightarrow> ('a \<Rightarrow> 's \<Rightarrow> ('e, 'b) outcome \<times> 's) \<Rightarrow> ('e, 'b) outcome \<times> 's" where
  "and_then_st (Ok x, s) k = k x s"
| "and_then_st (Err e, s) k = (Err e, s)"
| "and_then_st (Panic, s) k = (Panic, s)"

lemma and_then_st_eq_Ok:
  "and_then_st r k = (Ok y, s') \<longleftrightarrow> (\<exists>x s. r = (Ok x, s) \<and> k x s = (Ok y, s'))"
  by (cases "(r, k)" rule: and_then_st.cases) auto

section \<open>Errors\<close>

text \<open>
  \<^verbatim>\<open>axerrno::AxError\<close> (also \<^verbatim>\<open>axfs_vfs::VfsError\<close>, which is the same type) and
  \<^verbatim>\<open>axerrno::LinuxError\<close>: the variants the modelled sources name.
\<close>

datatype ax_error =
    AddrInUse | AlreadyExists | BadAddress | BadState | ConnectionRefused | ConnectionReset
  | DirectoryNotEmpty | InvalidData | InvalidInput | Io | IsADirectory | NoMemory | NotADirectory
  | NotConnected | NotFound | PermissionDenied | ResourceBusy | StorageFull | UnexpectedEof
  | Unsupported | WouldBlock | WriteZero

datatype linux_error =
    EACCES | EAGAIN | EBADF | EDEADLK | EEXIST | EFAULT | EINTR | EINVAL | EISCONN | EMFILE
  | ENOENT | ENOMEM | ENOSYS | EOPNOTSUPP | EPERM | ERANGE

end
