(* ===== verification/Alloc_Interface.thy ===== *)
theory Alloc_Interface
  imports Prelude
begin

text \<open>
  The allocator traits as the kernel's allocators use them: layouts, errors, and the contract of a
  page allocator that \<^verbatim>\<open>GlobalAllocator::alloc\<close> relies on to come to an end.
\<close>

text \<open>\<^verbatim>\<open>core::alloc::Layout\<close>: a size and an alignment that is a power of two.\<close>

record layout =
  lsize :: usize
  lalign :: usize

definition is_power_of_two :: "usize \<Rightarrow> bool" where
  "is_power_of_two a \<longleftrightarrow> (\<exists>k<64. a = 2 ^ k)"

definition valid_layout :: "layout \<Rightarrow> bool" where
  "valid_layout l \<longleftrightarrow>
     is_power_of_two (lalign l) \<and> unat (lsize l) + (unat (lalign l) - 1) < 2 ^ 63"

text \<open>\<^verbatim>\<open>allocator::AllocError\<close>, the variants \<^verbatim>\<open>axalloc/src/page.rs\<close> matches on.\<close>

datatype alloc_error = AllocInvalidParam | AllocMemoryOverlap | AllocNoMemory | AllocNotAllocated

text \<open>
  What the users of a page allocator rely on: every answer is a value or an error, and a granted
  request takes its pages out of what is available; a refused one makes no page available.
\<close>

locale page_provider =
  fixes alloc_pages :: "'p \<Rightarrow> usize \<Rightarrow> usize \<Rightarrow> (alloc_error, usize) outcome \<times> 'p"
    and avail :: "'p \<Rightarrow> nat"
    and inv :: "'p \<Rightarrow> bool"
  assumes alloc_inv: "inv p \<Longrightarrow> is_power_of_two al \<Longrightarrow> inv (snd (alloc_pages p n al))"
    and alloc_no_panic: "inv p \<Longrightarrow> is_power_of_two al \<Longrightarrow> fst (alloc_pages p n al) \<noteq> Panic"
    and alloc_takes:
      "inv p \<Longrightarrow> is_power_of_two al \<Longrightarrow> alloc_pages p n al = (Ok a, p') \<Longrightarrow> avail p' + unat n \<le> avail p"
    and alloc_err:
      "inv p \<Longrightarrow> is_power_of_two al \<Longrightarrow> alloc_pages p n al = (Err e, p') \<Longrightarrow> avail p' \<le> avail p"
begin

lemma alloc_takes_Suc:
  assumes "inv p" "is_power_of_two al" "alloc_pages p n al = (Ok a, p')" "n \<noteq> 0"
  shows "avail p' < avail p"
  using alloc_takes [OF assms(1-3)] assms(4) unat_gt_0 [of n] by linarith

end

text \<open>
  What the owners of pages rely on: the bytes a page allocator has handed out stay handed out while
  nothing is returned, and a granted block is none of them.
\<close>

definition span :: "usize \<Rightarrow> nat \<Rightarrow> usize set" where
  "span a n = {p. unat (p - a) < n}"

lemma span_0 [simp]: "span a 0 = {}"
  by (simp add: span_def)

lemma span_self: "0 < n \<Longrightarrow> a \<in> span a n"
  by (simp add: span_def)

lemma span_offset: "i < n \<Longrightarrow> i < 2 ^ 64 \<Longrightarrow> a + of_nat i \<in> span a n"
  by (simp add: span_def unat_of_nat)

locale page_owner =
  fixes alloc_pages :: "'p \<Rightarrow> usize \<Rightarrow> usize \<Rightarrow> (alloc_error, usize) outcome \<times> 'p"
    and owned :: "'p \<Rightarrow> usize set"
    and inv :: "'p \<Rightarrow> bool"
  assumes owner_inv: "inv p \<Longrightarrow> is_power_of_two al \<Longrightarrow> alloc_pages p n al = (r, p') \<Longrightarrow> inv p' \<and> owned p \<subseteq> owned p'"
    and owner_fresh:
      "inv p \<Longrightarrow> is_power_of_two al \<Longrightarrow> alloc_pages p n al = (Ok a, p') \<Longrightarrow> span a (unat n * 4096) \<subseteq> owned p' - owned p"
begin

lemma blocks_disjoint:
  assumes "inv p" "is_power_of_two al" "alloc_pages p n al = (Ok a, p')"
    and "is_power_of_two al'" "alloc_pages p' n' al' = (Ok b, p'')"
  shows "span a (unat n * 4096) \<inter> span b (unat n' * 4096) = {}"
  using owner_fresh [OF assms(1-3)] owner_fresh [OF _ assms(4,5)] owner_inv [OF assms(1-3)] by blast

end

end
