(* ===== verification/Bump_Allocator.thy ===== *)
theory Bump_Allocator
  imports Alloc_Interface
begin

text \<open>
  The early allocator of \<^verbatim>\<open>modules/bump_allocator/src/lib.rs\<close>: bytes are allocated forward
  from the start of a fixed arena, pages backward from its end. Positions are offsets into the
  arena; the address of the arena (\<^verbatim>\<open>self.arena.as_ptr()\<close>) is the argument \<open>base\<close> of the
  operations that return or take addresses, and the const generic \<^verbatim>\<open>SIZE\<close> is the argument
  \<open>SIZE\<close> of those that read it. The contents of the arena are never read or written by the
  allocator and are not part of its state.

  The theory defines the operations, the step relation of a well-behaved client with the list of
  its live allocations as ghost state, and shows that live allocations are disjoint and inside
  the arena, when each operation succeeds and what it returns, and the accounting of the two
  areas.
\<close>

section \<open>Model\<close>

definition align_down :: "usize \<Rightarrow> usize \<Rightarrow> usize" where
  "align_down pos align = pos AND NOT (align - 1)"

definition align_up :: "usize \<Rightarrow> usize \<Rightarrow> usize" where
  "align_up pos align = (pos + align - 1) AND NOT (align - 1)"

record early_allocator =
  b_start :: usize
  b_pos :: usize
  p_pos :: usize
  p_end :: usize
  b_count :: usize

definition PAGE_SIZE :: usize where
  "PAGE_SIZE = 4096"

definition early_new :: "usize \<Rightarrow> early_allocator" where
  "early_new SIZE = \<lparr>b_start = 0, b_pos = 0, p_pos = SIZE, p_end = 0, b_count = 0\<rparr>"

definition early_init :: "usize \<Rightarrow> early_allocator \<Rightarrow> usize \<Rightarrow> usize \<Rightarrow> early_allocator" where
  "early_init SIZE a start len =
     a\<lparr>b_start := 0, b_pos := 0, p_pos := SIZE, p_end := SIZE, b_count := 0\<rparr>"

definition early_add_memory ::
    "early_allocator \<Rightarrow> usize \<Rightarrow> usize \<Rightarrow> (alloc_error, unit) outcome \<times> early_allocator" where
  "early_add_memory a start len = (Err AllocInvalidParam, a)"

definition early_alloc ::
    "usize \<Rightarrow> early_allocator \<Rightarrow> layout \<Rightarrow> (alloc_error, usize) outcome \<times> early_allocator" where
  "early_alloc base a layout =
     (let aligned_b_pos = align_up (b_pos a) (lalign layout) in
      case checked_add aligned_b_pos (lsize layout) of
        None \<Rightarrow> (Err AllocNoMemory, a)
      | Some new_b_pos \<Rightarrow>
          if p_pos a < new_b_pos then (Err AllocNoMemory, a)
          else (Ok (base + aligned_b_pos), a\<lparr>b_pos := new_b_pos, b_count := b_count a + 1\<rparr>))"

definition early_dealloc :: "early_allocator \<Rightarrow> usize \<Rightarrow> layout \<Rightarrow> early_allocator" where
  "early_dealloc a pos layout =
     (if b_count a = 0 then a
      else let a' = a\<lparr>b_count := b_count a - 1\<rparr> in
        if b_count a' = 0 then a'\<lparr>b_pos := b_start a'\<rparr> else a')"

definition early_total_bytes :: "early_allocator \<Rightarrow> usize" where
  "early_total_bytes a = p_end a - b_start a"

definition early_used_bytes :: "early_allocator \<Rightarrow> usize" where
  "early_used_bytes a = (b_pos a - b_start a) + (p_end a - p_pos a)"

definition early_available_bytes :: "early_allocator \<Rightarrow> usize" where
  "early_available_bytes a = saturating_sub (p_pos a) (b_pos a)"

definition early_alloc_pages ::
    "usize \<Rightarrow> early_allocator \<Rightarrow> usize \<Rightarrow> usize \<Rightarrow> (alloc_error, usize) outcome \<times> early_allocator" where
  "early_alloc_pages base a num_pages align_pow2 =
     (if num_pages = 0 then (Err AllocNoMemory, a)
      else case checked_mul num_pages PAGE_SIZE of
        None \<Rightarrow> (Err AllocNoMemory, a)
      | Some total_size \<Rightarrow>
          let align = max PAGE_SIZE align_pow2 in
          (case checked_sub (p_pos a) total_size of
             None \<Rightarrow> (Err AllocNoMemory, a)
           | Some new_p_pos_unaligned \<Rightarrow>
               let new_p_pos_aligned = align_down new_p_pos_unaligned align in
               if new_p_pos_aligned < b_pos a then (Err AllocNoMemory, a)
               else (Ok (base + new_p_pos_aligned), a\<lparr>p_pos := new_p_pos_aligned\<rparr>)))"

definition early_dealloc_pages ::
    "usize \<Rightarrow> usize \<Rightarrow> early_allocator \<Rightarrow> usize \<Rightarrow> usize \<Rightarrow> early_allocator" where
  "early_dealloc_pages SIZE base a pos num_pages =
     (if num_pages = 0 then a
      else case checked_mul num_pages PAGE_SIZE of
        None \<Rightarrow> a
      | Some total_size \<Rightarrow>
          let arena_end = base + SIZE in
          if pos < base \<or> arena_end < pos + total_size then a
          else
            let offset = pos - base in
            if offset = p_pos a
            then a\<lparr>p_pos := min (saturating_add offset total_size) (p_end a)\<rparr>
            else a)"

definition early_total_pages :: "early_allocator \<Rightarrow> usize" where
  "early_total_pages a = (p_end a - b_start a) div PAGE_SIZE"

definition early_used_pages :: "early_allocator \<Rightarrow> usize" where
  "early_used_pages a = (p_end a - p_pos a) div PAGE_SIZE"

definition early_available_pages :: "early_allocator \<Rightarrow> usize" where
  "early_available_pages a = saturating_sub (p_pos a) (b_pos a) div PAGE_SIZE"

section \<open>Alignment\<close>

lemma and_not_mask_usize: "w AND NOT (mask k) = push_bit k (drop_bit k (w :: usize))"
  by (rule bit_word_eqI) (auto simp: bit_simps)

lemma unat_and_not_mask:
  assumes "k < 64"
  shows "unat (w AND NOT (2 ^ k - 1) :: usize) = unat w div 2 ^ k * 2 ^ k"
proof -
  have "unat (w AND NOT (2 ^ k - 1) :: usize) = unat (push_bit k (drop_bit k w))"
    by (simp add: and_not_mask_usize flip: mask_eq_exp_minus_1)
  also have "\<dots> = take_bit 64 (push_bit k (drop_bit k (unat w)))"
    by (simp add: unsigned_push_bit_eq unat_drop_bit_eq)
  also have "\<dots> = (unat w div 2 ^ k * 2 ^ k) mod 2 ^ 64"
    by (simp add: push_bit_eq_mult drop_bit_eq_div take_bit_eq_mod)
  also have "\<dots> = unat w div 2 ^ k * 2 ^ k"
    using unat_usize_less [of w]
    by (intro mod_less) (meson div_times_less_eq_dividend le_less_trans)
  finally show ?thesis .
qed

lemma unat_power_of_two:
  assumes "k < 64"
  shows "unat (2 ^ k :: usize) = 2 ^ k"
proof -
  have "(2 :: nat) ^ k < 2 ^ 64"
    using assms by (intro power_strict_increasing) simp_all
  then have "unat (of_nat (2 ^ k) :: usize) = 2 ^ k"
    by (subst unat_of_nat) simp
  then show ?thesis by simp
qed


lemma power_of_two_obtain:
  assumes "is_power_of_two al"
  obtains k where "k < 64" "al = 2 ^ k" "unat al = 2 ^ k"
  using assms that by (auto simp: is_power_of_two_def unat_power_of_two)

lemma power_of_two_pos: "is_power_of_two al \<Longrightarrow> 0 < unat al"
  by (metis power_of_two_obtain zero_less_numeral zero_less_power)

lemma unat_align_down:
  "is_power_of_two al \<Longrightarrow> unat (align_down pos al) = unat pos div unat al * unat al"
  by (metis align_down_def power_of_two_obtain unat_and_not_mask)

lemma unat_align_down_le: "is_power_of_two al \<Longrightarrow> unat (align_down pos al) \<le> unat pos"
  by (simp add: unat_align_down)

lemma unat_align_up:
  assumes al: "is_power_of_two al" and fit: "unat pos + unat al \<le> 2 ^ 64"
  shows "unat (align_up pos al) = (unat pos + unat al - 1) div unat al * unat al"
proof -
  obtain k where k: "k < 64" "al = 2 ^ k" "unat al = 2 ^ k"
    using al by (rule power_of_two_obtain)
  have one: "unat (al - 1) = unat al - 1"
    using power_of_two_pos [OF al] by (metis One_nat_def unat_gt_0 unat_minus_one)
  have eq: "pos + al - 1 = pos + (al - 1)" by simp
  have "unat (pos + (al - 1)) = unat pos + (unat al - 1)"
    using fit power_of_two_pos [OF al] by (subst unat_add_usize) (simp_all add: one)
  then have "unat (pos + al - 1) = unat pos + unat al - 1"
    using power_of_two_pos [OF al] by (simp add: eq)
  with k show ?thesis
    by (simp add: align_up_def unat_and_not_mask)
qed

text \<open>Rounding up lands on a multiple, at or above the position and less than one step away.\<close>

lemma round_up_bounds:
  assumes "0 < (al :: nat)"
  shows "pos \<le> (pos + al - 1) div al * al" "(pos + al - 1) div al * al < pos + al"
proof -
  have "pos + al - 1 < Suc ((pos + al - 1) div al) * al"
    using dividend_less_div_times [OF assms, of "pos + al - 1"] by simp
  then show "pos \<le> (pos + al - 1) div al * al" by simp
  have "(pos + al - 1) div al * al \<le> pos + al - 1" by simp
  with assms show "(pos + al - 1) div al * al < pos + al" by linarith
qed

lemma PAGE_SIZE_unat [simp]: "unat PAGE_SIZE = 4096"
  by (simp add: PAGE_SIZE_def)

lemma PAGE_SIZE_power: "is_power_of_two PAGE_SIZE"
  unfolding is_power_of_two_def PAGE_SIZE_def by (rule exI [of _ 12]) simp

lemma max_PAGE_SIZE_power: "is_power_of_two al \<Longrightarrow> is_power_of_two (max PAGE_SIZE al)"
  by (simp add: max_def PAGE_SIZE_power)

section \<open>Invariant and functional behaviour\<close>

text \<open>
  An arena is a Rust object: at most \<^verbatim>\<open>isize::MAX\<close> bytes, and its addresses do not wrap.
  The invariant is the picture in the source,
  \<^verbatim>\<open>[ bytes-used | avail-area | pages-used ]\<close>.
\<close>

definition arena_ok :: "usize \<Rightarrow> usize \<Rightarrow> bool" where
  "arena_ok base SIZE \<longleftrightarrow> unat SIZE < 2 ^ 63 \<and> unat base + unat SIZE < 2 ^ 64"

definition early_inv :: "usize \<Rightarrow> early_allocator \<Rightarrow> bool" where
  "early_inv SIZE a \<longleftrightarrow>
     b_start a = 0 \<and> p_end a = SIZE \<and> b_pos a \<le> p_pos a \<and> p_pos a \<le> p_end a \<and>
     (b_count a = 0 \<longrightarrow> b_pos a = b_start a)"

definition round_up :: "nat \<Rightarrow> nat \<Rightarrow> nat" where
  "round_up pos al = (pos + al - 1) div al * al"

definition round_down :: "nat \<Rightarrow> nat \<Rightarrow> nat" where
  "round_down pos al = pos div al * al"

lemma round_up_ge: "0 < al \<Longrightarrow> pos \<le> round_up pos al"
  and round_up_less: "0 < al \<Longrightarrow> round_up pos al < pos + al"
  and dvd_round_up: "al dvd round_up pos al"
  and round_down_le: "round_down pos al \<le> pos"
  and dvd_round_down: "al dvd round_down pos al"
  using round_up_bounds by (auto simp: round_up_def round_down_def)

lemma early_init_inv: "early_inv SIZE (early_init SIZE a start len)"
  by (simp add: early_inv_def early_init_def)

lemma early_alloc_cases:
  assumes inv: "early_inv SIZE a" and ok: "arena_ok base SIZE" and l: "valid_layout l"
  defines "off \<equiv> round_up (unat (b_pos a)) (unat (lalign l))"
  shows "unat (align_up (b_pos a) (lalign l)) = off"
    and "early_alloc base a l =
      (if off + unat (lsize l) \<le> unat (p_pos a)
       then (Ok (base + align_up (b_pos a) (lalign l)),
             a\<lparr>b_pos := align_up (b_pos a) (lalign l) + lsize l, b_count := b_count a + 1\<rparr>)
       else (Err AllocNoMemory, a))"
    and "off + unat (lsize l) < 2 ^ 64"
proof -
  have al: "is_power_of_two (lalign l)" and lsz: "unat (lsize l) + (unat (lalign l) - 1) < 2 ^ 63"
    using l by (simp_all add: valid_layout_def)
  have al0: "0 < unat (lalign l)" using al by (rule power_of_two_pos)
  have b: "unat (b_pos a) < 2 ^ 63"
    using inv ok by (auto simp: early_inv_def arena_ok_def word_le_nat_alt)
  have fit: "unat (b_pos a) + unat (lalign l) \<le> 2 ^ 64"
    using b lsz by simp
  show u: "unat (align_up (b_pos a) (lalign l)) = off"
    using unat_align_up [OF al fit] by (simp add: off_def round_up_def)
  show lt: "off + unat (lsize l) < 2 ^ 64"
    using round_up_less [OF al0, of "unat (b_pos a)"] b lsz al0 unfolding off_def by simp
  have sum: "unat (align_up (b_pos a) (lalign l) + lsize l) = off + unat (lsize l)"
    using lt by (simp add: unat_add_usize u)
  show "early_alloc base a l =
      (if off + unat (lsize l) \<le> unat (p_pos a)
       then (Ok (base + align_up (b_pos a) (lalign l)),
             a\<lparr>b_pos := align_up (b_pos a) (lalign l) + lsize l, b_count := b_count a + 1\<rparr>)
       else (Err AllocNoMemory, a))"
    using lt sum by (simp add: early_alloc_def checked_add_def u Let_def word_less_nat_alt)
qed

lemma early_alloc_pages_cases:
  fixes a :: early_allocator and n :: usize
  assumes al: "is_power_of_two al"
  defines "off \<equiv> round_down (unat (p_pos a) - unat n * 4096) (unat (max PAGE_SIZE al))"
  shows "early_alloc_pages base a n al =
      (if n \<noteq> 0 \<and> unat n * 4096 \<le> unat (p_pos a) \<and> unat (b_pos a) \<le> off
       then (Ok (base + of_nat off), a\<lparr>p_pos := of_nat off\<rparr>)
       else (Err AllocNoMemory, a))"
    and "unat (of_nat off :: usize) = off"
proof -
  have off: "off \<le> unat (p_pos a)"
    using round_down_le [of "unat (p_pos a) - unat n * 4096" "unat (max PAGE_SIZE al)"]
    by (simp add: off_def)
  show u: "unat (of_nat off :: usize) = off"
    using le_less_trans [OF off unat_usize_less] by (simp add: unat_of_nat)
  show "early_alloc_pages base a n al =
      (if n \<noteq> 0 \<and> unat n * 4096 \<le> unat (p_pos a) \<and> unat (b_pos a) \<le> off
       then (Ok (base + of_nat off), a\<lparr>p_pos := of_nat off\<rparr>)
       else (Err AllocNoMemory, a))"
  proof (cases "n \<noteq> 0 \<and> unat n * 4096 \<le> unat (p_pos a)")
    case False
    moreover have "unat n * 4096 < 2 ^ 64 \<Longrightarrow> unat (n * PAGE_SIZE) = unat n * 4096"
      by (simp add: unat_mult_usize)
    ultimately show ?thesis
      by (auto simp: early_alloc_pages_def checked_mul_def checked_sub_def word_le_nat_alt
          split: option.splits)
  next
    case True
    then have t: "unat n * 4096 < 2 ^ 64"
      using unat_usize_less [of "p_pos a"] by linarith
    then have tot: "unat (n * PAGE_SIZE) = unat n * 4096"
      by (simp add: unat_mult_usize)
    have le: "n * PAGE_SIZE \<le> p_pos a"
      using True by (simp add: word_le_nat_alt tot)
    have "unat (align_down (p_pos a - n * PAGE_SIZE) (max PAGE_SIZE al)) = off"
      using le by (simp add: unat_align_down [OF max_PAGE_SIZE_power [OF al]] unat_sub_usize tot
          off_def round_down_def)
    then have "align_down (p_pos a - n * PAGE_SIZE) (max PAGE_SIZE al) = of_nat off"
      using u by (metis word_unat_eq_iff)
    then show ?thesis
      using True t le u
      by (simp add: early_alloc_pages_def checked_mul_def checked_sub_def Let_def word_less_nat_alt
          not_less)
  qed
qed

section \<open>Clients of the allocator and their live allocations\<close>

text \<open>
  A client uses the allocator under the contract of \<^verbatim>\<open>GlobalAlloc\<close>: layouts are valid and of
  non-zero size, and what it gives back is an allocation it holds, with the layout or page count
  it was made with. The lists of the allocations it holds are ghost state.
\<close>

record early_client =
  early_st :: early_allocator
  live_bytes :: "(usize \<times> layout) list"
  live_pages :: "(usize \<times> usize) list"

inductive early_step :: "usize \<Rightarrow> usize \<Rightarrow> early_client \<Rightarrow> early_client \<Rightarrow> bool"
  for base SIZE where
  step_alloc:
    "valid_layout l \<Longrightarrow> lsize l \<noteq> 0 \<Longrightarrow> early_alloc base (early_st c) l = (Ok p, a') \<Longrightarrow>
     early_step base SIZE c (c\<lparr>early_st := a', live_bytes := (p, l) # live_bytes c\<rparr>)"
| step_alloc_fail:
    "valid_layout l \<Longrightarrow> early_alloc base (early_st c) l = (Err e, a') \<Longrightarrow>
     early_step base SIZE c (c\<lparr>early_st := a'\<rparr>)"
| step_dealloc:
    "(p, l) \<in> set (live_bytes c) \<Longrightarrow>
     early_step base SIZE c
       (c\<lparr>early_st := early_dealloc (early_st c) p l, live_bytes := remove1 (p, l) (live_bytes c)\<rparr>)"
| step_alloc_pages:
    "is_power_of_two al \<Longrightarrow> early_alloc_pages base (early_st c) n al = (Ok p, a') \<Longrightarrow>
     early_step base SIZE c (c\<lparr>early_st := a', live_pages := (p, n) # live_pages c\<rparr>)"
| step_alloc_pages_fail:
    "is_power_of_two al \<Longrightarrow> early_alloc_pages base (early_st c) n al = (Err e, a') \<Longrightarrow>
     early_step base SIZE c (c\<lparr>early_st := a'\<rparr>)"
| step_dealloc_pages:
    "(p, n) \<in> set (live_pages c) \<Longrightarrow>
     early_step base SIZE c
       (c\<lparr>early_st := early_dealloc_pages SIZE base (early_st c) p n,
          live_pages := remove1 (p, n) (live_pages c)\<rparr>)"

inductive early_reachable :: "usize \<Rightarrow> usize \<Rightarrow> early_client \<Rightarrow> bool" for base SIZE where
  reach_init:
    "early_reachable base SIZE
       \<lparr>early_st = early_init SIZE (early_new SIZE) start len, live_bytes = [], live_pages = []\<rparr>"
| reach_step: "early_reachable base SIZE c \<Longrightarrow> early_step base SIZE c c' \<Longrightarrow> early_reachable base SIZE c'"

text \<open>Allocations as intervals of addresses: first address and length.\<close>

definition byte_region :: "usize \<times> layout \<Rightarrow> nat \<times> nat" where
  "byte_region pl = (unat (fst pl), unat (lsize (snd pl)))"

definition page_region :: "usize \<times> usize \<Rightarrow> nat \<times> nat" where
  "page_region pn = (unat (fst pn), unat (snd pn) * 4096)"

definition disjoint_regions :: "nat \<times> nat \<Rightarrow> nat \<times> nat \<Rightarrow> bool" where
  "disjoint_regions r r' \<longleftrightarrow> fst r + snd r \<le> fst r' \<or> fst r' + snd r' \<le> fst r"

definition live_regions :: "early_client \<Rightarrow> (nat \<times> nat) list" where
  "live_regions c = map byte_region (live_bytes c) @ map page_region (live_pages c)"

definition regions_within :: "nat \<Rightarrow> nat \<Rightarrow> (nat \<times> nat) list \<Rightarrow> bool" where
  "regions_within lo hi rs \<longleftrightarrow> list_all (\<lambda>r. 0 < snd r \<and> lo \<le> fst r \<and> fst r + snd r \<le> hi) rs"

lemma sorted_wrt_map_remove1:
  "sorted_wrt P (map f xs) \<Longrightarrow> sorted_wrt P (map f (remove1 x xs))"
proof (induction xs)
  case (Cons y ys)
  then show ?case
    by (auto simp: sorted_wrt.simps dest: notin_set_remove1)
qed simp

lemma sorted_wrt_remove1_other:
  assumes sym: "\<And>a b. P a b \<Longrightarrow> P b a"
  shows "sorted_wrt P (map f xs) \<Longrightarrow> x \<in> set xs \<Longrightarrow> y \<in> set (remove1 x xs) \<Longrightarrow> P (f x) (f y)"
proof (induction xs)
  case (Cons z zs)
  then show ?case
    by (cases "z = x") (auto intro: sym)
qed simp

lemma disjoint_regions_sym: "disjoint_regions r r' \<Longrightarrow> disjoint_regions r' r"
  by (auto simp: disjoint_regions_def)

lemma regions_within_remove1:
  "regions_within lo hi (map f xs) \<Longrightarrow> regions_within lo hi (map f (remove1 x xs))"
  by (induction xs) (auto simp: regions_within_def)

lemma regions_within_mono:
  "regions_within lo hi rs \<Longrightarrow> lo' \<le> lo \<Longrightarrow> hi \<le> hi' \<Longrightarrow> regions_within lo' hi' rs"
  by (induction rs) (auto simp: regions_within_def)

lemma regions_below_above_disjoint:
  "regions_within lo m rs \<Longrightarrow> regions_within m hi rs' \<Longrightarrow> r \<in> set rs \<Longrightarrow> r' \<in> set rs' \<Longrightarrow>
   disjoint_regions r r'"
  by (auto simp: regions_within_def list_all_iff disjoint_regions_def) force

definition early_client_inv :: "usize \<Rightarrow> usize \<Rightarrow> early_client \<Rightarrow> bool" where
  "early_client_inv base SIZE c \<longleftrightarrow>
     early_inv SIZE (early_st c) \<and>
     unat (b_count (early_st c)) = length (live_bytes c) \<and>
     sum_list (map (snd \<circ> byte_region) (live_bytes c)) \<le> unat (b_pos (early_st c)) \<and>
     regions_within (unat base) (unat base + unat (b_pos (early_st c)))
       (map byte_region (live_bytes c)) \<and>
     regions_within (unat base + unat (p_pos (early_st c))) (unat base + unat SIZE)
       (map page_region (live_pages c)) \<and>
     sorted_wrt disjoint_regions (map byte_region (live_bytes c)) \<and>
     sorted_wrt disjoint_regions (map page_region (live_pages c))"

lemma regions_length_le_sum: "regions_within lo hi rs \<Longrightarrow> length rs \<le> sum_list (map snd rs)"
  by (induction rs) (auto simp: regions_within_def)

lemma early_alloc_client_inv:
  assumes inv: "early_client_inv base SIZE c" and ok: "arena_ok base SIZE"
    and l: "valid_layout l" "lsize l \<noteq> 0"
    and r: "early_alloc base (early_st c) l = (Ok p, a')"
  shows "early_client_inv base SIZE (c\<lparr>early_st := a', live_bytes := (p, l) # live_bytes c\<rparr>)"
proof -
  let ?a = "early_st c"
  define off where "off = round_up (unat (b_pos ?a)) (unat (lalign l))"
  define w where "w = align_up (b_pos ?a) (lalign l)"
  have ei: "early_inv SIZE ?a" using inv by (simp add: early_client_inv_def)
  note cases = early_alloc_cases [OF ei ok l(1), folded off_def w_def]
  have fits: "off + unat (lsize l) \<le> unat (p_pos ?a)" and p: "p = base + w"
    and a': "a' = ?a\<lparr>b_pos := w + lsize l, b_count := b_count ?a + 1\<rparr>"
    using r cases(2) by (auto split: if_splits)
  have ge: "unat (b_pos ?a) \<le> off"
    using l(1) by (auto simp: off_def valid_layout_def intro: round_up_ge power_of_two_pos)
  have pS: "unat (p_pos ?a) \<le> unat SIZE"
    using ei by (auto simp: early_inv_def word_le_nat_alt)
  have up: "unat p = unat base + off"
    using ok fits pS by (simp add: p cases(1) arena_ok_def unat_add_usize)
  have ub: "unat (w + lsize l) = off + unat (lsize l)"
    using cases(1,3) by (simp add: unat_add_usize)
  have sz: "0 < unat (lsize l)"
    using l(2) by (simp add: unat_gt_0)
  have len: "length (live_bytes c) \<le> sum_list (map (snd \<circ> byte_region) (live_bytes c))"
    using inv regions_length_le_sum [of _ _ "map byte_region (live_bytes c)"]
    by (auto simp: early_client_inv_def)
  have cnt: "unat (b_count ?a + 1) = Suc (length (live_bytes c))"
  proof -
    have "unat (b_count ?a) + 1 < 2 ^ 64"
      using inv len ge fits pS ok by (simp add: early_client_inv_def arena_ok_def)
    then show ?thesis
      using inv by (subst unat_add_usize) (simp_all add: early_client_inv_def)
  qed
  have cnt0: "b_count ?a + 1 \<noteq> 0" using cnt by auto
  have old: "regions_within (unat base) (unat base + unat (b_pos ?a)) (map byte_region (live_bytes c))"
    using inv by (simp add: early_client_inv_def)
  have new: "disjoint_regions (unat base + off, unat (lsize l)) r" if "r \<in> byte_region ` set (live_bytes c)" for r
    using old that ge by (fastforce simp: regions_within_def list_all_iff disjoint_regions_def)
  show ?thesis
    using inv ei ge fits ub cnt cnt0 sz up old new regions_within_mono [OF old]
    by (auto simp: early_client_inv_def a' early_inv_def word_le_nat_alt byte_region_def
        regions_within_def)
qed

lemma sum_list_map_remove1_le:
  "sum_list (map f (remove1 x xs)) \<le> (sum_list (map f xs) :: nat)"
  by (induction xs) auto

lemma early_dealloc_client_inv:
  assumes inv: "early_client_inv base SIZE c" and mem: "(p, l) \<in> set (live_bytes c)"
  shows "early_client_inv base SIZE
     (c\<lparr>early_st := early_dealloc (early_st c) p l, live_bytes := remove1 (p, l) (live_bytes c)\<rparr>)"
proof -
  let ?a = "early_st c" and ?L = "remove1 (p, l) (live_bytes c)"
  have cnt: "unat (b_count ?a) = Suc (length ?L)"
    using inv mem by (simp add: early_client_inv_def length_remove1)
      (metis Suc_pred length_pos_if_in_set)
  then have nz: "b_count ?a \<noteq> 0" by auto
  have cnt': "unat (b_count ?a - 1) = length ?L"
    using cnt nz by (simp add: unat_minus_one)
  have sum: "sum_list (map (snd \<circ> byte_region) ?L) \<le> unat (b_pos ?a)"
    using inv sum_list_map_remove1_le [of "snd \<circ> byte_region" "(p, l)" "live_bytes c"]
    by (simp add: early_client_inv_def)
  have within: "regions_within (unat base) (unat base + unat (b_pos ?a)) (map byte_region ?L)"
    and disj: "sorted_wrt disjoint_regions (map byte_region ?L)"
    using inv by (auto simp: early_client_inv_def intro: regions_within_remove1 sorted_wrt_map_remove1)
  show ?thesis
  proof (cases "b_count ?a - 1 = 0")
    case True
    with cnt' have "?L = []" by simp
    with True nz inv show ?thesis
      by (auto simp: early_client_inv_def early_dealloc_def Let_def early_inv_def regions_within_def)
  next
    case False
    with nz inv cnt' sum within disj show ?thesis
      by (auto simp: early_client_inv_def early_dealloc_def Let_def early_inv_def)
  qed
qed

lemma early_alloc_pages_client_inv:
  assumes inv: "early_client_inv base SIZE c" and ok: "arena_ok base SIZE"
    and al: "is_power_of_two al"
    and r: "early_alloc_pages base (early_st c) n al = (Ok p, a')"
  shows "early_client_inv base SIZE (c\<lparr>early_st := a', live_pages := (p, n) # live_pages c\<rparr>)"
proof -
  let ?a = "early_st c"
  define off where "off = round_down (unat (p_pos ?a) - unat n * 4096) (unat (max PAGE_SIZE al))"
  have ei: "early_inv SIZE ?a" using inv by (simp add: early_client_inv_def)
  have pS: "unat (p_pos ?a) \<le> unat SIZE"
    using ei by (auto simp: early_inv_def word_le_nat_alt)
  note cases = early_alloc_pages_cases(1) [OF al, where a = ?a and n = n and base = base, folded off_def]
    early_alloc_pages_cases(2) [OF al, where a = ?a and n = n, folded off_def]
  have n: "n \<noteq> 0" "unat n * 4096 \<le> unat (p_pos ?a)" "unat (b_pos ?a) \<le> off"
    and p: "p = base + of_nat off" and a': "a' = ?a\<lparr>p_pos := of_nat off\<rparr>"
    using r cases(1) by (auto split: if_splits)
  have le: "off + unat n * 4096 \<le> unat (p_pos ?a)"
    using n(2) round_down_le [of "unat (p_pos ?a) - unat n * 4096"] unfolding off_def
    by (meson le_diff_conv2 le_trans)
  have up: "unat p = unat base + off"
    using ok le pS by (simp add: p cases(2) arena_ok_def unat_add_usize)
  have n0: "0 < unat n" using n(1) by (simp add: unat_gt_0)
  have old: "regions_within (unat base + unat (p_pos ?a)) (unat base + unat SIZE) (map page_region (live_pages c))"
    using inv by (simp add: early_client_inv_def)
  have new: "disjoint_regions (unat base + off, unat n * 4096) r" if "r \<in> page_region ` set (live_pages c)" for r
    using old that le by (fastforce simp: regions_within_def list_all_iff disjoint_regions_def)
  have old': "regions_within (unat base + off) (unat base + unat SIZE) (map page_region (live_pages c))"
    using old by (rule regions_within_mono) (use le in auto)
  show ?thesis
    using inv ei n le up n0 pS new old' cases(2)
    by (auto simp: early_client_inv_def a' early_inv_def word_le_nat_alt page_region_def
        regions_within_def)
qed

lemma early_dealloc_pages_client_inv:
  assumes inv: "early_client_inv base SIZE c" and ok: "arena_ok base SIZE"
    and mem: "(p, n) \<in> set (live_pages c)"
  shows "early_client_inv base SIZE
     (c\<lparr>early_st := early_dealloc_pages SIZE base (early_st c) p n,
        live_pages := remove1 (p, n) (live_pages c)\<rparr>)"
proof -
  let ?a = "early_st c" and ?P = "remove1 (p, n) (live_pages c)"
  have ei: "early_inv SIZE ?a" using inv by (simp add: early_client_inv_def)
  have reg: "0 < unat n" "unat base + unat (p_pos ?a) \<le> unat p"
      "unat p + unat n * 4096 \<le> unat base + unat SIZE"
    using inv mem by (auto simp: early_client_inv_def regions_within_def list_all_iff page_region_def)
  have within: "regions_within (unat base + unat (p_pos ?a)) (unat base + unat SIZE) (map page_region ?P)"
    and disj: "sorted_wrt disjoint_regions (map page_region ?P)"
    using inv by (auto simp: early_client_inv_def intro: regions_within_remove1 sorted_wrt_map_remove1)
  have tot: "unat n * 4096 < 2 ^ 64" "unat (n * PAGE_SIZE) = unat n * 4096"
    using reg(3) ok unat_mult_usize [of n PAGE_SIZE] by (auto simp: arena_ok_def)
  have off: "unat (p - base) = unat p - unat base"
    using reg(2) by (simp add: unat_sub_usize word_le_nat_alt)
  show ?thesis
  proof (cases "p - base = p_pos ?a")
    case False
    then have "early_dealloc_pages SIZE base ?a p n = ?a"
      using tot by (simp add: early_dealloc_pages_def checked_mul_def Let_def)
    with inv within disj show ?thesis by (simp add: early_client_inv_def)
  next
    case True
    define q where "q = p_pos ?a + n * PAGE_SIZE"
    have ppos: "unat p = unat base + unat (p_pos ?a)"
      using True off reg(2) by simp
    have uq: "unat q = unat (p_pos ?a) + unat n * 4096"
      using reg(3) ok ppos tot by (simp add: q_def arena_ok_def unat_add_usize)
    have d: "early_dealloc_pages SIZE base ?a p n = ?a\<lparr>p_pos := q\<rparr>"
    proof -
      have "unat (p + n * PAGE_SIZE) = unat p + unat n * 4096" "unat (base + SIZE) = unat base + unat SIZE"
        using reg(3) ok tot by (auto simp: arena_ok_def unat_add_usize)
      then have c1: "\<not> (p < base \<or> base + SIZE < p + n * PAGE_SIZE)"
        using reg(3) ppos by (simp add: word_less_nat_alt)
      have c2: "min (saturating_add (p - base) (n * PAGE_SIZE)) (p_end ?a) = q"
        using True ei reg(3) ppos uq tot ok unfolding q_def
        by (simp add: saturating_add_def min_def word_le_nat_alt early_inv_def arena_ok_def)
      show ?thesis
        using reg(1) tot c1 c2 True
        by (simp add: early_dealloc_pages_def checked_mul_def Let_def) auto
    qed
    have "regions_within (unat base + unat q) (unat base + unat SIZE) (map page_region ?P)"
    proof -
      have "disjoint_regions (page_region (p, n)) (page_region r)" if "r \<in> set ?P" for r
        using inv mem that
        sorted_wrt_remove1_other [of disjoint_regions page_region "live_pages c" "(p, n)" r]
        by (simp add: early_client_inv_def disjoint_regions_sym)
      then show ?thesis
        using within ppos uq
        by (fastforce simp: regions_within_def list_all_iff disjoint_regions_def page_region_def)
    qed
    moreover have "b_pos ?a \<le> q" "q \<le> p_end ?a"
      using ei uq reg(3) ppos by (auto simp: early_inv_def word_le_nat_alt)
    ultimately show ?thesis
      using inv disj by (simp add: early_client_inv_def d early_inv_def)
  qed
qed

lemma early_step_client_inv:
  assumes "early_step base SIZE c c'" and "arena_ok base SIZE" and "early_client_inv base SIZE c"
  shows "early_client_inv base SIZE c'"
  using assms
proof (induction rule: early_step.induct)
  case (step_alloc l c p a')
  then show ?case by (blast intro: early_alloc_client_inv)
next
  case (step_alloc_fail l c e a')
  moreover from this have "a' = early_st c"
    using early_alloc_cases(2) [of SIZE "early_st c" base l]
    by (auto simp: early_client_inv_def split: if_splits)
  ultimately show ?case by simp
next
  case (step_dealloc p l c)
  then show ?case by (blast intro: early_dealloc_client_inv)
next
  case (step_alloc_pages al c n p a')
  then show ?case by (blast intro: early_alloc_pages_client_inv)
next
  case (step_alloc_pages_fail al c n e a')
  moreover from this have "a' = early_st c"
    using early_alloc_pages_cases(1) [of al base "early_st c" n] by (auto split: if_splits)
  ultimately show ?case by simp
next
  case (step_dealloc_pages p n c)
  then show ?case by (blast intro: early_dealloc_pages_client_inv)
qed

lemma early_reachable_client_inv:
  "early_reachable base SIZE c \<Longrightarrow> arena_ok base SIZE \<Longrightarrow> early_client_inv base SIZE c"
proof (induction rule: early_reachable.induct)
  case (reach_init start len)
  show ?case
    by (simp add: early_client_inv_def early_inv_def early_init_def regions_within_def)
next
  case (reach_step c c')
  then show ?case by (blast intro: early_step_client_inv)
qed

section \<open>The page interface\<close>

lemma unat_early_available_pages:
  "unat (early_available_pages a) = (unat (p_pos a) - unat (b_pos a)) div 4096"
  by (simp add: early_available_pages_def unat_div unat_saturating_sub)

interpretation early_pages: page_provider
  "early_alloc_pages base" "\<lambda>a. unat (early_available_pages a)" "early_inv SIZE"
  for base SIZE
proof unfold_locales
  fix a :: early_allocator and al n :: usize
  assume inv: "early_inv SIZE a" and al: "is_power_of_two al"
  note cases = early_alloc_pages_cases(1) [OF al, where a = a and n = n and base = base]
    early_alloc_pages_cases(2) [OF al, where a = a and n = n]
  define off where "off = round_down (unat (p_pos a) - unat n * 4096) (unat (max PAGE_SIZE al))"
  have le: "off \<le> unat (p_pos a) - unat n * 4096"
    unfolding off_def by (rule round_down_le)
  show "early_inv SIZE (snd (early_alloc_pages base a n al))"
    using inv cases le by (auto simp: early_inv_def word_le_nat_alt simp flip: off_def)
  show "fst (early_alloc_pages base a n al) \<noteq> Panic"
    using cases(1) by simp
  fix r a'
  assume "early_alloc_pages base a n al = (Ok r, a')"
  then have n: "unat n * 4096 \<le> unat (p_pos a)" "unat (b_pos a) \<le> off" and a': "a' = a\<lparr>p_pos := of_nat off\<rparr>"
    using cases by (auto split: if_splits simp flip: off_def)
  have "(off - unat (b_pos a)) div 4096 + unat n = (off - unat (b_pos a) + unat n * 4096) div 4096"
    by simp
  also have "\<dots> \<le> (unat (p_pos a) - unat (b_pos a)) div 4096"
    using n le by (intro div_le_mono) linarith
  finally show "unat (early_available_pages a') + unat n \<le> unat (early_available_pages a)"
    using cases(2) by (simp add: unat_early_available_pages a' flip: off_def)
next
  fix a a' :: early_allocator and al n :: usize and e
  assume "is_power_of_two al" and "early_alloc_pages base a n al = (Err e, a')"
  then show "unat (early_available_pages a') \<le> unat (early_available_pages a)"
    using early_alloc_pages_cases(1) [of al base a n] by (auto split: if_splits)
qed

text \<open>The pages handed out are those from the page position to the top of the arena.\<close>

definition early_owned :: "usize \<Rightarrow> usize \<Rightarrow> early_allocator \<Rightarrow> usize set" where
  "early_owned base SIZE a = {p. unat (p_pos a) \<le> unat (p - base) \<and> unat (p - base) < unat SIZE}"

interpretation early_owner: page_owner
  "early_alloc_pages base" "early_owned base SIZE" "\<lambda>a. early_inv SIZE a \<and> arena_ok base SIZE"
proof unfold_locales
  fix a a' :: early_allocator and al n :: usize and r
  assume inv: "early_inv SIZE a \<and> arena_ok base SIZE" and al: "is_power_of_two al"
  note cases = early_alloc_pages_cases(1) [OF al, where a = a and n = n and base = base]
    early_alloc_pages_cases(2) [OF al, where a = a and n = n]
  define off where "off = round_down (unat (p_pos a) - unat n * 4096) (unat (max PAGE_SIZE al))"
  have le: "off \<le> unat (p_pos a) - unat n * 4096"
    unfolding off_def by (rule round_down_le)
  {
    assume r: "early_alloc_pages base a n al = (r, a')"
    have "early_inv SIZE a'"
      using early_pages.alloc_inv [of SIZE a al base n] inv al r by simp
    moreover have "unat (p_pos a') \<le> unat (p_pos a)"
      using r cases le by (auto split: if_splits simp flip: off_def)
    ultimately show "(early_inv SIZE a' \<and> arena_ok base SIZE) \<and> early_owned base SIZE a \<subseteq> early_owned base SIZE a'"
      using inv by (auto simp: early_owned_def)
  }
  fix b
  assume "early_alloc_pages base a n al = (Ok b, a')"
  then have n: "unat n * 4096 \<le> unat (p_pos a)" and b: "b = base + of_nat off" "a' = a\<lparr>p_pos := of_nat off\<rparr>"
    using cases(1) by (auto split: if_splits simp flip: off_def)
  have off: "unat (of_nat off :: usize) = off" using cases(2) by (simp flip: off_def)
  have top: "unat (p_pos a) \<le> unat SIZE" using inv by (auto simp: early_inv_def word_le_nat_alt)
  show "span b (unat n * 4096) \<subseteq> early_owned base SIZE a' - early_owned base SIZE a"
  proof
    fix p
    assume p: "p \<in> span b (unat n * 4096)"
    let ?d = "unat (p - b)"
    have d: "off + ?d < unat (p_pos a)" using p le n by (simp add: span_def)
    have "unat (p - base) = off + ?d"
    proof -
      have "p - base = of_nat off + (p - b)" by (simp add: b)
      also have "unat \<dots> = off + ?d"
        using d unat_usize_less [of "p_pos a"] off by (subst unat_add_usize) simp_all
      finally show ?thesis .
    qed
    with d show "p \<in> early_owned base SIZE a' - early_owned base SIZE a"
      using off top by (simp add: early_owned_def b)
  qed
qed

section \<open>Properties\<close>

text \<open>
  C6. Memory safety of the early allocator: in every state a well-behaved client reaches, the
  byte allocations and the page allocations it holds are pairwise disjoint, non-empty, and inside
  the arena.
\<close>

theorem early_live_disjoint:
  assumes "arena_ok base SIZE" and "early_reachable base SIZE c"
  shows "sorted_wrt disjoint_regions (live_regions c) \<and>
         regions_within (unat base) (unat base + unat SIZE) (live_regions c)"
proof -
  let ?b = "unat (b_pos (early_st c))" and ?p = "unat (p_pos (early_st c))"
  have inv: "early_client_inv base SIZE c"
    using assms by (blast intro: early_reachable_client_inv)
  then have le: "?b \<le> ?p" "?p \<le> unat SIZE"
    by (auto simp: early_client_inv_def early_inv_def word_le_nat_alt)
  have bytes: "regions_within (unat base) (unat base + ?b) (map byte_region (live_bytes c))"
    and pages: "regions_within (unat base + ?p) (unat base + unat SIZE) (map page_region (live_pages c))"
    using inv by (simp_all add: early_client_inv_def)
  have pages': "regions_within (unat base + ?b) (unat base + unat SIZE) (map page_region (live_pages c))"
    using pages by (rule regions_within_mono) (use le in auto)
  have "sorted_wrt disjoint_regions (live_regions c)"
    using inv regions_below_above_disjoint [OF bytes pages']
    by (simp add: live_regions_def sorted_wrt_append early_client_inv_def)
  moreover have "regions_within (unat base) (unat base + unat SIZE) (live_regions c)"
    using regions_within_mono [OF bytes, of "unat base" "unat base + unat SIZE"]
      regions_within_mono [OF pages, of "unat base" "unat base + unat SIZE"] le
    by (simp add: live_regions_def regions_within_def)
  ultimately show ?thesis ..
qed

definition example_layout :: layout where
  "example_layout = \<lparr>lsize = 16, lalign = 8\<rparr>"

definition example_client :: early_client where
  "example_client =
     \<lparr>early_st = \<lparr>b_start = 0, b_pos = 16, p_pos = 61440, p_end = 65536, b_count = 1\<rparr>,
      live_bytes = [(1048576, example_layout)], live_pages = [(1110016, 1)]\<rparr>"

lemma example_layout_valid: "valid_layout example_layout"
  unfolding valid_layout_def is_power_of_two_def example_layout_def
  by (auto intro: exI [of _ 3])

lemma example_client_reachable: "early_reachable 1048576 65536 example_client"
proof -
  let ?a0 = "early_init 65536 (early_new 65536) 0 0"
  let ?c0 = "\<lparr>early_st = ?a0, live_bytes = [], live_pages = []\<rparr>"
  let ?a1 = "\<lparr>b_start = 0, b_pos = 16, p_pos = 65536, p_end = 65536, b_count = 1\<rparr>"
  let ?c1 = "?c0\<lparr>early_st := ?a1, live_bytes := [(1048576, example_layout)]\<rparr>"
  have "early_reachable 1048576 65536 ?c0" by (rule reach_init)
  moreover have "early_step 1048576 65536 ?c0 ?c1"
    using step_alloc [where c = ?c0 and base = 1048576 and SIZE = 65536 and l = example_layout
        and p = 1048576 and a' = ?a1]
    by (simp add: example_layout_valid)
      (simp add: example_layout_def early_alloc_def early_init_def early_new_def align_up_def
        checked_add_def Let_def)
  ultimately have "early_reachable 1048576 65536 ?c1" by (rule reach_step)
  moreover have "early_step 1048576 65536 ?c1 example_client"
    using step_alloc_pages [where c = ?c1 and base = 1048576 and SIZE = 65536 and n = 1
        and al = PAGE_SIZE and p = 1110016 and a' = "?a1\<lparr>p_pos := 61440\<rparr>"] PAGE_SIZE_power
    by (simp add: example_client_def early_alloc_pages_def align_down_def checked_mul_def
        checked_sub_def Let_def PAGE_SIZE_def)
  ultimately show ?thesis by (rule reach_step)
qed

theorem early_live_disjoint_witness:
  "arena_ok 1048576 65536 \<and> early_reachable 1048576 65536 example_client \<and>
   live_regions example_client = [(1048576, 16), (1110016, 4096)] \<and>
   sorted_wrt disjoint_regions (live_regions example_client)"
proof -
  have ok: "arena_ok 1048576 65536" by (simp add: arena_ok_def)
  have regs: "live_regions example_client = [(1048576, 16), (1110016, 4096)]"
    by (simp add: live_regions_def example_client_def byte_region_def page_region_def example_layout_def)
  show ?thesis
    using ok regs example_client_reachable early_live_disjoint [OF ok example_client_reachable] by blast
qed

text \<open>
  C27. Byte allocation, every branch: the request is placed at the first multiple of its alignment
  at or after the byte position; it succeeds exactly when it then ends at or before the page
  position, and a failing request is answered with \<open>AllocNoMemory\<close> and changes nothing.
\<close>

theorem early_alloc_exact:
  assumes "early_inv SIZE a" and "arena_ok base SIZE" and "valid_layout l"
    and "off = round_up (unat (b_pos a)) (unat (lalign l))"
  shows "unat (b_pos a) \<le> off \<and> off < unat (b_pos a) + unat (lalign l) \<and> unat (lalign l) dvd off \<and>
    (if off + unat (lsize l) \<le> unat (p_pos a)
     then early_alloc base a l =
            (Ok (base + of_nat off),
             a\<lparr>b_pos := of_nat (off + unat (lsize l)), b_count := b_count a + 1\<rparr>)
     else early_alloc base a l = (Err AllocNoMemory, a))"
proof -
  have al: "0 < unat (lalign l)"
    using assms(3) by (simp add: valid_layout_def power_of_two_pos)
  note cases = early_alloc_cases [OF assms(1-3), folded assms(4)]
  have w: "align_up (b_pos a) (lalign l) = of_nat off"
    using cases(1) by (rule of_nat_unat_usize)
  show ?thesis
    using cases(2) round_up_ge [OF al] round_up_less [OF al] dvd_round_up
    by (auto simp: w assms(4))
qed

definition example_early :: early_allocator where
  "example_early = \<lparr>b_start = 0, b_pos = 3, p_pos = 65536, p_end = 65536, b_count = 1\<rparr>"

theorem early_alloc_exact_witness:
  "early_inv 65536 example_early \<and> arena_ok 1048576 65536 \<and> valid_layout example_layout \<and>
   early_alloc 1048576 example_early example_layout = (Ok 1048584, example_early\<lparr>b_pos := 24, b_count := 2\<rparr>)"
proof -
  have h: "early_inv 65536 example_early" "arena_ok 1048576 65536"
    by (simp_all add: early_inv_def example_early_def arena_ok_def)
  show ?thesis
    using h example_layout_valid early_alloc_exact [OF h example_layout_valid refl]
    by (simp add: round_up_def example_early_def example_layout_def)
qed

text \<open>
  C28. Page allocation, every branch: the block ends at or below the page position and starts at
  an offset in the arena that is a multiple of the requested alignment, a page at least; it is granted
  exactly when the request is non-empty and the start is not below the byte position. Giving the
  block back at once moves the page position to its end again, so pages are freed.
\<close>

theorem early_alloc_pages_exact:
  assumes "early_inv SIZE a" and "arena_ok base SIZE" and "is_power_of_two al"
    and "off = round_down (unat (p_pos a) - unat n * 4096) (unat (max PAGE_SIZE al))"
  shows "if n \<noteq> 0 \<and> unat n * 4096 \<le> unat (p_pos a) \<and> unat (b_pos a) \<le> off
     then early_alloc_pages base a n al = (Ok (base + of_nat off), a\<lparr>p_pos := of_nat off\<rparr>) \<and>
          early_dealloc_pages SIZE base (a\<lparr>p_pos := of_nat off\<rparr>) (base + of_nat off) n =
            a\<lparr>p_pos := of_nat (off + unat n * 4096)\<rparr>
     else early_alloc_pages base a n al = (Err AllocNoMemory, a)"
proof (cases "n \<noteq> 0 \<and> unat n * 4096 \<le> unat (p_pos a) \<and> unat (b_pos a) \<le> off")
  case False
  then show ?thesis
    unfolding early_alloc_pages_cases(1) [OF assms(3), where a = a and n = n and base = base,
        folded assms(4)]
    by (simp only: if_False)
next
  case True
  let ?o = "of_nat off :: usize"
  have u: "unat ?o = off"
    using early_alloc_pages_cases(2) [OF assms(3), where a = a and n = n] by (simp add: assms(4))
  have "off \<le> unat (p_pos a) - unat n * 4096"
    unfolding assms(4) by (rule round_down_le)
  then have le: "off + unat n * 4096 \<le> unat (p_pos a)" "unat (p_pos a) \<le> unat SIZE"
    using True assms(1) by (auto simp: early_inv_def word_le_nat_alt)
  have tot: "unat (n * PAGE_SIZE) = unat n * 4096" "unat n * 4096 < 2 ^ 64"
    using le assms(2) unat_mult_usize [of n PAGE_SIZE] by (auto simp: arena_ok_def)
  have addr: "unat (base + ?o) = unat base + off" "unat (base + SIZE) = unat base + unat SIZE"
      "unat (base + ?o + n * PAGE_SIZE) = unat base + off + unat n * 4096"
      "unat (?o + n * PAGE_SIZE) = off + unat n * 4096"
    using le assms(2) tot u by (auto simp: arena_ok_def unat_add_usize)
  have sat: "saturating_add ?o (n * PAGE_SIZE) = of_nat (off + unat n * 4096)"
    using addr(4) le assms(2) tot u of_nat_unat_usize [OF addr(4)]
    by (simp add: saturating_add_def arena_ok_def)
  have "early_dealloc_pages SIZE base (a\<lparr>p_pos := ?o\<rparr>) (base + ?o) n =
      a\<lparr>p_pos := of_nat (off + unat n * 4096)\<rparr>"
    using True le addr tot sat assms(1) of_nat_unat_usize [OF addr(4)]
    by (simp add: early_dealloc_pages_def checked_mul_def Let_def word_less_nat_alt min_def
        word_le_nat_alt early_inv_def)
  with True show ?thesis
    unfolding early_alloc_pages_cases(1) [OF assms(3), where a = a and n = n and base = base,
        folded assms(4)]
    by (simp only: if_True simp_thms)
qed

theorem early_alloc_pages_exact_witness:
  "early_inv 65536 example_early \<and>
   early_alloc_pages 1048576 example_early 2 PAGE_SIZE = (Ok 1105920, example_early\<lparr>p_pos := 57344\<rparr>) \<and>
   early_dealloc_pages 65536 1048576 (example_early\<lparr>p_pos := 57344\<rparr>) 1105920 2 = example_early"
proof -
  have h: "early_inv 65536 example_early" "arena_ok 1048576 65536"
    by (simp_all add: early_inv_def example_early_def arena_ok_def)
  show ?thesis
    using h early_alloc_pages_exact [OF h PAGE_SIZE_power refl, of 2]
    by (simp add: round_down_def example_early_def)
qed

text \<open>
  C40. The address of a page block is congruent to the address of the arena modulo the alignment:
  blocks are aligned offsets, so a page allocation is page-aligned only if the arena itself is. The
  source gives the arena the alignment of a byte array.
\<close>

theorem early_alloc_pages_congruent:
  assumes "early_inv SIZE a" and "arena_ok base SIZE" and "is_power_of_two al"
    and "early_alloc_pages base a n al = (Ok p, a')"
  shows "unat p mod unat (max PAGE_SIZE al) = unat base mod unat (max PAGE_SIZE al)"
proof -
  define off where "off = round_down (unat (p_pos a) - unat n * 4096) (unat (max PAGE_SIZE al))"
  note cases = early_alloc_pages_cases(1) [OF assms(3), where a = a and n = n and base = base, folded off_def]
    early_alloc_pages_cases(2) [OF assms(3), where a = a and n = n, folded off_def]
  have p: "p = base + of_nat off"
    using assms(4) cases(1) by (simp split: if_splits)
  have "off \<le> unat SIZE"
    using assms(1) round_down_le [of "unat (p_pos a) - unat n * 4096" "unat (max PAGE_SIZE al)"]
    by (auto simp: off_def early_inv_def word_le_nat_alt)
  then have "unat p = unat base + off"
    using assms(2) cases(2) by (simp add: p arena_ok_def unat_add_usize)
  moreover have "unat (max PAGE_SIZE al) dvd off"
    unfolding off_def by (rule dvd_round_down)
  ultimately show ?thesis
    by (metis dvd_imp_mod_0 mod_add_right_eq Nat.add_0_right)
qed

theorem early_alloc_pages_congruent_witness:
  "early_alloc_pages 1048584 example_early 1 PAGE_SIZE = (Ok 1110024, example_early\<lparr>p_pos := 61440\<rparr>) \<and>
   arena_ok 1048584 65536 \<and> unat (1110024 :: usize) mod 4096 = 8"
proof -
  have h: "early_inv 65536 example_early" "arena_ok 1048584 65536"
    by (simp_all add: early_inv_def example_early_def arena_ok_def)
  have r: "early_alloc_pages 1048584 example_early 1 PAGE_SIZE = (Ok 1110024, example_early\<lparr>p_pos := 61440\<rparr>)"
    by (simp add: early_alloc_pages_def example_early_def checked_mul_def checked_sub_def
        align_down_def Let_def PAGE_SIZE_def)
  show ?thesis
    using h r early_alloc_pages_congruent [OF h PAGE_SIZE_power r] by simp
qed

lemma div_add_div_le: "(m :: nat) div k + n div k \<le> (m + n) div k"
  by (metis add_mult_distrib div_le_mono div_mult_self_is_m div_times_less_eq_dividend
      add_mono bot_nat_0.not_eq_extremum div_by_0 add_0)

lemma whole_pages:
  assumes "(4096 :: nat) dvd s" and "4096 dvd p" and "b \<le> p" and "p \<le> s"
  shows "(s - p) div 4096 + (p - b) div 4096 + (b + 4095) div 4096 = s div 4096"
proof -
  obtain m n where "s = 4096 * m" "p = 4096 * n" using assms(1,2) by (elim dvdE)
  note mn = this
  then have le: "b \<le> 4096 * n" "n \<le> m" using assms(3,4) by simp_all
  define q where "q = (b + 4095) div 4096"
  have q: "4096 * q \<le> b + 4095" "b < 4096 * q + 1"
    using div_mult_mod_eq [of "b + 4095" 4096] mod_less_divisor [of 4096 "b + 4095"] unfolding q_def by linarith+
  then have "q \<le> n" using le(1) by linarith
  then obtain k where k: "n = q + k" using le_Suc_ex by blast
  have "(4096 * n - b) div 4096 = k" using q le(1) k by (intro div_nat_eqI) (simp_all add: algebra_simps)
  moreover have "(4096 * m - 4096 * n) div 4096 = m - n" by (simp flip: right_diff_distrib')
  ultimately show ?thesis using le(2) k unfolding mn q_def [symmetric] by simp
qed

text \<open>
  C29. Accounting: the bytes in use (both areas) and the bytes available add up to the arena. The pages
  in use and the pages available never exceed the arena's; when the arena and the lower end of the
  page area are page-aligned, what is missing from the arena's pages is exactly the number of pages the
  byte area reaches into.
\<close>

theorem early_accounting:
  assumes "early_inv SIZE a"
  shows "unat (early_used_bytes a) + unat (early_available_bytes a) = unat (early_total_bytes a) \<and>
         unat (early_total_bytes a) = unat SIZE \<and>
         unat (early_used_pages a) + unat (early_available_pages a) \<le> unat (early_total_pages a) \<and>
         (4096 dvd unat SIZE \<and> 4096 dvd unat (p_pos a) \<longrightarrow>
           unat (early_used_pages a) + unat (early_available_pages a) + (unat (b_pos a) + 4095) div 4096
             = unat (early_total_pages a))"
proof -
  have le: "unat (b_pos a) \<le> unat (p_pos a)" "unat (p_pos a) \<le> unat SIZE" "p_end a = SIZE" "b_start a = 0"
    using assms by (auto simp: early_inv_def word_le_nat_alt)
  have sub: "unat (SIZE - p_pos a) = unat SIZE - unat (p_pos a)"
    using le by (simp add: unat_sub_usize word_le_nat_alt)
  have used: "unat (early_used_bytes a) = unat (b_pos a) + (unat SIZE - unat (p_pos a))"
    using le sub unat_usize_less [of SIZE] by (simp add: early_used_bytes_def unat_add_usize)
  have "(unat SIZE - unat (p_pos a)) div 4096 + (unat (p_pos a) - unat (b_pos a)) div 4096
      \<le> (unat SIZE - unat (p_pos a) + (unat (p_pos a) - unat (b_pos a))) div 4096"
    by (rule div_add_div_le)
  also have "\<dots> \<le> unat SIZE div 4096"
    using le by (intro div_le_mono) linarith
  finally have sum: "(unat SIZE - unat (p_pos a)) div 4096 + (unat (p_pos a) - unat (b_pos a)) div 4096 \<le> unat SIZE div 4096" .
  have "(unat SIZE - unat (p_pos a)) div 4096 + (unat (p_pos a) - unat (b_pos a)) div 4096 + (unat (b_pos a) + 4095) div 4096
      = unat SIZE div 4096" if "4096 dvd unat SIZE" "4096 dvd unat (p_pos a)"
    using whole_pages [OF that le(1,2)] .
  then show ?thesis
    using le used sub sum
    by (simp add: early_total_bytes_def early_available_bytes_def unat_saturating_sub
        early_used_pages_def early_total_pages_def unat_early_available_pages unat_div)
qed

theorem early_accounting_witness:
  "early_inv 65536 example_early \<and>
   unat (early_used_bytes example_early) + unat (early_available_bytes example_early) = 65536"
proof -
  have h: "early_inv 65536 example_early" by (simp add: early_inv_def example_early_def)
  show ?thesis using h early_accounting [OF h] by simp
qed

end
