(* ===== verification/Global_Allocator.thy ===== *)
theory Global_Allocator
  imports Bump_Allocator
begin

text \<open>
  The two global allocators. \<^verbatim>\<open>modules/axalloc\<close> combines a byte allocator and a page allocator of
  the external crate \<^verbatim>\<open>allocator\<close> (TLSF, slab or buddy; a bitmap): their operations are the
  records \<open>byte_ops\<close> and \<open>page_ops\<close>, arguments of the model, and what the code relies on is the
  locale \<open>page_provider\<close>. \<^verbatim>\<open>modules/alt_axalloc\<close> wraps the early allocator of this repository.
  \<^verbatim>\<open>axalloc/src/page.rs\<close> is the RAII page handle over the first.

  The locks (\<^verbatim>\<open>SpinNoIrq\<close>) make each operation atomic; an operation of the model is one critical
  section. \<open>global_alloc\<close> holds the byte allocator's lock over its whole loop, as the source does.
\<close>

section \<open>The two-level allocator (modules/axalloc/src/lib.rs)\<close>

record 'b byte_ops =
  ba_init :: "'b \<Rightarrow> usize \<Rightarrow> usize \<Rightarrow> 'b"
  ba_add_memory :: "'b \<Rightarrow> usize \<Rightarrow> usize \<Rightarrow> (alloc_error, unit) outcome \<times> 'b"
  ba_alloc :: "'b \<Rightarrow> layout \<Rightarrow> (alloc_error, usize) outcome \<times> 'b"
  ba_dealloc :: "'b \<Rightarrow> usize \<Rightarrow> layout \<Rightarrow> 'b"
  ba_total_bytes :: "'b \<Rightarrow> usize"
  ba_used_bytes :: "'b \<Rightarrow> usize"
  ba_available_bytes :: "'b \<Rightarrow> usize"

record 'p page_ops =
  pa_init :: "'p \<Rightarrow> usize \<Rightarrow> usize \<Rightarrow> 'p"
  pa_alloc_pages :: "'p \<Rightarrow> usize \<Rightarrow> usize \<Rightarrow> (alloc_error, usize) outcome \<times> 'p"
  pa_dealloc_pages :: "'p \<Rightarrow> usize \<Rightarrow> usize \<Rightarrow> 'p"
  pa_used_pages :: "'p \<Rightarrow> usize"
  pa_available_pages :: "'p \<Rightarrow> usize"

record ('b, 'p) global_allocator =
  balloc :: 'b
  palloc :: 'p

definition MIN_HEAP_SIZE :: usize where
  "MIN_HEAP_SIZE = 32768"

definition global_alloc_pages ::
    "'p page_ops \<Rightarrow> ('b, 'p) global_allocator \<Rightarrow> usize \<Rightarrow> usize
     \<Rightarrow> (alloc_error, usize) outcome \<times> ('b, 'p) global_allocator" where
  "global_alloc_pages po g num_pages align_pow2 =
     (let (r, p) = pa_alloc_pages po (palloc g) num_pages align_pow2 in (r, g\<lparr>palloc := p\<rparr>))"

definition global_dealloc_pages ::
    "'p page_ops \<Rightarrow> ('b, 'p) global_allocator \<Rightarrow> usize \<Rightarrow> usize \<Rightarrow> ('b, 'p) global_allocator" where
  "global_dealloc_pages po g pos num_pages = g\<lparr>palloc := pa_dealloc_pages po (palloc g) pos num_pages\<rparr>"

text \<open>
  \<^verbatim>\<open>GlobalAllocator::init\<close>: the assertion on the size and the \<^verbatim>\<open>unwrap\<close> of the first page
  allocation are its two panics.
\<close>

definition global_init ::
    "'b byte_ops \<Rightarrow> 'p page_ops \<Rightarrow> ('b, 'p) global_allocator \<Rightarrow> usize \<Rightarrow> usize
     \<Rightarrow> (alloc_error, unit) outcome \<times> ('b, 'p) global_allocator" where
  "global_init bo po g start_vaddr len =
     (if \<not> MIN_HEAP_SIZE < len then (Panic, g)
      else
        let init_heap_size = MIN_HEAP_SIZE;
            g1 = g\<lparr>palloc := pa_init po (palloc g) start_vaddr len\<rparr>
        in case global_alloc_pages po g1 (init_heap_size div PAGE_SIZE) PAGE_SIZE of
             (Ok heap_ptr, g2) \<Rightarrow>
               (Ok (), g2\<lparr>balloc := ba_init bo (balloc g2) heap_ptr init_heap_size\<rparr>)
           | (_, g2) \<Rightarrow> (Panic, g2))"

definition global_add_memory ::
    "'b byte_ops \<Rightarrow> ('b, 'p) global_allocator \<Rightarrow> usize \<Rightarrow> usize
     \<Rightarrow> (alloc_error, unit) outcome \<times> ('b, 'p) global_allocator" where
  "global_add_memory bo g start_vaddr len =
     (let (r, b) = ba_add_memory bo (balloc g) start_vaddr len in (r, g\<lparr>balloc := b\<rparr>))"

text \<open>\<^verbatim>\<open>usize::next_power_of_two\<close>; in a release build an overflow gives 0.\<close>

fun next_pow2 :: "nat \<Rightarrow> nat" where
  "next_pow2 n = (if n \<le> 1 then 1 else 2 * next_pow2 ((n + 1) div 2))"

declare next_pow2.simps [simp del]

definition next_power_of_two :: "usize \<Rightarrow> usize" where
  "next_power_of_two x = of_nat (next_pow2 (unat x))"

definition expand_size :: "usize \<Rightarrow> layout \<Rightarrow> usize" where
  "expand_size old_size layout = max (next_power_of_two (max old_size (lsize layout))) PAGE_SIZE"

partial_function (option) global_alloc ::
    "'b byte_ops \<Rightarrow> 'p page_ops \<Rightarrow> ('b, 'p) global_allocator \<Rightarrow> layout
     \<Rightarrow> ((alloc_error, usize) outcome \<times> ('b, 'p) global_allocator) option" where
  "global_alloc bo po g layout =
     (case ba_alloc bo (balloc g) layout of
        (Ok ptr, b) \<Rightarrow> Some (Ok ptr, g\<lparr>balloc := b\<rparr>)
      | (Panic, b) \<Rightarrow> Some (Panic, g\<lparr>balloc := b\<rparr>)
      | (Err _, b) \<Rightarrow>
          let old_size = ba_total_bytes bo b; esize = expand_size old_size layout in
          (case global_alloc_pages po (g\<lparr>balloc := b\<rparr>) (esize div PAGE_SIZE) PAGE_SIZE of
             (Err e, g') \<Rightarrow> Some (Err e, g')
           | (Panic, g') \<Rightarrow> Some (Panic, g')
           | (Ok heap_ptr, g') \<Rightarrow>
               (case ba_add_memory bo (balloc g') heap_ptr esize of
                  (Err e, b') \<Rightarrow> Some (Err e, g'\<lparr>balloc := b'\<rparr>)
                | (Panic, b') \<Rightarrow> Some (Panic, g'\<lparr>balloc := b'\<rparr>)
                | (Ok _, b') \<Rightarrow> global_alloc bo po (g'\<lparr>balloc := b'\<rparr>) layout)))"

definition global_dealloc ::
    "'b byte_ops \<Rightarrow> ('b, 'p) global_allocator \<Rightarrow> usize \<Rightarrow> layout \<Rightarrow> ('b, 'p) global_allocator" where
  "global_dealloc bo g pos layout = g\<lparr>balloc := ba_dealloc bo (balloc g) pos layout\<rparr>"

definition global_used_bytes :: "'b byte_ops \<Rightarrow> ('b, 'p) global_allocator \<Rightarrow> usize" where
  "global_used_bytes bo g = ba_used_bytes bo (balloc g)"

definition global_available_bytes :: "'b byte_ops \<Rightarrow> ('b, 'p) global_allocator \<Rightarrow> usize" where
  "global_available_bytes bo g = ba_available_bytes bo (balloc g)"

definition global_used_pages :: "'p page_ops \<Rightarrow> ('b, 'p) global_allocator \<Rightarrow> usize" where
  "global_used_pages po g = pa_used_pages po (palloc g)"

definition global_available_pages :: "'p page_ops \<Rightarrow> ('b, 'p) global_allocator \<Rightarrow> usize" where
  "global_available_pages po g = pa_available_pages po (palloc g)"

text \<open>
  \<^verbatim>\<open>unsafe impl GlobalAlloc\<close>: an error goes to \<^verbatim>\<open>handle_alloc_error\<close>, which does not return,
  and a null pointer given back fails the \<^verbatim>\<open>expect\<close>.
\<close>

definition galloc_alloc ::
    "'b byte_ops \<Rightarrow> 'p page_ops \<Rightarrow> ('b, 'p) global_allocator \<Rightarrow> layout
     \<Rightarrow> ((alloc_error, usize) outcome \<times> ('b, 'p) global_allocator) option" where
  "galloc_alloc bo po g layout =
     map_option (\<lambda>(r, g'). (case r of Ok ptr \<Rightarrow> Ok ptr | _ \<Rightarrow> Panic, g')) (global_alloc bo po g layout)"

definition galloc_dealloc ::
    "'b byte_ops \<Rightarrow> ('b, 'p) global_allocator \<Rightarrow> usize \<Rightarrow> layout
     \<Rightarrow> (alloc_error, unit) outcome \<times> ('b, 'p) global_allocator" where
  "galloc_dealloc bo g ptr layout =
     (if ptr = 0 then (Panic, g) else (Ok (), global_dealloc bo g ptr layout))"

section \<open>Page handles (modules/axalloc/src/page.rs)\<close>

text \<open>
  A \<^verbatim>\<open>GlobalPage\<close> owns \<open>num_pages\<close> pages from \<open>start_vaddr\<close> on. Memory is a function from
  addresses to bytes; \<^verbatim>\<open>write_bytes\<close> over a range changes exactly that range.
\<close>

type_synonym memory = "usize \<Rightarrow> u8"

record global_page =
  gp_start_vaddr :: usize
  gp_num_pages :: usize

fun alloc_err_to_ax_err :: "alloc_error \<Rightarrow> ax_error" where
  "alloc_err_to_ax_err AllocInvalidParam = InvalidInput"
| "alloc_err_to_ax_err AllocMemoryOverlap = InvalidInput"
| "alloc_err_to_ax_err AllocNotAllocated = InvalidInput"
| "alloc_err_to_ax_err AllocNoMemory = NoMemory"

definition gp_alloc_contiguous ::
    "'p page_ops \<Rightarrow> ('b, 'p) global_allocator \<Rightarrow> usize \<Rightarrow> usize
     \<Rightarrow> (ax_error, global_page) outcome \<times> ('b, 'p) global_allocator" where
  "gp_alloc_contiguous po g num_pages align_pow2 =
     (let (r, g') = global_alloc_pages po g num_pages align_pow2 in
      (and_then (map_err alloc_err_to_ax_err r)
         (\<lambda>vaddr. Ok \<lparr>gp_start_vaddr = vaddr, gp_num_pages = num_pages\<rparr>), g'))"

definition gp_alloc ::
    "'p page_ops \<Rightarrow> ('b, 'p) global_allocator
     \<Rightarrow> (ax_error, global_page) outcome \<times> ('b, 'p) global_allocator" where
  "gp_alloc po g =
     (let (r, g') = global_alloc_pages po g 1 PAGE_SIZE in
      (and_then (map_err alloc_err_to_ax_err r)
         (\<lambda>vaddr. Ok \<lparr>gp_start_vaddr = vaddr, gp_num_pages = 1\<rparr>), g'))"

definition gp_size :: "global_page \<Rightarrow> usize" where
  "gp_size pg = gp_num_pages pg * PAGE_SIZE"

definition write_bytes :: "memory \<Rightarrow> usize \<Rightarrow> u8 \<Rightarrow> usize \<Rightarrow> memory" where
  "write_bytes mem dst byte count =
     (\<lambda>a. if unat (a - dst) < unat count then byte else mem a)"

definition gp_fill :: "memory \<Rightarrow> global_page \<Rightarrow> u8 \<Rightarrow> memory" where
  "gp_fill mem pg byte = write_bytes mem (gp_start_vaddr pg) byte (gp_size pg)"

definition gp_zero :: "memory \<Rightarrow> global_page \<Rightarrow> memory" where
  "gp_zero mem pg = gp_fill mem pg 0"

definition gp_alloc_zero ::
    "'p page_ops \<Rightarrow> ('b, 'p) global_allocator \<Rightarrow> memory
     \<Rightarrow> (ax_error, global_page) outcome \<times> ('b, 'p) global_allocator \<times> memory" where
  "gp_alloc_zero po g mem =
     (case gp_alloc po g of
        (Ok pg, g') \<Rightarrow> (Ok pg, g', gp_zero mem pg)
      | (r, g') \<Rightarrow> (r, g', mem))"

definition gp_as_slice :: "memory \<Rightarrow> global_page \<Rightarrow> u8 list" where
  "gp_as_slice mem pg = map (\<lambda>i. mem (gp_start_vaddr pg + of_nat i)) [0 ..< unat (gp_size pg)]"

definition gp_drop ::
    "'p page_ops \<Rightarrow> ('b, 'p) global_allocator \<Rightarrow> global_page \<Rightarrow> ('b, 'p) global_allocator" where
  "gp_drop po g pg = global_dealloc_pages po g (gp_start_vaddr pg) (gp_num_pages pg)"

section \<open>The early global allocator (modules/alt_axalloc/src/lib.rs)\<close>

text \<open>Every operation delegates to the early allocator with an arena of \<open>HEAP_SIZE\<close> bytes.\<close>

definition HEAP_SIZE :: usize where
  "HEAP_SIZE = 96 * 1024 * 1024"

definition alt_new :: early_allocator where
  "alt_new = early_new HEAP_SIZE"

definition alt_init :: "early_allocator \<Rightarrow> usize \<Rightarrow> usize \<Rightarrow> early_allocator" where
  "alt_init a start_vaddr len = early_init HEAP_SIZE a start_vaddr len"

definition alt_add_memory :: "early_allocator \<Rightarrow> usize \<Rightarrow> usize \<Rightarrow> (alloc_error, unit) outcome" where
  "alt_add_memory a start_vaddr len = Panic"

definition alt_alloc ::
    "usize \<Rightarrow> early_allocator \<Rightarrow> layout \<Rightarrow> (alloc_error, usize) outcome \<times> early_allocator" where
  "alt_alloc base a layout = early_alloc base a layout"

definition alt_dealloc :: "early_allocator \<Rightarrow> usize \<Rightarrow> layout \<Rightarrow> early_allocator" where
  "alt_dealloc a pos layout = early_dealloc a pos layout"

definition alt_alloc_pages ::
    "usize \<Rightarrow> early_allocator \<Rightarrow> usize \<Rightarrow> usize \<Rightarrow> (alloc_error, usize) outcome \<times> early_allocator" where
  "alt_alloc_pages base a num_pages align_pow2 = early_alloc_pages base a num_pages align_pow2"

definition alt_dealloc_pages :: "usize \<Rightarrow> early_allocator \<Rightarrow> usize \<Rightarrow> usize \<Rightarrow> early_allocator" where
  "alt_dealloc_pages base a pos num_pages = early_dealloc_pages HEAP_SIZE base a pos num_pages"

definition alt_used_bytes :: "early_allocator \<Rightarrow> usize" where
  "alt_used_bytes a = early_used_bytes a"

definition alt_available_bytes :: "early_allocator \<Rightarrow> usize" where
  "alt_available_bytes a = early_available_bytes a"

definition alt_used_pages :: "early_allocator \<Rightarrow> usize" where
  "alt_used_pages a = early_used_pages a"

definition alt_available_pages :: "early_allocator \<Rightarrow> usize" where
  "alt_available_pages a = early_available_pages a"

definition alt_galloc_alloc ::
    "usize \<Rightarrow> early_allocator \<Rightarrow> layout \<Rightarrow> (alloc_error, usize) outcome \<times> early_allocator" where
  "alt_galloc_alloc base a layout =
     (let (r, a') = alt_alloc base a layout in (case r of Ok ptr \<Rightarrow> Ok ptr | _ \<Rightarrow> Panic, a'))"

definition alt_galloc_dealloc ::
    "early_allocator \<Rightarrow> usize \<Rightarrow> layout \<Rightarrow> (alloc_error, unit) outcome \<times> early_allocator" where
  "alt_galloc_dealloc a ptr layout =
     (if ptr = 0 then (Panic, a) else (Ok (), alt_dealloc a ptr layout))"

section \<open>How much the heap grows\<close>

lemma next_pow2_power: "\<exists>k. next_pow2 n = 2 ^ k"
proof (induction n rule: next_pow2.induct)
  case (1 n)
  show ?case
  proof (cases "n \<le> 1")
    case True
    then show ?thesis by (simp add: next_pow2.simps exI [of _ 0])
  next
    case False
    then obtain k where "next_pow2 ((n + 1) div 2) = 2 ^ k" using "1" by blast
    with False have "next_pow2 n = 2 ^ Suc k" by (simp add: next_pow2.simps [of n])
    then show ?thesis ..
  qed
qed

lemma next_pow2_ge: "n \<le> next_pow2 n"
proof (induction n rule: next_pow2.induct)
  case (1 n)
  then show ?case by (cases "n \<le> 1") (auto simp: next_pow2.simps [of n])
qed

lemma next_pow2_le: "n \<le> 2 ^ k \<Longrightarrow> next_pow2 n \<le> 2 ^ k"
proof (induction n arbitrary: k rule: next_pow2.induct)
  case (1 n)
  show ?case
  proof (cases "n \<le> 1")
    case True
    then show ?thesis by (simp add: next_pow2.simps [of n])
  next
    case False
    with "1.prems" obtain j where k: "k = Suc j" by (cases k) auto
    with "1.prems" have "(n + 1) div 2 \<le> 2 ^ j" by simp
    with "1.IH" False have "next_pow2 ((n + 1) div 2) \<le> 2 ^ j" by simp
    with False k show ?thesis by (simp add: next_pow2.simps [of n])
  qed
qed

lemma unat_next_power_of_two:
  assumes "unat x \<le> 2 ^ 63"
  shows "unat (next_power_of_two x) = next_pow2 (unat x)"
  using next_pow2_le [OF assms] by (simp add: next_power_of_two_def unat_of_nat)

lemma next_power_of_two_power:
  assumes "unat x \<le> 2 ^ 63"
  shows "is_power_of_two (next_power_of_two x)"
proof -
  obtain k where k: "next_pow2 (unat x) = 2 ^ k" using next_pow2_power ..
  then have "k < 64" using next_pow2_le [OF assms] power_increasing_iff [of "2 :: nat" k 63] by simp
  with k show ?thesis by (auto simp: next_power_of_two_def is_power_of_two_def)
qed

lemma next_power_of_two_overflow:
  assumes "2 ^ 63 < unat x"
  shows "next_power_of_two x = 0"
proof -
  obtain k where k: "next_pow2 (unat x) = 2 ^ k" using next_pow2_power ..
  have "(2::nat) ^ 63 < 2 ^ k" using next_pow2_ge [of "unat x"] assms k by linarith
  then have "63 < k" by (simp only: power_strict_increasing_iff)
  then have "2 ^ k = (0 :: usize)" by (simp add: exp_eq_zero_iff)
  then show ?thesis by (simp add: next_power_of_two_def k)
qed

lemma expand_size_pages: "expand_size old_size layout div PAGE_SIZE \<noteq> 0"
proof -
  have "unat PAGE_SIZE \<le> unat (expand_size old_size layout)"
    by (simp add: expand_size_def max_def word_le_nat_alt)
  then have "unat (expand_size old_size layout div PAGE_SIZE) \<noteq> 0" by (simp add: unat_div)
  then show ?thesis by (metis unat_0)
qed

section \<open>The allocation loop ends\<close>

context page_provider
begin

lemma global_alloc_returns:
  assumes "pa_alloc_pages po = alloc_pages" and "inv (palloc g)"
  shows "\<exists>r g'. global_alloc bo po g layout = Some (r, g') \<and> inv (palloc g') \<and>
    avail (palloc g') \<le> avail (palloc g)"
  using assms(2)
proof (induction "avail (palloc g)" arbitrary: g rule: less_induct)
  case less
  note step = global_alloc.simps [of bo po g layout] global_alloc_pages_def Let_def assms(1)
  obtain r b where ba: "ba_alloc bo (balloc g) layout = (r, b)" by fastforce
  let ?e = "expand_size (ba_total_bytes bo b) layout"
  obtain q p where pa: "alloc_pages (palloc g) (?e div PAGE_SIZE) PAGE_SIZE = (q, p)" by fastforce
  have inv: "inv p" "q \<noteq> Panic"
    using alloc_inv [OF less.prems PAGE_SIZE_power, of "?e div PAGE_SIZE"]
      alloc_no_panic [OF less.prems PAGE_SIZE_power, of "?e div PAGE_SIZE"] pa by simp_all
  have drop: "avail p < avail (palloc g)" if "q = Ok a" for a
    using alloc_takes_Suc [OF less.prems PAGE_SIZE_power _ expand_size_pages, of _ layout a p] pa that
    by simp
  have keeps: "avail p \<le> avail (palloc g)" if "q = Err e" for e
    using alloc_err [OF less.prems PAGE_SIZE_power, of "?e div PAGE_SIZE" e p] pa that by simp
  show ?case
  proof (cases r)
    case (Err e)
    show ?thesis
    proof (cases q)
      case (Ok a)
      obtain q2 b2 where bm: "ba_add_memory bo b a ?e = (q2, b2)" by fastforce
      show ?thesis
      proof (cases q2)
        case q2: (Ok u)
        have "\<exists>r g'. global_alloc bo po (g\<lparr>palloc := p, balloc := b2\<rparr>) layout = Some (r, g') \<and>
            inv (palloc g') \<and> avail (palloc g') \<le> avail p"
          using less.hyps [of "g\<lparr>palloc := p, balloc := b2\<rparr>"] drop [OF Ok] inv by simp
        moreover have "global_alloc bo po g layout = global_alloc bo po (g\<lparr>palloc := p, balloc := b2\<rparr>) layout"
          using Err Ok q2 ba pa bm by (simp add: step)
        ultimately show ?thesis using drop [OF Ok] by auto
      qed (use Err Ok ba pa bm drop [OF Ok] inv in \<open>auto simp: step\<close>)
    qed (use Err ba pa inv keeps in \<open>auto simp: step\<close>)
  qed (use ba less.prems in \<open>auto simp: step\<close>)
qed

end

section \<open>Properties\<close>

text \<open>
  C30. \<^verbatim>\<open>GlobalAllocator::alloc\<close> always returns: over any page allocator that keeps the contract
  \<open>page_provider\<close>, whatever the byte allocator answers, the loop that grows the heap ends with a
  pointer, an error or a panic of the byte allocator; it never creates pages.
\<close>

theorem global_alloc_terminates:
  assumes "page_provider (pa_alloc_pages po) avail pinv" and "pinv (palloc g)"
  shows "\<exists>r g'. global_alloc bo po g layout = Some (r, g') \<and> pinv (palloc g') \<and>
    avail (palloc g') \<le> avail (palloc g)"
  using page_provider.global_alloc_returns [OF assms(1) refl assms(2)] .

definition early_page_ops :: "usize \<Rightarrow> usize \<Rightarrow> early_allocator page_ops" where
  "early_page_ops SIZE base =
     \<lparr>pa_init = early_init SIZE, pa_alloc_pages = early_alloc_pages base,
      pa_dealloc_pages = early_dealloc_pages SIZE base, pa_used_pages = early_used_pages,
      pa_available_pages = early_available_pages\<rparr>"

text \<open>A byte allocator that is always out of memory, the worst case for the loop.\<close>

definition full_byte_ops :: "usize byte_ops" where
  "full_byte_ops =
     \<lparr>ba_init = (\<lambda>b s l. l), ba_add_memory = (\<lambda>b s l. (Ok (), b + l)),
      ba_alloc = (\<lambda>b l. (Err AllocNoMemory, b)), ba_dealloc = (\<lambda>b p l. b),
      ba_total_bytes = (\<lambda>b. b), ba_used_bytes = (\<lambda>b. b), ba_available_bytes = (\<lambda>b. 0)\<rparr>"

theorem global_alloc_terminates_witness:
  "early_inv 65536 example_early \<and>
   (\<exists>r g'. global_alloc full_byte_ops (early_page_ops 65536 1048576)
       \<lparr>balloc = 4096, palloc = example_early\<rparr> example_layout = Some (r, g'))"
proof -
  have inv: "early_inv 65536 (palloc \<lparr>balloc = 4096 :: usize, palloc = example_early\<rparr>)"
    by (simp add: early_inv_def example_early_def)
  have "page_provider (pa_alloc_pages (early_page_ops 65536 1048576))
      (\<lambda>a. unat (early_available_pages a)) (early_inv 65536)"
    unfolding early_page_ops_def page_ops.simps by (rule early_pages.page_provider_axioms)
  from global_alloc_terminates [OF this inv, of full_byte_ops example_layout] inv
  show ?thesis by auto
qed

text \<open>
  The step the heap grows by: as long as neither the heap nor the request is over \<open>2 ^ 63\<close>
  bytes it is a power of two, a whole number of pages, at least the request and at least the size
  of the heap, so the heap at least doubles. Over that bound \<^verbatim>\<open>next_power_of_two\<close> wraps to zero in a
  release build and the heap grows by one page only.
\<close>

theorem expand_size_doubles:
  "if unat (max old_size (lsize layout)) \<le> 2 ^ 63
   then is_power_of_two (expand_size old_size layout) \<and> 4096 dvd unat (expand_size old_size layout) \<and>
     old_size \<le> expand_size old_size layout \<and> lsize layout \<le> expand_size old_size layout
   else expand_size old_size layout = PAGE_SIZE"
proof (cases "unat (max old_size (lsize layout)) \<le> 2 ^ 63")
  case True
  let ?m = "max old_size (lsize layout)"
  have p: "is_power_of_two (expand_size old_size layout)"
    unfolding expand_size_def using max_PAGE_SIZE_power [OF next_power_of_two_power [OF True]]
    by (simp add: max.commute)
  then obtain k where k: "unat (expand_size old_size layout) = 2 ^ k" using power_of_two_obtain by metis
  have "unat PAGE_SIZE \<le> unat (expand_size old_size layout)"
    by (simp add: expand_size_def max_def word_le_nat_alt)
  then have "(2::nat) ^ 12 \<le> 2 ^ k" using k by simp
  then have "(2::nat) ^ 12 dvd 2 ^ k" by (intro le_imp_power_dvd) (simp only: power_increasing_iff)
  moreover have "?m \<le> next_power_of_two ?m"
    using next_pow2_ge [of "unat ?m"] unat_next_power_of_two [OF True] by (simp only: word_le_nat_alt)
  then have "?m \<le> expand_size old_size layout"
    unfolding expand_size_def by (rule max.coboundedI1)
  ultimately show ?thesis using True p k by simp
next
  case False
  then show ?thesis by (simp add: expand_size_def next_power_of_two_overflow)
qed

text \<open>
  A page from \<^verbatim>\<open>GlobalPage::alloc_zero\<close> reads as 4096 zero bytes, every byte outside it keeps its
  value, and dropping the handle gives exactly that page back to the page allocator. A failed
  request leaves memory alone and reports the page allocator's error translated.
\<close>

theorem gp_alloc_zero_exact:
  "case pa_alloc_pages po (palloc g) 1 PAGE_SIZE of
     (Ok a, p) \<Rightarrow>
       (case gp_alloc_zero po g mem of
          (r, g', mem') \<Rightarrow>
            (\<exists>pg. r = Ok pg \<and> gp_start_vaddr pg = a \<and> gp_as_slice mem' pg = replicate 4096 0 \<and>
               palloc (gp_drop po g' pg) = pa_dealloc_pages po p a 1) \<and>
            g' = g\<lparr>palloc := p\<rparr> \<and> (\<forall>x. mem' x = (if unat (x - a) < 4096 then 0 else mem x)))
   | (Err e, p) \<Rightarrow> gp_alloc_zero po g mem = (Err (alloc_err_to_ax_err e), g\<lparr>palloc := p\<rparr>, mem)
   | (Panic, p) \<Rightarrow> gp_alloc_zero po g mem = (Panic, g\<lparr>palloc := p\<rparr>, mem)"
proof -
  have small: "unat (of_nat i :: usize) = i" if "i < 4096" for i
    using that by (subst unat_of_nat) simp
  have slice: "gp_as_slice (\<lambda>x. if unat (x - a) < 4096 then 0 else mem x)
      \<lparr>gp_start_vaddr = a, gp_num_pages = 1\<rparr> = replicate 4096 0" for a
    by (rule nth_equalityI)
      (simp_all add: gp_as_slice_def gp_size_def small)
  show ?thesis
    by (auto simp: gp_alloc_zero_def gp_alloc_def global_alloc_pages_def Let_def slice gp_drop_def
        global_dealloc_pages_def gp_zero_def gp_fill_def write_bytes_def gp_size_def
        split: prod.splits outcome.splits)
qed

end
