(* ===== verification/Ordered_Map.thy ===== *)
theory Ordered_Map
  imports Prelude
begin

text \<open>
  \<^verbatim>\<open>alloc::collections::BTreeMap\<close> as the sources use it: a finite map iterated in key order. The
  locale \<open>ordered_map\<close> is the contract; the association list sorted by key is the implementation
  the components compute with.
\<close>

locale ordered_map =
  fixes empty :: 'm
    and insert :: "'k::linorder \<Rightarrow> 'v \<Rightarrow> 'm \<Rightarrow> 'm"
    and remove :: "'k \<Rightarrow> 'm \<Rightarrow> 'm"
    and get :: "'m \<Rightarrow> 'k \<Rightarrow> 'v option"
    and entries :: "'m \<Rightarrow> ('k \<times> 'v) list"
    and inv :: "'m \<Rightarrow> bool"
  assumes inv_empty: "inv empty"
    and inv_insert: "inv m \<Longrightarrow> inv (insert k v m)"
    and inv_remove: "inv m \<Longrightarrow> inv (remove k m)"
    and get_empty: "get empty k = None"
    and get_insert: "inv m \<Longrightarrow> get (insert k v m) = (get m)(k \<mapsto> v)"
    and get_remove: "inv m \<Longrightarrow> get (remove k m) = (get m)(k := None)"
    and get_entries: "inv m \<Longrightarrow> get m = map_of (entries m)"
    and entries_sorted: "inv m \<Longrightarrow> sorted_wrt (<) (map fst (entries m))"
begin

lemma finite_get: "inv m \<Longrightarrow> finite (dom (get m))"
  by (simp add: get_entries finite_dom_map_of)

lemma entries_distinct: "inv m \<Longrightarrow> distinct (map fst (entries m))"
  using entries_sorted strict_sorted_iff by blast

lemma get_iff_entry: "inv m \<Longrightarrow> get m k = Some v \<longleftrightarrow> (k, v) \<in> set (entries m)"
  by (simp add: get_entries entries_distinct)

lemma entries_empty_iff: "inv m \<Longrightarrow> entries m = [] \<longleftrightarrow> get m = Map.empty"
  by (simp add: get_entries)

text \<open>Moving an entry to a free key, the way a directory entry is renamed.\<close>

lemma get_move:
  assumes "inv m" and "get m k' = None" and "get m k = Some v"
  shows "get (insert k' v (remove k m)) = (get m)(k := None, k' \<mapsto> v)"
  using assms by (simp add: get_insert get_remove inv_remove)

end

fun bt_insert :: "'k::linorder \<Rightarrow> 'v \<Rightarrow> ('k \<times> 'v) list \<Rightarrow> ('k \<times> 'v) list" where
  "bt_insert k v [] = [(k, v)]"
| "bt_insert k v ((k', v') # m) =
     (if k < k' then (k, v) # (k', v') # m
      else if k = k' then (k, v) # m
      else (k', v') # bt_insert k v m)"

definition bt_remove :: "'k::linorder \<Rightarrow> ('k \<times> 'v) list \<Rightarrow> ('k \<times> 'v) list" where
  "bt_remove k m = filter (\<lambda>e. fst e \<noteq> k) m"

definition bt_inv :: "('k::linorder \<times> 'v) list \<Rightarrow> bool" where
  "bt_inv m \<longleftrightarrow> sorted_wrt (<) (map fst m)"

lemma bt_insert_keys: "fst ` set (bt_insert k v m) = insert k (fst ` set m)"
  by (induction k v m rule: bt_insert.induct) auto

lemma bt_insert_inv: "bt_inv m \<Longrightarrow> bt_inv (bt_insert k v m)"
proof (induction k v m rule: bt_insert.induct)
  case (2 k v k' v' m)
  then have inv: "bt_inv m" and above: "\<forall>x \<in> fst ` set m. k' < x"
    by (auto simp: bt_inv_def)
  show ?case
  proof (cases "k' < k")
    case True
    with 2 inv have "bt_inv (bt_insert k v m)" by auto
    with True above show ?thesis using bt_insert_keys [of k v m] by (auto simp: bt_inv_def)
  next
    case False
    with 2 inv above show ?thesis by (auto simp: bt_inv_def)
  qed
qed (simp add: bt_inv_def)

lemma bt_insert_get: "bt_inv m \<Longrightarrow> map_of (bt_insert k v m) = (map_of m)(k \<mapsto> v)"
  by (induction k v m rule: bt_insert.induct) (auto simp: bt_inv_def fun_eq_iff)

lemma bt_remove_inv: "bt_inv m \<Longrightarrow> bt_inv (bt_remove k m)"
  by (simp add: bt_inv_def bt_remove_def sorted_wrt_map sorted_wrt_filter)

lemma bt_remove_get: "map_of (bt_remove k m) = (map_of m)(k := None)"
  by (induction m) (auto simp: bt_remove_def fun_eq_iff)

interpretation bt: ordered_map "[]" bt_insert bt_remove map_of "\<lambda>m. m" bt_inv
  by unfold_locales
    (simp_all add: bt_insert_inv bt_remove_inv bt_insert_get bt_remove_get, simp_all add: bt_inv_def)

end
