(* ===== verification/Vfs_Types.thy ===== *)
theory Vfs_Types
  imports Ordered_Map
begin

text \<open>
  What the file systems and their users share: node types and attributes (the crate \<^verbatim>\<open>axfs_vfs\<close>),
  and paths. The types carry what the sources use of that crate. The bodies its trait and macros
  supply to a node that does not define an operation are a parameter, \<open>vfs_defaults\<close>; what the crate
  documents of them is the predicate \<open>documented_defaults\<close>, which theorems name where they rely on it.
\<close>

section \<open>Nodes as the virtual file system sees them\<close>

datatype vfs_node_type = TypeFile | TypeDir | TypeCharDevice | TypeOther

text \<open>A permission set as far as \<^verbatim>\<open>perm_to_cap\<close> inspects it.\<close>

record vfs_perm =
  owner_readable :: bool
  owner_writable :: bool
  owner_executable :: bool

record vfs_node_attr =
  attr_perm :: vfs_perm
  attr_type :: vfs_node_type
  attr_size :: u64
  attr_blocks :: u64

text \<open>
  A directory entry as its accessors \<^verbatim>\<open>name_as_bytes\<close> and \<^verbatim>\<open>entry_type\<close> show it. Entries are made by the
  crate's \<^verbatim>\<open>VfsDirEntry::new\<close>, the parameter \<open>new_dir_entry\<close> below: its name field has 63 bytes, and
  what it does with a name that does not fit is left open, a panic included.
\<close>

record vfs_dir_entry =
  de_name :: string
  de_type :: vfs_node_type

record 'n vfs_defaults =
  default_file_perm :: vfs_perm
  default_dir_perm :: vfs_perm
  non_dir_parent :: "'n option"
  non_dir_lookup :: "string \<Rightarrow> (ax_error, 'n) outcome"
  non_dir_create :: "string \<Rightarrow> vfs_node_type \<Rightarrow> (ax_error, unit) outcome"
  non_dir_remove :: "string \<Rightarrow> (ax_error, unit) outcome"
  non_dir_rename :: "string \<Rightarrow> string \<Rightarrow> (ax_error, unit) outcome"
  non_dir_read_dir :: "usize \<Rightarrow> vfs_dir_entry list \<Rightarrow> (ax_error, usize) outcome"
  dir_read_at :: "u64 \<Rightarrow> u8 list \<Rightarrow> (ax_error, usize) outcome"
  dir_write_at :: "u64 \<Rightarrow> u8 list \<Rightarrow> (ax_error, usize) outcome"
  dir_truncate :: "u64 \<Rightarrow> (ax_error, unit) outcome"
  dir_fsync :: "(ax_error, unit) outcome"
  default_open :: "(ax_error, unit) outcome"
  default_release :: "(ax_error, unit) outcome"
  default_fsync :: "(ax_error, unit) outcome"
  default_umount :: "(ax_error, unit) outcome"
  new_dir_entry :: "string \<Rightarrow> vfs_node_type \<Rightarrow> (ax_error, vfs_dir_entry) outcome"

definition documented_defaults :: "'n vfs_defaults \<Rightarrow> bool" where
  "documented_defaults D \<longleftrightarrow>
     non_dir_parent D = None \<and>
     (\<forall>path. non_dir_lookup D path = Err NotADirectory) \<and>
     (\<forall>path ty. non_dir_create D path ty = Err NotADirectory) \<and>
     (\<forall>path. non_dir_remove D path = Err NotADirectory) \<and>
     (\<forall>src dst. non_dir_rename D src dst = Err Unsupported) \<and>
     (\<forall>i buf. non_dir_read_dir D i buf = Err NotADirectory) \<and>
     (\<forall>off buf. dir_read_at D off buf = Err IsADirectory) \<and>
     (\<forall>off buf. dir_write_at D off buf = Err IsADirectory) \<and>
     (\<forall>len. dir_truncate D len = Err IsADirectory) \<and>
     dir_fsync D = Err IsADirectory \<and> default_open D = Ok () \<and> default_release D = Ok () \<and>
     default_fsync D = Err InvalidInput \<and> default_umount D = Ok ()"

text \<open>The documented bodies for given default permissions and constructor of entries; nothing else is left open.\<close>

definition std_defaults ::
    "vfs_perm \<Rightarrow> vfs_perm \<Rightarrow> (string \<Rightarrow> vfs_node_type \<Rightarrow> (ax_error, vfs_dir_entry) outcome) \<Rightarrow> 'n vfs_defaults" where
  "std_defaults fperm dperm ne =
     \<lparr>default_file_perm = fperm, default_dir_perm = dperm, non_dir_parent = None,
      non_dir_lookup = (\<lambda>_. Err NotADirectory), non_dir_create = (\<lambda>_ _. Err NotADirectory),
      non_dir_remove = (\<lambda>_. Err NotADirectory), non_dir_rename = (\<lambda>_ _. Err Unsupported),
      non_dir_read_dir = (\<lambda>_ _. Err NotADirectory), dir_read_at = (\<lambda>_ _. Err IsADirectory),
      dir_write_at = (\<lambda>_ _. Err IsADirectory), dir_truncate = (\<lambda>_. Err IsADirectory),
      dir_fsync = Err IsADirectory, default_open = Ok (), default_release = Ok (),
      default_fsync = Err InvalidInput, default_umount = Ok (), new_dir_entry = ne\<rparr>"

lemma std_defaults_documented [simp]: "documented_defaults (std_defaults fperm dperm ne)"
  by (simp add: documented_defaults_def std_defaults_def)

lemma documented_defaults_std:
  "documented_defaults D \<Longrightarrow> D = std_defaults (default_file_perm D) (default_dir_perm D) (new_dir_entry D)"
  by (cases D) (simp add: documented_defaults_def std_defaults_def fun_eq_iff)

definition example_perm :: vfs_perm where
  "example_perm = \<lparr>owner_readable = True, owner_writable = True, owner_executable = True\<rparr>"

text \<open>
  What the crate documents of the constructor: a name of at most 63 bytes, none of them the null byte
  that ends a shorter one, comes back from the accessors with its type.
\<close>

definition name_fits :: "string \<Rightarrow> bool" where
  "name_fits name \<longleftrightarrow> length name \<le> 63 \<and> CHR 0x00 \<notin> set name"

definition documented_dir_entry :: "(string \<Rightarrow> vfs_node_type \<Rightarrow> (ax_error, vfs_dir_entry) outcome) \<Rightarrow> bool" where
  "documented_dir_entry ne \<longleftrightarrow> (\<forall>name ty. name_fits name \<longrightarrow> ne name ty = Ok \<lparr>de_name = name, de_type = ty\<rparr>)"

definition entries_made :: "(string \<Rightarrow> vfs_node_type \<Rightarrow> (ax_error, vfs_dir_entry) outcome) \<Rightarrow> vfs_dir_entry list \<Rightarrow> bool" where
  "entries_made ne L \<longleftrightarrow> (\<forall>e \<in> set L. ne (de_name e) (de_type e) = Ok e)"

lemma documented_entries_made:
  "documented_dir_entry ne \<Longrightarrow> \<forall>e \<in> set L. name_fits (de_name e) \<Longrightarrow> entries_made ne L"
  by (simp add: documented_dir_entry_def entries_made_def)

text \<open>A constructor as documented, which refuses longer names.\<close>

definition example_entry :: "string \<Rightarrow> vfs_node_type \<Rightarrow> (ax_error, vfs_dir_entry) outcome" where
  "example_entry name ty =
     (if length name \<le> 63 then Ok \<lparr>de_name = takeWhile (\<lambda>c. c \<noteq> CHR 0x00) name, de_type = ty\<rparr> else Panic)"

lemma example_entry_documented: "documented_dir_entry example_entry"
  by (auto simp: documented_dir_entry_def name_fits_def example_entry_def takeWhile_eq_all_conv)

definition example_defaults :: "'n vfs_defaults" where
  "example_defaults = std_defaults example_perm example_perm example_entry"

lemma example_defaults_documented [simp]: "documented_defaults example_defaults"
  by (simp add: example_defaults_def)

text \<open>Capabilities of an open file or directory (the crate \<^verbatim>\<open>cap_access\<close>): a set of flags.\<close>

datatype cap = CapRead | CapWrite | CapExecute

section \<open>Paths\<close>

abbreviation slash :: char where
  "slash \<equiv> CHR ''/''"

text \<open>\<^verbatim>\<open>str::trim_start_matches('/')\<close>.\<close>

definition trim_slashes :: "string \<Rightarrow> string" where
  "trim_slashes = dropWhile (\<lambda>c. c = slash)"

definition split_path :: "string \<Rightarrow> string \<times> string option" where
  "split_path path =
     (let trimmed_path = trim_slashes path in
      case dropWhile (\<lambda>c. c \<noteq> slash) trimmed_path of
        [] \<Rightarrow> (trimmed_path, None)
      | _ # rest \<Rightarrow> (takeWhile (\<lambda>c. c \<noteq> slash) trimmed_path, Some rest))"

text \<open>The components of a path: what stands between its slashes, empty ones included.\<close>

fun comps :: "string \<Rightarrow> string list" where
  "comps [] = [[]]"
| "comps (c # cs) =
     (if c = slash then [] # comps cs else (c # hd (comps cs)) # tl (comps cs))"

lemma comps_not_Nil [simp]: "comps p \<noteq> []"
  by (induction p) auto

lemma comps_append_slash: "comps (p @ slash # q) = comps p @ comps q"
  by (induction p) auto

lemma comps_span:
  "comps s = takeWhile (\<lambda>c. c \<noteq> slash) s #
     (case dropWhile (\<lambda>c. c \<noteq> slash) s of [] \<Rightarrow> [] | _ # r \<Rightarrow> comps r)"
  by (induction s) auto

lemma comps_no_slash: "c \<in> set (comps p) \<Longrightarrow> slash \<notin> set c"
proof (induction p arbitrary: c)
  case (Cons x p)
  have "hd (comps p) \<in> set (comps p)" "set (tl (comps p)) \<subseteq> set (comps p)"
    by (simp_all add: list.set_sel(2) subsetI)
  with Cons show ?case by (auto split: if_splits)
qed simp

lemma comps_single: "slash \<notin> set p \<Longrightarrow> comps p = [p]"
  by (induction p) auto

lemma split_path_slash [simp]: "split_path (slash # p) = split_path p"
  by (simp add: split_path_def trim_slashes_def)

lemma split_path_Nil [simp]: "split_path [] = ([], None)"
  by (simp add: split_path_def trim_slashes_def)

lemma split_path_eq:
  assumes "c \<noteq> slash"
  shows "split_path (c # p) =
    (takeWhile (\<lambda>c. c \<noteq> slash) (c # p),
     case dropWhile (\<lambda>c. c \<noteq> slash) (c # p) of [] \<Rightarrow> None | _ # r \<Rightarrow> Some r)"
proof -
  have t: "trim_slashes (c # p) = c # p" using assms by (simp add: trim_slashes_def)
  show ?thesis
  proof (cases "dropWhile (\<lambda>c. c \<noteq> slash) (c # p)")
    case Nil
    then have "takeWhile (\<lambda>c. c \<noteq> slash) (c # p) = c # p"
      by (simp only: dropWhile_eq_Nil_conv takeWhile_eq_all_conv)
    with Nil show ?thesis by (simp only: split_path_def t Let_def list.case)
  next
    case (Cons s r)
    then show ?thesis by (simp only: split_path_def t Let_def list.case)
  qed
qed

lemma split_path_comps:
  assumes "c \<noteq> slash" and "split_path (c # p) = (name, rest)"
  shows "comps (c # p) = name # (case rest of None \<Rightarrow> [] | Some r \<Rightarrow> comps r)" and "name \<noteq> []"
proof -
  let ?d = "dropWhile (\<lambda>c. c \<noteq> slash) (c # p)"
  have n: "name = takeWhile (\<lambda>c. c \<noteq> slash) (c # p)"
    and r: "rest = (case ?d of [] \<Rightarrow> None | _ # r \<Rightarrow> Some r)"
    using assms(2) unfolding split_path_eq [OF assms(1)] by (simp_all only: prod.inject)
  have "(case rest of None \<Rightarrow> [] | Some r \<Rightarrow> comps r) = (case ?d of [] \<Rightarrow> [] | _ # r \<Rightarrow> comps r)"
    unfolding r by (cases ?d) (simp_all only: list.case option.case)
  then show "comps (c # p) = name # (case rest of None \<Rightarrow> [] | Some r \<Rightarrow> comps r)"
    unfolding n using comps_span [of "c # p"] by (simp only:)
  show "name \<noteq> []" using assms(1) by (simp add: n)
qed

lemma split_path_shorter:
  assumes "split_path p = (name, Some rest)"
  shows "length rest < length p"
proof -
  have "length (dropWhile (\<lambda>c. c \<noteq> slash) (trim_slashes p)) \<le> length (trim_slashes p)"
    by (rule length_dropWhile_le)
  also have "\<dots> \<le> length p" by (simp add: trim_slashes_def length_dropWhile_le)
  finally show ?thesis using assms by (auto simp: split_path_def Let_def split: list.splits)
qed

text \<open>A component that names an entry of the directory it is looked up in.\<close>

definition ordinary :: "string \<Rightarrow> bool" where
  "ordinary c \<longleftrightarrow> c \<noteq> '''' \<and> c \<noteq> ''.'' \<and> c \<noteq> ''..'' \<and> slash \<notin> set c"

end
