(* ===== verification/Vfs_Root.thy ===== *)
theory Vfs_Root
  imports Vfs_Types
begin

text \<open>
  The root directory and the path-based operations of the kernel, \<^verbatim>\<open>modules/axfs/src/root.rs\<close>, over
  any file systems. A node reference \<open>'n\<close> and a file system \<open>'f\<close> stand for the trait objects
  \<^verbatim>\<open>VfsNodeRef\<close> and \<^verbatim>\<open>Arc<dyn VfsOps>\<close>; the record \<open>vfs_ops\<close> is what calling their methods does to the
  state \<open>'s\<close> of all nodes. \<^verbatim>\<open>axfs_vfs::path::canonicalize\<close> is the field
  \<open>v_canonicalize\<close>, and the check of \<^verbatim>\<open>cap_access::WithCap\<close>, the capabilities at hand against those asked
  for, is \<open>v_can_access\<close>; \<open>documented_caps\<close> is what that crate documents of it.

  The root directory is a node itself, but no lookup returns it: it is only ever the directory an
  operation starts from.
\<close>

section \<open>The file systems\<close>

record ('s, 'n, 'f) vfs_ops =
  v_root_dir :: "'s \<Rightarrow> 'f \<Rightarrow> 'n"
  v_mount :: "'s \<Rightarrow> 'f \<Rightarrow> string \<Rightarrow> 'n \<Rightarrow> (ax_error, unit) outcome \<times> 's"
  v_umount :: "'s \<Rightarrow> 'f \<Rightarrow> (ax_error, unit) outcome \<times> 's"
  v_get_attr :: "'s \<Rightarrow> 'n \<Rightarrow> (ax_error, vfs_node_attr) outcome"
  v_lookup :: "'s \<Rightarrow> 'n \<Rightarrow> string \<Rightarrow> (ax_error, 'n) outcome"
  v_create :: "'s \<Rightarrow> 'n \<Rightarrow> string \<Rightarrow> vfs_node_type \<Rightarrow> (ax_error, unit) outcome \<times> 's"
  v_remove :: "'s \<Rightarrow> 'n \<Rightarrow> string \<Rightarrow> (ax_error, unit) outcome \<times> 's"
  v_rename :: "'s \<Rightarrow> 'n \<Rightarrow> string \<Rightarrow> string \<Rightarrow> (ax_error, unit) outcome \<times> 's"
  v_open :: "'s \<Rightarrow> 'n \<Rightarrow> (ax_error, unit) outcome \<times> 's"
  v_release :: "'s \<Rightarrow> 'n \<Rightarrow> (ax_error, unit) outcome \<times> 's"
  v_truncate :: "'s \<Rightarrow> 'n \<Rightarrow> u64 \<Rightarrow> (ax_error, unit) outcome \<times> 's"
  v_read_at :: "'s \<Rightarrow> 'n \<Rightarrow> u64 \<Rightarrow> u8 list \<Rightarrow> (ax_error, usize \<times> u8 list) outcome \<times> 's"
  v_write_at :: "'s \<Rightarrow> 'n \<Rightarrow> u64 \<Rightarrow> u8 list \<Rightarrow> (ax_error, usize) outcome \<times> 's"
  v_fsync :: "'s \<Rightarrow> 'n \<Rightarrow> (ax_error, unit) outcome \<times> 's"
  v_read_dir :: "'s \<Rightarrow> 'n \<Rightarrow> usize \<Rightarrow> vfs_dir_entry list \<Rightarrow> (ax_error, usize \<times> vfs_dir_entry list) outcome"
  v_canonicalize :: "string \<Rightarrow> string"
  v_can_access :: "cap set \<Rightarrow> cap set \<Rightarrow> bool"

definition documented_caps :: "('s, 'n, 'f) vfs_ops \<Rightarrow> bool" where
  "documented_caps V \<longleftrightarrow> (\<forall>have want. v_can_access V have want \<longleftrightarrow> want \<subseteq> have)"

section \<open>String operations\<close>

definition starts_with :: "string \<Rightarrow> string \<Rightarrow> bool" where
  "starts_with s pre \<longleftrightarrow> take (length pre) s = pre"

definition ends_with :: "string \<Rightarrow> string \<Rightarrow> bool" where
  "ends_with s post \<longleftrightarrow> starts_with (rev s) (rev post)"

definition trim_matches :: "string \<Rightarrow> string" where
  "trim_matches s = rev (trim_slashes (rev (trim_slashes s)))"

lemma starts_with_iff: "starts_with s pre \<longleftrightarrow> (\<exists>rest. s = pre @ rest)"
  unfolding starts_with_def by (metis append_eq_conv_conj append_take_drop_id)

lemma length_trim_matches: "length (trim_matches s) \<le> length s"
  by (simp add: trim_matches_def trim_slashes_def)
    (metis length_dropWhile_le length_rev le_trans)

section \<open>The root directory\<close>

record 'f mount_point =
  mp_path :: string
  mp_fs :: 'f

record 'f root_directory =
  main_fs :: 'f
  mounts :: "'f mount_point list"

definition root_new :: "'f \<Rightarrow> 'f root_directory" where
  "root_new fs = \<lparr>main_fs = fs, mounts = []\<rparr>"

definition root_contains :: "'f root_directory \<Rightarrow> string \<Rightarrow> bool" where
  "root_contains rd path \<longleftrightarrow> (\<exists>mp \<in> set (mounts rd). mp_path mp = path)"

definition root_mount ::
    "('s, 'n, 'f) vfs_ops \<Rightarrow> 's \<Rightarrow> 'f root_directory \<Rightarrow> string \<Rightarrow> 'f
     \<Rightarrow> (ax_error, unit) outcome \<times> 's \<times> 'f root_directory" where
  "root_mount V s rd path fs =
     (if path = ''/'' then (Err InvalidInput, s, rd)
      else if \<not> starts_with path ''/'' then (Err InvalidInput, s, rd)
      else if root_contains rd path then (Err InvalidInput, s, rd)
      else case v_create V s (v_root_dir V s (main_fs rd)) path TypeDir of
        (Err e, s) \<Rightarrow> (Err e, s, rd)
      | (Panic, s) \<Rightarrow> (Panic, s, rd)
      | (Ok _, s) \<Rightarrow>
          (case v_lookup V s (v_root_dir V s (main_fs rd)) path of
             Err e \<Rightarrow> (Err e, s, rd)
           | Panic \<Rightarrow> (Panic, s, rd)
           | Ok node \<Rightarrow>
               (case v_mount V s fs path node of
                  (Err e, s) \<Rightarrow> (Err e, s, rd)
                | (Panic, s) \<Rightarrow> (Panic, s, rd)
                | (Ok _, s) \<Rightarrow>
                    (Ok (), s, rd\<lparr>mounts := mounts rd @ [\<lparr>mp_path = path, mp_fs = fs\<rparr>]\<rparr>))))"

text \<open>Dropping a mount point unmounts its file system and ignores the answer.\<close>

fun drop_mounts :: "('s, 'n, 'f) vfs_ops \<Rightarrow> 's \<Rightarrow> 'f mount_point list \<Rightarrow> 's" where
  "drop_mounts V s [] = s"
| "drop_mounts V s (mp # mps) = drop_mounts V (snd (v_umount V s (mp_fs mp))) mps"

definition root_umount ::
    "('s, 'n, 'f) vfs_ops \<Rightarrow> 's \<Rightarrow> 'f root_directory \<Rightarrow> string \<Rightarrow> 's \<times> 'f root_directory" where
  "root_umount V s rd path =
     (drop_mounts V s (filter (\<lambda>mp. mp_path mp = path) (mounts rd)),
      rd\<lparr>mounts := filter (\<lambda>mp. mp_path mp \<noteq> path) (mounts rd)\<rparr>)"

text \<open>
  The loop of \<^verbatim>\<open>lookup_mounted_fs\<close> for the longest mounted path that is a prefix, with \<open>i\<close> the index
  of the next mount point and \<open>idx\<close>, \<open>max_len\<close> the best so far.
\<close>

fun best_mount :: "string \<Rightarrow> nat \<Rightarrow> 'f mount_point list \<Rightarrow> nat \<times> nat \<Rightarrow> nat \<times> nat" where
  "best_mount path i [] (idx, max_len) = (idx, max_len)"
| "best_mount path i (mp # mps) (idx, max_len) =
     best_mount path (Suc i) mps
       (if starts_with path (tl (mp_path mp)) \<and> max_len < length (mp_path mp) - 1
        then (i, length (mp_path mp) - 1) else (idx, max_len))"

function lookup_mounted_fs :: "'f root_directory \<Rightarrow> string \<Rightarrow> 'f \<times> string" where
  "lookup_mounted_fs rd path0 =
     (let path = trim_matches path0 in
      if starts_with path ''./'' then lookup_mounted_fs rd (drop 2 path)
      else
        let (idx, max_len) = best_mount path 0 (mounts rd) (0, 0) in
        if max_len = 0 then (main_fs rd, path)
        else (mp_fs (mounts rd ! idx), drop max_len path))"
  by pat_completeness auto
termination
proof (relation "measure (\<lambda>(rd, path). length path)", goal_cases)
  case (2 rd path0 path)
  then have "length path \<le> length path0" "path \<noteq> []"
    by (auto simp: length_trim_matches starts_with_def)
  then show ?case by (cases path) (auto simp: less_Suc_eq_le)
qed simp

declare lookup_mounted_fs.simps [simp del]

section \<open>Operations of the root directory as a node\<close>

definition root_get_attr ::
    "('s, 'n, 'f) vfs_ops \<Rightarrow> 's \<Rightarrow> 'f root_directory \<Rightarrow> (ax_error, vfs_node_attr) outcome" where
  "root_get_attr V s rd = v_get_attr V s (v_root_dir V s (main_fs rd))"

definition root_lookup ::
    "('s, 'n, 'f) vfs_ops \<Rightarrow> 's \<Rightarrow> 'f root_directory \<Rightarrow> string \<Rightarrow> (ax_error, 'n) outcome" where
  "root_lookup V s rd path =
     (let (fs, rest_path) = lookup_mounted_fs rd path in v_lookup V s (v_root_dir V s fs) rest_path)"

definition root_create ::
    "('s, 'n, 'f) vfs_ops \<Rightarrow> 's \<Rightarrow> 'f root_directory \<Rightarrow> string \<Rightarrow> vfs_node_type
     \<Rightarrow> (ax_error, unit) outcome \<times> 's" where
  "root_create V s rd path ty =
     (let (fs, rest_path) = lookup_mounted_fs rd path in
      if rest_path = [] then (Ok (), s) else v_create V s (v_root_dir V s fs) rest_path ty)"

definition root_remove ::
    "('s, 'n, 'f) vfs_ops \<Rightarrow> 's \<Rightarrow> 'f root_directory \<Rightarrow> string \<Rightarrow> (ax_error, unit) outcome \<times> 's" where
  "root_remove V s rd path =
     (let (fs, rest_path) = lookup_mounted_fs rd path in
      if rest_path = [] then (Err PermissionDenied, s) else v_remove V s (v_root_dir V s fs) rest_path)"

definition root_rename ::
    "('s, 'n, 'f) vfs_ops \<Rightarrow> 's \<Rightarrow> 'f root_directory \<Rightarrow> string \<Rightarrow> string \<Rightarrow> (ax_error, unit) outcome \<times> 's" where
  "root_rename V s rd src_path dst_path =
     (let (fs, rest_path) = lookup_mounted_fs rd src_path in
      if rest_path = [] then (Err PermissionDenied, s)
      else v_rename V s (v_root_dir V s fs) rest_path dst_path)"

section \<open>Operations on paths\<close>

text \<open>
  The global state: all nodes, the root directory, and the current directory with its path. A
  directory to start from is the root directory or a node of a file system.
\<close>

datatype 'n start_dir = RootDir | NodeDir 'n

record ('s, 'n, 'f) vfs =
  vfs_nodes :: 's
  vfs_root :: "'f root_directory"
  current_dir_node :: "'n start_dir"
  current_dir_path :: string

text \<open>Dispatch of the operations on the directory to start from.\<close>

definition start_lookup ::
    "('s, 'n, 'f) vfs_ops \<Rightarrow> ('s, 'n, 'f) vfs \<Rightarrow> 'n start_dir \<Rightarrow> string \<Rightarrow> (ax_error, 'n) outcome" where
  "start_lookup V w d path =
     (case d of
        RootDir \<Rightarrow> root_lookup V (vfs_nodes w) (vfs_root w) path
      | NodeDir n \<Rightarrow> v_lookup V (vfs_nodes w) n path)"

definition on_nodes ::
    "('s, 'n, 'f) vfs \<Rightarrow> (ax_error, 'a) outcome \<times> 's \<Rightarrow> (ax_error, 'a) outcome \<times> ('s, 'n, 'f) vfs" where
  "on_nodes w r = (fst r, w\<lparr>vfs_nodes := snd r\<rparr>)"

definition start_create ::
    "('s, 'n, 'f) vfs_ops \<Rightarrow> ('s, 'n, 'f) vfs \<Rightarrow> 'n start_dir \<Rightarrow> string \<Rightarrow> vfs_node_type
     \<Rightarrow> (ax_error, unit) outcome \<times> ('s, 'n, 'f) vfs" where
  "start_create V w d path ty =
     on_nodes w (case d of
        RootDir \<Rightarrow> root_create V (vfs_nodes w) (vfs_root w) path ty
      | NodeDir n \<Rightarrow> v_create V (vfs_nodes w) n path ty)"

definition start_remove ::
    "('s, 'n, 'f) vfs_ops \<Rightarrow> ('s, 'n, 'f) vfs \<Rightarrow> 'n start_dir \<Rightarrow> string
     \<Rightarrow> (ax_error, unit) outcome \<times> ('s, 'n, 'f) vfs" where
  "start_remove V w d path =
     on_nodes w (case d of
        RootDir \<Rightarrow> root_remove V (vfs_nodes w) (vfs_root w) path
      | NodeDir n \<Rightarrow> v_remove V (vfs_nodes w) n path)"

definition start_rename ::
    "('s, 'n, 'f) vfs_ops \<Rightarrow> ('s, 'n, 'f) vfs \<Rightarrow> 'n start_dir \<Rightarrow> string \<Rightarrow> string
     \<Rightarrow> (ax_error, unit) outcome \<times> ('s, 'n, 'f) vfs" where
  "start_rename V w d src dst =
     on_nodes w (case d of
        RootDir \<Rightarrow> root_rename V (vfs_nodes w) (vfs_root w) src dst
      | NodeDir n \<Rightarrow> v_rename V (vfs_nodes w) n src dst)"

definition parent_node_of :: "('s, 'n, 'f) vfs \<Rightarrow> 'n option \<Rightarrow> string \<Rightarrow> 'n start_dir" where
  "parent_node_of w dir path =
     (if starts_with path ''/'' then RootDir
      else (case dir of Some n \<Rightarrow> NodeDir n | None \<Rightarrow> current_dir_node w))"

definition absolute_path :: "('s, 'n, 'f) vfs_ops \<Rightarrow> ('s, 'n, 'f) vfs \<Rightarrow> string \<Rightarrow> (ax_error, string) outcome" where
  "absolute_path V w path =
     (if starts_with path ''/'' then Ok (v_canonicalize V path)
      else Ok (v_canonicalize V (current_dir_path w @ path)))"

definition is_dir :: "vfs_node_attr \<Rightarrow> bool" where
  "is_dir attr \<longleftrightarrow> attr_type attr = TypeDir"

definition vfs_lookup ::
    "('s, 'n, 'f) vfs_ops \<Rightarrow> ('s, 'n, 'f) vfs \<Rightarrow> 'n option \<Rightarrow> string \<Rightarrow> (ax_error, 'n) outcome" where
  "vfs_lookup V w dir path =
     (if path = [] then Err NotFound
      else
        and_then (start_lookup V w (parent_node_of w dir path) path) (\<lambda>node.
          if ends_with path ''/'' then
            and_then (v_get_attr V (vfs_nodes w) node) (\<lambda>attr.
              if \<not> is_dir attr then Err NotADirectory else Ok node)
          else Ok node))"

definition vfs_create_file ::
    "('s, 'n, 'f) vfs_ops \<Rightarrow> ('s, 'n, 'f) vfs \<Rightarrow> 'n option \<Rightarrow> string
     \<Rightarrow> (ax_error, 'n) outcome \<times> ('s, 'n, 'f) vfs" where
  "vfs_create_file V w dir path =
     (if path = [] then (Err NotFound, w)
      else if ends_with path ''/'' then (Err NotADirectory, w)
      else
        let parent = parent_node_of w dir path in
        and_then_st (start_create V w parent path TypeFile) (\<lambda>_ w. (start_lookup V w parent path, w)))"

definition vfs_create_dir ::
    "('s, 'n, 'f) vfs_ops \<Rightarrow> ('s, 'n, 'f) vfs \<Rightarrow> 'n option \<Rightarrow> string
     \<Rightarrow> (ax_error, unit) outcome \<times> ('s, 'n, 'f) vfs" where
  "vfs_create_dir V w dir path =
     (case vfs_lookup V w dir path of
        Ok _ \<Rightarrow> (Err AlreadyExists, w)
      | Err e \<Rightarrow>
          if e = NotFound then start_create V w (parent_node_of w dir path) path TypeDir else (Err e, w)
      | Panic \<Rightarrow> (Panic, w))"

definition vfs_remove_file ::
    "('s, 'n, 'f) vfs_ops \<Rightarrow> ('s, 'n, 'f) vfs \<Rightarrow> 'n option \<Rightarrow> string
     \<Rightarrow> (ax_error, unit) outcome \<times> ('s, 'n, 'f) vfs" where
  "vfs_remove_file V w dir path =
     and_then_st (vfs_lookup V w dir path, w) (\<lambda>node w.
       and_then_st (v_get_attr V (vfs_nodes w) node, w) (\<lambda>attr w.
         if is_dir attr then (Err IsADirectory, w)
         else if \<not> owner_writable (attr_perm attr) then (Err PermissionDenied, w)
         else start_remove V w (parent_node_of w dir path) path))"

definition vfs_remove_dir ::
    "('s, 'n, 'f) vfs_ops \<Rightarrow> ('s, 'n, 'f) vfs \<Rightarrow> 'n option \<Rightarrow> string
     \<Rightarrow> (ax_error, unit) outcome \<times> ('s, 'n, 'f) vfs" where
  "vfs_remove_dir V w dir path =
     (if path = [] then (Err NotFound, w)
      else
        let path_check = trim_matches path in
        if path_check = [] then (Err DirectoryNotEmpty, w)
        else if path_check = ''.'' \<or> path_check = ''..'' \<or> ends_with path_check ''/.'' \<or>
                ends_with path_check ''/..'' then (Err InvalidInput, w)
        else
          and_then_st (absolute_path V w path, w) (\<lambda>abs w.
            if root_contains (vfs_root w) abs then (Err PermissionDenied, w)
            else
              and_then_st (vfs_lookup V w dir path, w) (\<lambda>node w.
                and_then_st (v_get_attr V (vfs_nodes w) node, w) (\<lambda>attr w.
                  if \<not> is_dir attr then (Err NotADirectory, w)
                  else if \<not> owner_writable (attr_perm attr) then (Err PermissionDenied, w)
                  else start_remove V w (parent_node_of w dir path) path))))"

definition vfs_current_dir :: "('s, 'n, 'f) vfs \<Rightarrow> (ax_error, string) outcome" where
  "vfs_current_dir w = Ok (current_dir_path w)"

definition vfs_set_current_dir ::
    "('s, 'n, 'f) vfs_ops \<Rightarrow> ('s, 'n, 'f) vfs \<Rightarrow> string \<Rightarrow> (ax_error, unit) outcome \<times> ('s, 'n, 'f) vfs" where
  "vfs_set_current_dir V w path =
     and_then_st (absolute_path V w path, w) (\<lambda>abs w.
       let abs_path = (if ends_with abs ''/'' then abs else abs @ ''/'') in
       if abs_path = ''/'' then (Ok (), w\<lparr>current_dir_node := RootDir, current_dir_path := ''/''\<rparr>)
       else
         and_then_st (vfs_lookup V w None abs_path, w) (\<lambda>node w.
           and_then_st (v_get_attr V (vfs_nodes w) node, w) (\<lambda>attr w.
             if \<not> is_dir attr then (Err NotADirectory, w)
             else if \<not> owner_executable (attr_perm attr) then (Err PermissionDenied, w)
             else (Ok (), w\<lparr>current_dir_node := NodeDir node, current_dir_path := abs_path\<rparr>))))"

definition vfs_rename ::
    "('s, 'n, 'f) vfs_ops \<Rightarrow> ('s, 'n, 'f) vfs \<Rightarrow> string \<Rightarrow> string
     \<Rightarrow> (ax_error, unit) outcome \<times> ('s, 'n, 'f) vfs" where
  "vfs_rename V w old new =
     and_then_st
       (case start_lookup V w (parent_node_of w None new) new of
          Ok _ \<Rightarrow> vfs_remove_file V w None new
        | Err _ \<Rightarrow> (Ok (), w)
        | Panic \<Rightarrow> (Panic, w))
       (\<lambda>_ w. start_rename V w (parent_node_of w None old) old new)"

section \<open>Initialisation\<close>

text \<open>
  \<^verbatim>\<open>init_rootfs\<close> after the main file system is made: the file systems the features select, each with its
  mount path, are mounted in order; a failed mount is a panic (\<^verbatim>\<open>expect\<close>).
\<close>

fun mount_all ::
    "('s, 'n, 'f) vfs_ops \<Rightarrow> 's \<Rightarrow> 'f root_directory \<Rightarrow> (string \<times> 'f) list
     \<Rightarrow> (ax_error, 'f root_directory) outcome \<times> 's" where
  "mount_all V s rd [] = (Ok rd, s)"
| "mount_all V s rd ((path, fs) # rest) =
     (case root_mount V s rd path fs of
        (Ok _, s, rd) \<Rightarrow> mount_all V s rd rest
      | (_, s, rd) \<Rightarrow> (Panic, s))"

definition init_rootfs ::
    "('s, 'n, 'f) vfs_ops \<Rightarrow> 's \<Rightarrow> 'f \<Rightarrow> (string \<times> 'f) list
     \<Rightarrow> (ax_error, ('s, 'n, 'f) vfs) outcome" where
  "init_rootfs V s fs selected =
     (case mount_all V s (root_new fs) selected of
        (Ok rd, s) \<Rightarrow>
          Ok \<lparr>vfs_nodes = s, vfs_root = rd, current_dir_node = RootDir, current_dir_path = ''/''\<rparr>
      | _ \<Rightarrow> Panic)"

section \<open>Routing a path to its file system\<close>

definition mounts_ok :: "'f root_directory \<Rightarrow> bool" where
  "mounts_ok rd \<longleftrightarrow>
     distinct (map mp_path (mounts rd)) \<and>
     (\<forall>mp \<in> set (mounts rd). starts_with (mp_path mp) ''/'' \<and> mp_path mp \<noteq> ''/'')"

lemma best_mount_spec:
  assumes "best_mount path i mps (idx, ml) = (idx', ml')"
  shows "ml \<le> ml'"
    and "mp \<in> set mps \<Longrightarrow> starts_with path (tl (mp_path mp)) \<Longrightarrow> length (mp_path mp) - 1 \<le> ml'"
    and "idx' = idx \<and> ml' = ml \<or>
      (\<exists>j < length mps. idx' = i + j \<and> starts_with path (tl (mp_path (mps ! j))) \<and>
         ml' = length (mp_path (mps ! j)) - 1)"
proof -
  have "ml \<le> ml' \<and>
    (\<forall>mp \<in> set mps. starts_with path (tl (mp_path mp)) \<longrightarrow> length (mp_path mp) - 1 \<le> ml') \<and>
    (idx' = idx \<and> ml' = ml \<or>
      (\<exists>j < length mps. idx' = i + j \<and> starts_with path (tl (mp_path (mps ! j))) \<and>
         ml' = length (mp_path (mps ! j)) - 1))"
    using assms
  proof (induction mps arbitrary: i idx ml)
    case (Cons mp mps)
    let ?b = "if starts_with path (tl (mp_path mp)) \<and> ml < length (mp_path mp) - 1
        then (i, length (mp_path mp) - 1) else (idx, ml)"
    obtain idx1 ml1 where b: "?b = (idx1, ml1)" by fastforce
    with Cons.prems have "best_mount path (Suc i) mps (idx1, ml1) = (idx', ml')" by simp
    note IH = Cons.IH [OF this]
    have "\<exists>j < length (mp # mps). idx' = i + j \<and> starts_with path (tl (mp_path ((mp # mps) ! j))) \<and>
        ml' = length (mp_path ((mp # mps) ! j)) - 1"
      if "j < length mps" "idx' = Suc i + j" "starts_with path (tl (mp_path (mps ! j)))"
        "ml' = length (mp_path (mps ! j)) - 1" for j
      using that by (intro exI [of _ "Suc j"]) simp
    with IH b show ?case by (fastforce split: if_splits)
  qed simp
  then show "ml \<le> ml'"
    and "mp \<in> set mps \<Longrightarrow> starts_with path (tl (mp_path mp)) \<Longrightarrow> length (mp_path mp) - 1 \<le> ml'"
    and "idx' = idx \<and> ml' = ml \<or>
      (\<exists>j < length mps. idx' = i + j \<and> starts_with path (tl (mp_path (mps ! j))) \<and>
         ml' = length (mp_path (mps ! j)) - 1)"
    by blast+
qed

lemma mount_path_length:
  assumes "starts_with p ''/''" and "p \<noteq> ''/''"
  shows "2 \<le> length p"
proof -
  obtain rest where "p = ''/'' @ rest" using assms(1) by (auto simp: starts_with_iff)
  with assms(2) show ?thesis by (cases rest) auto
qed

lemma mounts_length: "mounts_ok rd \<Longrightarrow> \<forall>mp \<in> set (mounts rd). 2 \<le> length (mp_path mp)"
  unfolding mounts_ok_def by (blast intro: mount_path_length)

text \<open>
  C31. Which file system a path goes to: without the slashes around it and a leading \<^verbatim>\<open>./\<close>, it goes to
  the mounted file system with the longest path that is a prefix of it, with the rest of the path, and
  to the main file system, with the whole path, when no mounted path is a prefix.
\<close>

theorem mounted_fs_longest:
  assumes "mounts_ok rd"
  shows "if starts_with (trim_matches path) ''./''
    then lookup_mounted_fs rd path = lookup_mounted_fs rd (drop 2 (trim_matches path))
    else if \<exists>mp \<in> set (mounts rd). starts_with (trim_matches path) (tl (mp_path mp))
    then \<exists>mp rest. mp \<in> set (mounts rd) \<and> lookup_mounted_fs rd path = (mp_fs mp, rest) \<and>
      trim_matches path = tl (mp_path mp) @ rest \<and>
      (\<forall>mp'. mp' \<in> set (mounts rd) \<and> starts_with (trim_matches path) (tl (mp_path mp')) \<longrightarrow>
         length (mp_path mp') \<le> length (mp_path mp))
    else lookup_mounted_fs rd path = (main_fs rd, trim_matches path)"
proof (cases "starts_with (trim_matches path) ''./''")
  case True
  then show ?thesis by (simp add: lookup_mounted_fs.simps [of rd path] Let_def)
next
  case False
  let ?p = "trim_matches path"
  obtain idx ml where b: "best_mount ?p 0 (mounts rd) (0, 0) = (idx, ml)" by fastforce
  note pos = mounts_length [OF assms, rule_format]
  have eq: "lookup_mounted_fs rd path = (if ml = 0 then (main_fs rd, ?p) else (mp_fs (mounts rd ! idx), drop ml ?p))"
    using False by (simp add: lookup_mounted_fs.simps [of rd path] Let_def b)
  show ?thesis
  proof (cases "\<exists>mp \<in> set (mounts rd). starts_with ?p (tl (mp_path mp))")
    case True
    then obtain mp where mp: "mp \<in> set (mounts rd)" "starts_with ?p (tl (mp_path mp))" by blast
    have "0 < ml" using best_mount_spec(2) [OF b mp] pos [OF mp(1)] by linarith
    then obtain j where j: "j < length (mounts rd)" "idx = j" "starts_with ?p (tl (mp_path (mounts rd ! j)))"
        "ml = length (mp_path (mounts rd ! j)) - 1"
      using best_mount_spec(3) [OF b] by auto
    let ?mp = "mounts rd ! j"
    have in_set: "?mp \<in> set (mounts rd)" using j(1) by simp
    have "?p = tl (mp_path ?mp) @ drop ml ?p"
      using j(3,4) by (metis append_take_drop_id length_tl starts_with_def)
    moreover have "length (mp_path mp') \<le> length (mp_path ?mp)"
      if "mp' \<in> set (mounts rd)" "starts_with ?p (tl (mp_path mp'))" for mp'
      using best_mount_spec(2) [OF b that] pos [OF that(1)] pos [OF in_set] j(4) by linarith
    ultimately show ?thesis using False True eq \<open>0 < ml\<close> j(2) in_set by auto
  next
    case none: False
    then have "ml = 0" using best_mount_spec(3) [OF b] by auto
    with False none eq show ?thesis by auto
  qed
qed

theorem mounted_fs_longest_witness:
  "mounts_ok \<lparr>main_fs = 0 :: nat, mounts = [\<lparr>mp_path = ''/tmp'', mp_fs = 1\<rparr>]\<rparr> \<and>
   lookup_mounted_fs \<lparr>main_fs = 0 :: nat, mounts = [\<lparr>mp_path = ''/tmp'', mp_fs = 1\<rparr>]\<rparr> ''/tmpfile'' = (1, ''file'')"
proof -
  let ?rd = "\<lparr>main_fs = 0 :: nat, mounts = [\<lparr>mp_path = ''/tmp'', mp_fs = 1\<rparr>]\<rparr>"
  have ok: "mounts_ok ?rd" by (simp add: mounts_ok_def starts_with_def)
  have "trim_matches ''/tmpfile'' = ''tmpfile''" by (simp add: trim_matches_def trim_slashes_def)
  then show ?thesis using ok mounted_fs_longest [OF ok, of "''/tmpfile''"] by (auto simp: starts_with_def)
qed

lemma best_mount_append:
  "best_mount p i (mps @ [mp]) b =
    (let (idx, ml) = best_mount p i mps b in
     if starts_with p (tl (mp_path mp)) \<and> ml < length (mp_path mp) - 1
     then (i + length mps, length (mp_path mp) - 1) else (idx, ml))"
  by (induction mps arbitrary: i b) (auto split: prod.splits)

lemma best_mount_in_range:
  "best_mount p 0 mps (0, 0) = (idx, ml) \<Longrightarrow> ml \<noteq> 0 \<Longrightarrow> idx < length mps"
  using best_mount_spec(3) [of p 0 mps 0 0 idx ml] by auto

lemma best_mount_less:
  assumes "best_mount p 0 mps (0, 0) = (idx, ml)" and "2 \<le> n" and "\<forall>mp \<in> set mps. 2 \<le> length (mp_path mp)"
  shows "ml < n - 1 \<longleftrightarrow> (\<forall>mp \<in> set mps. starts_with p (tl (mp_path mp)) \<longrightarrow> length (mp_path mp) < n)"
proof
  show "\<forall>mp \<in> set mps. starts_with p (tl (mp_path mp)) \<longrightarrow> length (mp_path mp) < n" if "ml < n - 1"
    using best_mount_spec(2) [OF assms(1)] that by fastforce
  show "ml < n - 1" if all: "\<forall>mp \<in> set mps. starts_with p (tl (mp_path mp)) \<longrightarrow> length (mp_path mp) < n"
    using best_mount_spec(3) [OF assms(1)] assms(2)
  proof (elim disjE exE conjE)
    fix j assume j: "j < length mps" "starts_with p (tl (mp_path (mps ! j)))" "ml = length (mp_path (mps ! j)) - 1"
    then have "length (mp_path (mps ! j)) < n" "2 \<le> length (mp_path (mps ! j))" using all assms(3) by simp_all
    with j(3) show ?thesis by linarith
  qed simp
qed

lemma mounted_routes:
  assumes "mounts_ok rd" and "starts_with path ''/''" and "path \<noteq> ''/''"
    and "rd' = rd\<lparr>mounts := mounts rd @ [\<lparr>mp_path = path, mp_fs = fs\<rparr>]\<rparr>"
    and "q = trim_matches p" and "\<not> starts_with q ''./''"
  shows "lookup_mounted_fs rd' p =
    (if starts_with q (tl path) \<and>
        (\<forall>mp \<in> set (mounts rd). starts_with q (tl (mp_path mp)) \<longrightarrow> length (mp_path mp) < length path)
     then (fs, drop (length path - 1) q) else lookup_mounted_fs rd p)"
proof -
  have two: "2 \<le> length path" using assms(2,3) by (rule mount_path_length)
  obtain idx ml where b: "best_mount q 0 (mounts rd) (0, 0) = (idx, ml)" by fastforce
  note less = best_mount_less [OF b two mounts_length [OF assms(1)]]
  have nth: "(mounts rd @ [m]) ! idx = mounts rd ! idx" if "ml \<noteq> 0" for m
    using best_mount_in_range [OF b that] by (simp add: nth_append)
  have look: "lookup_mounted_fs d p =
      (case best_mount q 0 (mounts d) (0, 0) of (idx, ml) \<Rightarrow>
         if ml = 0 then (main_fs d, q) else (mp_fs (mounts d ! idx), drop ml q))" for d
    using assms(6) unfolding lookup_mounted_fs.simps [of d p] assms(5) [symmetric] by (simp add: Let_def)
  show ?thesis
    unfolding look less [symmetric] assms(4) using two by (simp add: best_mount_append b nth)
qed

text \<open>
  C32. Mounting, every branch: a path that is \<^verbatim>\<open>/\<close>, does not start with a slash or is mounted already is
  refused with no effect. Otherwise the mount point directory is created in the main file system, then
  looked up there, then the file system's own mount is called with the node found; the first of the
  three that fails gives the result, with the mount table unchanged. Only when all three succeed is the
  entry added, the table staying well-formed: from then on a path goes to the new file system exactly
  when the mounted path is a prefix of it and no longer mounted path is, and any other path goes where it
  went before.
\<close>

theorem root_mount_exact:
  assumes "mounts_ok rd" and "root_mount V s rd path fs = (r, s', rd')"
  shows "mounts_ok rd' \<and> main_fs rd' = main_fs rd \<and>
    (if path = ''/'' \<or> \<not> starts_with path ''/'' \<or> root_contains rd path
     then r = Err InvalidInput \<and> s' = s \<and> rd' = rd
     else case v_create V s (v_root_dir V s (main_fs rd)) path TypeDir of
       (Ok _, s1) \<Rightarrow>
         (case v_lookup V s1 (v_root_dir V s1 (main_fs rd)) path of
            Ok node \<Rightarrow>
              (case v_mount V s1 fs path node of
                 (Ok _, s2) \<Rightarrow> r = Ok () \<and> s' = s2 \<and> mounts rd' = mounts rd @ [\<lparr>mp_path = path, mp_fs = fs\<rparr>]
               | (Err e, s2) \<Rightarrow> r = Err e \<and> s' = s2 \<and> rd' = rd
               | (Panic, s2) \<Rightarrow> r = Panic \<and> s' = s2 \<and> rd' = rd)
          | Err e \<Rightarrow> r = Err e \<and> s' = s1 \<and> rd' = rd
          | Panic \<Rightarrow> r = Panic \<and> s' = s1 \<and> rd' = rd)
     | (Err e, s1) \<Rightarrow> r = Err e \<and> s' = s1 \<and> rd' = rd
     | (Panic, s1) \<Rightarrow> r = Panic \<and> s' = s1 \<and> rd' = rd) \<and>
    (r = Ok () \<longrightarrow> (\<forall>p q. q = trim_matches p \<and> \<not> starts_with q ''./'' \<longrightarrow>
       lookup_mounted_fs rd' p =
         (if starts_with q (tl path) \<and>
             (\<forall>mp \<in> set (mounts rd). starts_with q (tl (mp_path mp)) \<longrightarrow> length (mp_path mp) < length path)
          then (fs, drop (length path - 1) q) else lookup_mounted_fs rd p)))"
    (is "?ok \<and> ?main \<and> ?branches \<and> (_ \<longrightarrow> ?routes)")
proof -
  let ?rd = "rd\<lparr>mounts := mounts rd @ [\<lparr>mp_path = path, mp_fs = fs\<rparr>]\<rparr>"
  have res: "rd' = rd \<and> r \<noteq> Ok () \<or>
      r = Ok () \<and> rd' = ?rd \<and> starts_with path ''/'' \<and> path \<noteq> ''/'' \<and> \<not> root_contains rd path"
    using assms(2) by (auto simp: root_mount_def split: if_splits prod.splits outcome.splits)
  have branches: ?branches
    using assms(2) by (auto simp: root_mount_def split: if_splits prod.splits outcome.splits)
  from res show ?thesis
  proof (elim disjE conjE)
    assume same: "rd' = rd" "r \<noteq> Ok ()"
    then have ?ok ?main using assms(1) by simp_all
    then show ?thesis using branches same(2) by blast
  next
    assume ok: "r = Ok ()" "rd' = ?rd" "starts_with path ''/''" "path \<noteq> ''/''" "\<not> root_contains rd path"
    then have ?ok ?main using assms(1) by (auto simp: mounts_ok_def root_contains_def)
    moreover have ?routes using mounted_routes [OF assms(1) ok(3,4,2)] by blast
    ultimately show ?thesis using branches by blast
  qed
qed

end
