(* ===== verification/File_Ops.thy ===== *)
theory File_Ops
  imports Vfs_Root
begin

text \<open>
  Open files and directories: \<^verbatim>\<open>modules/axfs/src/fops.rs\<close> and the user-facing wrappers in
  \<^verbatim>\<open>modules/axfs/src/api\<close>. A file is a node with the capabilities it was opened with and a cursor.
  Reading and writing use the state of the nodes only; opening uses the whole file-system state.
\<close>

section \<open>Options\<close>

record open_options =
  opt_read :: bool
  opt_write :: bool
  opt_append :: bool
  opt_truncate :: bool
  opt_create :: bool
  opt_create_new :: bool
  custom_flags :: int
  opt_mode :: nat

definition open_options_new :: open_options where
  "open_options_new =
     \<lparr>opt_read = False, opt_write = False, opt_append = False, opt_truncate = False,
      opt_create = False, opt_create_new = False, custom_flags = 0, opt_mode = 438\<rparr>"

definition is_valid :: "open_options \<Rightarrow> bool" where
  "is_valid opts \<longleftrightarrow>
     (if \<not> opt_read opts \<and> \<not> opt_write opts \<and> \<not> opt_append opts then False
      else case (opt_write opts, opt_append opts) of
        (True, False) \<Rightarrow> True
      | (False, False) \<Rightarrow> \<not> (opt_truncate opts \<or> opt_create opts \<or> opt_create_new opts)
      | (_, True) \<Rightarrow> \<not> (opt_truncate opts \<and> \<not> opt_create_new opts))"

definition cap_from_options :: "open_options \<Rightarrow> cap set" where
  "cap_from_options opts =
     (if opt_read opts then {CapRead} else {}) \<union>
     (if opt_write opts \<or> opt_append opts then {CapWrite} else {})"

definition perm_to_cap :: "vfs_perm \<Rightarrow> cap set" where
  "perm_to_cap perm =
     (if owner_readable perm then {CapRead} else {}) \<union>
     (if owner_writable perm then {CapWrite} else {}) \<union>
     (if owner_executable perm then {CapExecute} else {})"

section \<open>Files\<close>

record 'n open_file =
  of_node :: 'n
  of_cap :: "cap set"
  of_append :: bool
  of_offset :: u64

definition fops_access_node :: "('s, 'n, 'f) vfs_ops \<Rightarrow> 'n open_file \<Rightarrow> cap set \<Rightarrow> (ax_error, 'n) outcome" where
  "fops_access_node V f cap =
     (if v_can_access V (of_cap f) cap then Ok (of_node f) else Err PermissionDenied)"

text \<open>The node to open: the one the path resolves to, or a new file.\<close>

definition fops_open_node ::
    "('s, 'n, 'f) vfs_ops \<Rightarrow> ('s, 'n, 'f) vfs \<Rightarrow> 'n option \<Rightarrow> string \<Rightarrow> open_options
     \<Rightarrow> (ax_error, 'n) outcome \<times> ('s, 'n, 'f) vfs" where
  "fops_open_node V w dir path opts =
     (let node_option = vfs_lookup V w dir path in
      if opt_create opts \<or> opt_create_new opts then
        (case node_option of
           Ok node \<Rightarrow> if opt_create_new opts then (Err AlreadyExists, w) else (Ok node, w)
         | Err e \<Rightarrow> if e = NotFound then vfs_create_file V w dir path else (Err e, w)
         | Panic \<Rightarrow> (Panic, w))
      else (node_option, w))"

definition fops_open_at ::
    "('s, 'n, 'f) vfs_ops \<Rightarrow> ('s, 'n, 'f) vfs \<Rightarrow> 'n option \<Rightarrow> string \<Rightarrow> open_options
     \<Rightarrow> (ax_error, 'n open_file) outcome \<times> ('s, 'n, 'f) vfs" where
  "fops_open_at V w dir path opts =
     (if \<not> is_valid opts then (Err InvalidInput, w)
      else
        and_then_st (fops_open_node V w dir path opts)
          (\<lambda>node w.
             and_then_st (v_get_attr V (vfs_nodes w) node, w) (\<lambda>attr w.
               if is_dir attr \<and> (opt_create opts \<or> opt_create_new opts \<or> opt_write opts \<or>
                    opt_append opts \<or> opt_truncate opts)
               then (Err IsADirectory, w)
               else
                 let access_cap = cap_from_options opts in
                 if \<not> access_cap \<subseteq> perm_to_cap (attr_perm attr) then (Err PermissionDenied, w)
                 else
                   and_then_st (on_nodes w (v_open V (vfs_nodes w) node)) (\<lambda>_ w.
                     and_then_st
                       (if opt_truncate opts then on_nodes w (v_truncate V (vfs_nodes w) node 0)
                        else (Ok (), w))
                       (\<lambda>_ w.
                          (Ok \<lparr>of_node = node, of_cap = access_cap, of_append = opt_append opts,
                               of_offset = 0\<rparr>, w))))))"

definition fops_open ::
    "('s, 'n, 'f) vfs_ops \<Rightarrow> ('s, 'n, 'f) vfs \<Rightarrow> string \<Rightarrow> open_options
     \<Rightarrow> (ax_error, 'n open_file) outcome \<times> ('s, 'n, 'f) vfs" where
  "fops_open V w path opts = fops_open_at V w None path opts"

definition fops_truncate ::
    "('s, 'n, 'f) vfs_ops \<Rightarrow> 's \<Rightarrow> 'n open_file \<Rightarrow> u64 \<Rightarrow> (ax_error, unit) outcome \<times> 's" where
  "fops_truncate V s f len =
     and_then_st (fops_access_node V f {CapWrite}, s) (\<lambda>node s. v_truncate V s node len)"

definition fops_get_attr ::
    "('s, 'n, 'f) vfs_ops \<Rightarrow> 's \<Rightarrow> 'n open_file \<Rightarrow> (ax_error, vfs_node_attr) outcome" where
  "fops_get_attr V s f = and_then (fops_access_node V f {}) (\<lambda>node. v_get_attr V s node)"

text \<open>The cursor moves by what was read or written; the sum wraps around.\<close>

definition fops_read ::
    "('s, 'n, 'f) vfs_ops \<Rightarrow> 's \<Rightarrow> 'n open_file \<Rightarrow> u8 list
     \<Rightarrow> (ax_error, usize \<times> u8 list) outcome \<times> 'n open_file \<times> 's" where
  "fops_read V s f buf =
     and_then_st (fops_access_node V f {CapRead}, f, s) (\<lambda>node _.
       case v_read_at V s node (of_offset f) buf of
         (Ok (read_len, buf'), s) \<Rightarrow>
           (Ok (read_len, buf'), f\<lparr>of_offset := of_offset f + read_len\<rparr>, s)
       | (Err e, s) \<Rightarrow> (Err e, f, s)
       | (Panic, s) \<Rightarrow> (Panic, f, s))"

definition fops_read_at ::
    "('s, 'n, 'f) vfs_ops \<Rightarrow> 's \<Rightarrow> 'n open_file \<Rightarrow> u64 \<Rightarrow> u8 list
     \<Rightarrow> (ax_error, usize \<times> u8 list) outcome \<times> 's" where
  "fops_read_at V s f offset buf =
     and_then_st (fops_access_node V f {CapRead}, s) (\<lambda>node s. v_read_at V s node offset buf)"

definition fops_write ::
    "('s, 'n, 'f) vfs_ops \<Rightarrow> 's \<Rightarrow> 'n open_file \<Rightarrow> u8 list
     \<Rightarrow> (ax_error, usize) outcome \<times> 'n open_file \<times> 's" where
  "fops_write V s f buf =
     and_then_st
       (if of_append f then and_then (fops_get_attr V s f) (\<lambda>attr. Ok (attr_size attr))
        else Ok (of_offset f), f, s)
       (\<lambda>offset _.
          and_then_st (fops_access_node V f {CapWrite}, f, s) (\<lambda>node _.
            case v_write_at V s node offset buf of
              (Ok write_len, s) \<Rightarrow> (Ok write_len, f\<lparr>of_offset := offset + write_len\<rparr>, s)
            | (Err e, s) \<Rightarrow> (Err e, f, s)
            | (Panic, s) \<Rightarrow> (Panic, f, s)))"

definition fops_write_at ::
    "('s, 'n, 'f) vfs_ops \<Rightarrow> 's \<Rightarrow> 'n open_file \<Rightarrow> u64 \<Rightarrow> u8 list \<Rightarrow> (ax_error, usize) outcome \<times> 's" where
  "fops_write_at V s f offset buf =
     and_then_st (fops_access_node V f {CapWrite}, s) (\<lambda>node s. v_write_at V s node offset buf)"

definition fops_flush :: "('s, 'n, 'f) vfs_ops \<Rightarrow> 's \<Rightarrow> 'n open_file \<Rightarrow> (ax_error, unit) outcome \<times> 's" where
  "fops_flush V s f = and_then_st (fops_access_node V f {CapWrite}, s) (\<lambda>node s. v_fsync V s node)"

datatype seek_from = SeekStart u64 | SeekCurrent "64 word" | SeekEnd "64 word"

text \<open>\<^verbatim>\<open>u64::checked_add_signed\<close>: a signed offset is a 64-bit word read as two's complement.\<close>

definition checked_add_signed :: "u64 \<Rightarrow> 64 word \<Rightarrow> u64 option" where
  "checked_add_signed a off =
     (if 0 \<le> uint a + sint off \<and> uint a + sint off < 2 ^ 64 then Some (a + off) else None)"

definition fops_seek ::
    "('s, 'n, 'f) vfs_ops \<Rightarrow> 's \<Rightarrow> 'n open_file \<Rightarrow> seek_from \<Rightarrow> (ax_error, u64) outcome \<times> 'n open_file" where
  "fops_seek V s f pos =
     and_then_st (fops_get_attr V s f, f) (\<lambda>attr f.
       and_then_st
         (ok_or InvalidInput
            (case pos of
               SeekStart pos \<Rightarrow> Some pos
             | SeekCurrent off \<Rightarrow> checked_add_signed (of_offset f) off
             | SeekEnd off \<Rightarrow> checked_add_signed (attr_size attr) off), f)
         (\<lambda>new_offset f. (Ok new_offset, f\<lparr>of_offset := new_offset\<rparr>)))"

definition fops_drop :: "('s, 'n, 'f) vfs_ops \<Rightarrow> 's \<Rightarrow> 'n open_file \<Rightarrow> 's" where
  "fops_drop V s f = snd (v_release V s (of_node f))"

section \<open>Directories\<close>

record 'n open_directory =
  od_node :: 'n
  od_cap :: "cap set"
  od_entry_idx :: usize

definition fops_dir_access_node :: "('s, 'n, 'f) vfs_ops \<Rightarrow> 'n open_directory \<Rightarrow> cap set \<Rightarrow> (ax_error, 'n) outcome" where
  "fops_dir_access_node V d cap =
     (if v_can_access V (od_cap d) cap then Ok (od_node d) else Err PermissionDenied)"

definition fops_dir_open_at ::
    "('s, 'n, 'f) vfs_ops \<Rightarrow> ('s, 'n, 'f) vfs \<Rightarrow> 'n option \<Rightarrow> string \<Rightarrow> open_options
     \<Rightarrow> (ax_error, 'n open_directory) outcome \<times> ('s, 'n, 'f) vfs" where
  "fops_dir_open_at V w dir path opts =
     (if \<not> opt_read opts then (Err InvalidInput, w)
      else if opt_create opts \<or> opt_create_new opts \<or> opt_write opts \<or> opt_append opts \<or> opt_truncate opts
      then (Err InvalidInput, w)
      else
        and_then_st (vfs_lookup V w dir path, w) (\<lambda>node w.
          and_then_st (v_get_attr V (vfs_nodes w) node, w) (\<lambda>attr w.
            if \<not> is_dir attr then (Err NotADirectory, w)
            else
              let access_cap = cap_from_options opts in
              if \<not> access_cap \<subseteq> perm_to_cap (attr_perm attr) then (Err PermissionDenied, w)
              else
                and_then_st (on_nodes w (v_open V (vfs_nodes w) node)) (\<lambda>_ w.
                  (Ok \<lparr>od_node = node, od_cap = access_cap, od_entry_idx = 0\<rparr>, w)))))"

definition fops_dir_access_at ::
    "('s, 'n, 'f) vfs_ops \<Rightarrow> 'n open_directory \<Rightarrow> string \<Rightarrow> (ax_error, 'n option) outcome" where
  "fops_dir_access_at V d path =
     (if starts_with path ''/'' then Ok None
      else and_then (fops_dir_access_node V d {CapExecute}) (\<lambda>node. Ok (Some node)))"

definition fops_open_dir ::
    "('s, 'n, 'f) vfs_ops \<Rightarrow> ('s, 'n, 'f) vfs \<Rightarrow> string \<Rightarrow> open_options
     \<Rightarrow> (ax_error, 'n open_directory) outcome \<times> ('s, 'n, 'f) vfs" where
  "fops_open_dir V w path opts = fops_dir_open_at V w None path opts"

definition fops_open_dir_at ::
    "('s, 'n, 'f) vfs_ops \<Rightarrow> ('s, 'n, 'f) vfs \<Rightarrow> 'n open_directory \<Rightarrow> string \<Rightarrow> open_options
     \<Rightarrow> (ax_error, 'n open_directory) outcome \<times> ('s, 'n, 'f) vfs" where
  "fops_open_dir_at V w d path opts =
     and_then_st (fops_dir_access_at V d path, w) (\<lambda>dir w. fops_dir_open_at V w dir path opts)"

definition fops_open_file_at ::
    "('s, 'n, 'f) vfs_ops \<Rightarrow> ('s, 'n, 'f) vfs \<Rightarrow> 'n open_directory \<Rightarrow> string \<Rightarrow> open_options
     \<Rightarrow> (ax_error, 'n open_file) outcome \<times> ('s, 'n, 'f) vfs" where
  "fops_open_file_at V w d path opts =
     and_then_st (fops_dir_access_at V d path, w) (\<lambda>dir w. fops_open_at V w dir path opts)"

definition fops_create_file_at ::
    "('s, 'n, 'f) vfs_ops \<Rightarrow> ('s, 'n, 'f) vfs \<Rightarrow> 'n open_directory \<Rightarrow> string
     \<Rightarrow> (ax_error, 'n) outcome \<times> ('s, 'n, 'f) vfs" where
  "fops_create_file_at V w d path =
     and_then_st (fops_dir_access_at V d path, w) (\<lambda>dir w. vfs_create_file V w dir path)"

definition fops_create_dir_at ::
    "('s, 'n, 'f) vfs_ops \<Rightarrow> ('s, 'n, 'f) vfs \<Rightarrow> 'n open_directory \<Rightarrow> string
     \<Rightarrow> (ax_error, unit) outcome \<times> ('s, 'n, 'f) vfs" where
  "fops_create_dir_at V w d path =
     and_then_st (fops_dir_access_at V d path, w) (\<lambda>dir w. vfs_create_dir V w dir path)"

definition fops_remove_file_at ::
    "('s, 'n, 'f) vfs_ops \<Rightarrow> ('s, 'n, 'f) vfs \<Rightarrow> 'n open_directory \<Rightarrow> string
     \<Rightarrow> (ax_error, unit) outcome \<times> ('s, 'n, 'f) vfs" where
  "fops_remove_file_at V w d path =
     and_then_st (fops_dir_access_at V d path, w) (\<lambda>dir w. vfs_remove_file V w dir path)"

definition fops_remove_dir_at ::
    "('s, 'n, 'f) vfs_ops \<Rightarrow> ('s, 'n, 'f) vfs \<Rightarrow> 'n open_directory \<Rightarrow> string
     \<Rightarrow> (ax_error, unit) outcome \<times> ('s, 'n, 'f) vfs" where
  "fops_remove_dir_at V w d path =
     and_then_st (fops_dir_access_at V d path, w) (\<lambda>dir w. vfs_remove_dir V w dir path)"

definition fops_dir_read_dir ::
    "('s, 'n, 'f) vfs_ops \<Rightarrow> 's \<Rightarrow> 'n open_directory \<Rightarrow> vfs_dir_entry list
     \<Rightarrow> (ax_error, usize \<times> vfs_dir_entry list) outcome \<times> 'n open_directory" where
  "fops_dir_read_dir V s d dirents =
     and_then_st (fops_dir_access_node V d {CapRead}, d) (\<lambda>node d.
       and_then_st (v_read_dir V s node (od_entry_idx d) dirents, d) (\<lambda>(n, dirents) d.
         (Ok (n, dirents), d\<lparr>od_entry_idx := od_entry_idx d + n\<rparr>)))"

definition fops_dir_rename ::
    "('s, 'n, 'f) vfs_ops \<Rightarrow> ('s, 'n, 'f) vfs \<Rightarrow> string \<Rightarrow> string
     \<Rightarrow> (ax_error, unit) outcome \<times> ('s, 'n, 'f) vfs" where
  "fops_dir_rename V w old new = vfs_rename V w old new"

definition fops_dir_drop :: "('s, 'n, 'f) vfs_ops \<Rightarrow> 's \<Rightarrow> 'n open_directory \<Rightarrow> 's" where
  "fops_dir_drop V s d = snd (v_release V s (od_node d))"

section \<open>The user-facing wrappers (modules/axfs/src/api)\<close>

definition api_open ::
    "('s, 'n, 'f) vfs_ops \<Rightarrow> ('s, 'n, 'f) vfs \<Rightarrow> string \<Rightarrow> (ax_error, 'n open_file) outcome \<times> ('s, 'n, 'f) vfs" where
  "api_open V w path = fops_open V w path (open_options_new\<lparr>opt_read := True\<rparr>)"

definition api_create ::
    "('s, 'n, 'f) vfs_ops \<Rightarrow> ('s, 'n, 'f) vfs \<Rightarrow> string \<Rightarrow> (ax_error, 'n open_file) outcome \<times> ('s, 'n, 'f) vfs" where
  "api_create V w path =
     fops_open V w path (open_options_new\<lparr>opt_write := True, opt_create := True, opt_truncate := True\<rparr>)"

definition api_create_new ::
    "('s, 'n, 'f) vfs_ops \<Rightarrow> ('s, 'n, 'f) vfs \<Rightarrow> string \<Rightarrow> (ax_error, 'n open_file) outcome \<times> ('s, 'n, 'f) vfs" where
  "api_create_new V w path =
     fops_open V w path (open_options_new\<lparr>opt_read := True, opt_write := True, opt_create_new := True\<rparr>)"

definition api_set_len ::
    "('s, 'n, 'f) vfs_ops \<Rightarrow> 's \<Rightarrow> 'n open_file \<Rightarrow> u64 \<Rightarrow> (ax_error, unit) outcome \<times> 's" where
  "api_set_len V s f len = fops_truncate V s f len"

definition api_metadata ::
    "('s, 'n, 'f) vfs_ops \<Rightarrow> ('s, 'n, 'f) vfs \<Rightarrow> string
     \<Rightarrow> (ax_error, vfs_node_attr) outcome \<times> ('s, 'n, 'f) vfs" where
  "api_metadata V w path =
     and_then_st (api_open V w path) (\<lambda>f w.
       (fops_get_attr V (vfs_nodes w) f, w\<lparr>vfs_nodes := fops_drop V (vfs_nodes w) f\<rparr>))"

definition api_create_dir ::
    "('s, 'n, 'f) vfs_ops \<Rightarrow> ('s, 'n, 'f) vfs \<Rightarrow> string \<Rightarrow> (ax_error, unit) outcome \<times> ('s, 'n, 'f) vfs" where
  "api_create_dir V w path = vfs_create_dir V w None path"

definition api_create_dir_all ::
    "('s, 'n, 'f) vfs \<Rightarrow> string \<Rightarrow> (ax_error, unit) outcome \<times> ('s, 'n, 'f) vfs" where
  "api_create_dir_all w path = (Err Unsupported, w)"

definition api_remove_dir ::
    "('s, 'n, 'f) vfs_ops \<Rightarrow> ('s, 'n, 'f) vfs \<Rightarrow> string \<Rightarrow> (ax_error, unit) outcome \<times> ('s, 'n, 'f) vfs" where
  "api_remove_dir V w path = vfs_remove_dir V w None path"

definition api_remove_file ::
    "('s, 'n, 'f) vfs_ops \<Rightarrow> ('s, 'n, 'f) vfs \<Rightarrow> string \<Rightarrow> (ax_error, unit) outcome \<times> ('s, 'n, 'f) vfs" where
  "api_remove_file V w path = vfs_remove_file V w None path"

text \<open>
  The directory iterator: a buffer of 31 entries refilled when it is used up. \<open>read_dir_next\<close> is
  \<^verbatim>\<open>Iterator::next\<close>: it gives an entry, an error, or nothing; the loop that skips \<^verbatim>\<open>.\<close> and \<^verbatim>\<open>..\<close> is
  \<open>partial_function (option)\<close>, since it ends only if the directory does.
\<close>

record 'n read_dir_iter =
  ri_inner :: "'n open_directory"
  ri_buf_pos :: nat
  ri_buf_end :: nat
  ri_end_of_stream :: bool
  ri_dirent_buf :: "vfs_dir_entry list"

definition read_dir_new ::
    "('s, 'n, 'f) vfs_ops \<Rightarrow> ('s, 'n, 'f) vfs \<Rightarrow> string \<Rightarrow> vfs_dir_entry
     \<Rightarrow> (ax_error, 'n read_dir_iter) outcome \<times> ('s, 'n, 'f) vfs" where
  "read_dir_new V w path EMPTY =
     and_then_st (fops_open_dir V w path (open_options_new\<lparr>opt_read := True\<rparr>)) (\<lambda>inner w.
       (Ok \<lparr>ri_inner = inner, ri_buf_pos = 0, ri_buf_end = 0, ri_end_of_stream = False,
            ri_dirent_buf = replicate 31 EMPTY\<rparr>, w))"

definition read_dir_refill ::
    "('s, 'n, 'f) vfs_ops \<Rightarrow> 's \<Rightarrow> 'n read_dir_iter
     \<Rightarrow> ((ax_error, vfs_dir_entry) outcome option \<times> 'n read_dir_iter) + 'n read_dir_iter" where
  "read_dir_refill V s it =
     (if ri_buf_end it \<le> ri_buf_pos it then
        (case fops_dir_read_dir V s (ri_inner it) (ri_dirent_buf it) of
           (Ok (n, buf), inner) \<Rightarrow>
             if n = 0 then
               Inl (None, it\<lparr>ri_inner := inner, ri_dirent_buf := buf, ri_end_of_stream := True\<rparr>)
             else
               Inr (it\<lparr>ri_inner := inner, ri_dirent_buf := buf, ri_buf_pos := 0, ri_buf_end := unat n\<rparr>)
         | (Err e, inner) \<Rightarrow> Inl (Some (Err e), it\<lparr>ri_inner := inner, ri_end_of_stream := True\<rparr>)
         | (Panic, inner) \<Rightarrow> Inl (Some Panic, it\<lparr>ri_inner := inner\<rparr>))
      else Inr it)"

partial_function (option) read_dir_next_loop ::
    "('s, 'n, 'f) vfs_ops \<Rightarrow> 's \<Rightarrow> 'n read_dir_iter
     \<Rightarrow> ((ax_error, vfs_dir_entry) outcome option \<times> 'n read_dir_iter) option" where
  "read_dir_next_loop V s it =
     (case read_dir_refill V s it of
        Inl r \<Rightarrow> Some r
      | Inr it \<Rightarrow>
          if length (ri_dirent_buf it) \<le> ri_buf_pos it then Some (Some Panic, it)
          else if de_name (ri_dirent_buf it ! ri_buf_pos it) = ''.'' \<or>
                  de_name (ri_dirent_buf it ! ri_buf_pos it) = ''..''
          then read_dir_next_loop V s (it\<lparr>ri_buf_pos := Suc (ri_buf_pos it)\<rparr>)
          else Some (Some (Ok (ri_dirent_buf it ! ri_buf_pos it)),
                     it\<lparr>ri_buf_pos := Suc (ri_buf_pos it)\<rparr>))"

definition read_dir_next ::
    "('s, 'n, 'f) vfs_ops \<Rightarrow> 's \<Rightarrow> 'n read_dir_iter
     \<Rightarrow> ((ax_error, vfs_dir_entry) outcome option \<times> 'n read_dir_iter) option" where
  "read_dir_next V s it =
     (if ri_end_of_stream it then Some (None, it) else read_dir_next_loop V s it)"

definition trim_end_slashes :: "string \<Rightarrow> string" where
  "trim_end_slashes s = rev (trim_slashes (rev s))"

definition dir_entry_path :: "string \<Rightarrow> vfs_dir_entry \<Rightarrow> string" where
  "dir_entry_path dir_path e = trim_end_slashes dir_path @ ''/'' @ de_name e"

section \<open>Properties of opening and seeking\<close>

text \<open>
  C33. An opened file: its options were valid, its capabilities are exactly those asked for and are
  granted by the permissions of its node, a directory is only ever opened for reading, the cursor is
  at the start, and an open that insists on creating (\<open>opt_create_new\<close>) never opens a path that
  resolved.
\<close>

theorem open_capabilities:
  assumes "fops_open_at V w dir path opts = (Ok f, w')"
  shows "is_valid opts \<and> of_cap f = cap_from_options opts \<and> of_offset f = 0 \<and>
    of_append f = opt_append opts \<and>
    (opt_create_new opts \<longrightarrow> vfs_lookup V w dir path = Err NotFound) \<and>
    (\<exists>w1 attr. fops_open_node V w dir path opts = (Ok (of_node f), w1) \<and>
       v_get_attr V (vfs_nodes w1) (of_node f) = Ok attr \<and>
       cap_from_options opts \<subseteq> perm_to_cap (attr_perm attr) \<and>
       (is_dir attr \<longrightarrow> cap_from_options opts = {CapRead}))"
proof -
  have valid: "is_valid opts" using assms by (auto simp: fops_open_at_def split: if_splits)
  obtain node w1 attr where sel: "fops_open_node V w dir path opts = (Ok node, w1)"
    and attr: "v_get_attr V (vfs_nodes w1) node = Ok attr"
    and dir: "\<not> (is_dir attr \<and> (opt_create opts \<or> opt_create_new opts \<or> opt_write opts \<or>
                    opt_append opts \<or> opt_truncate opts))"
    and caps: "cap_from_options opts \<subseteq> perm_to_cap (attr_perm attr)"
    and f: "f = \<lparr>of_node = node, of_cap = cap_from_options opts, of_append = opt_append opts, of_offset = 0\<rparr>"
    using assms valid by (auto simp: fops_open_at_def Let_def and_then_st_eq_Ok split: if_splits)
  have "opt_create_new opts \<longrightarrow> vfs_lookup V w dir path = Err NotFound"
    using sel by (auto simp: fops_open_node_def Let_def split: outcome.splits if_splits)
  moreover have "is_dir attr \<longrightarrow> cap_from_options opts = {CapRead}"
    using dir valid by (auto simp: is_valid_def cap_from_options_def)
  ultimately show ?thesis using valid f attr caps sel by auto
qed

lemma checked_add_signed_spec:
  "checked_add_signed a off =
     (if 0 \<le> uint a + sint off \<and> uint a + sint off < 2 ^ 64
      then Some (word_of_int (uint a + sint off)) else None)"
proof -
  have "a + off = word_of_int (uint a + sint off)" by simp
  then show ?thesis by (simp only: checked_add_signed_def)
qed

text \<open>
  Seeking, every branch: the new position is the given one, or the cursor or the end of the file
  moved by the signed offset; it is refused with \<open>InvalidInput\<close>, and the cursor stays, exactly when
  that position is negative or does not fit 64 bits. Only the cursor changes.
\<close>

theorem seek_exact:
  assumes "documented_caps V" and "v_get_attr V s (of_node f) = Ok attr"
    and "target = (case pos of SeekStart p \<Rightarrow> uint p
      | SeekCurrent off \<Rightarrow> uint (of_offset f) + sint off | SeekEnd off \<Rightarrow> uint (attr_size attr) + sint off)"
  shows "fops_seek V s f pos =
    (if 0 \<le> target \<and> target < 2 ^ 64
     then (Ok (word_of_int target), f\<lparr>of_offset := word_of_int target\<rparr>)
     else (Err InvalidInput, f))"
proof -
  have "fops_get_attr V s f = Ok attr"
    using assms(1,2) by (simp add: fops_get_attr_def fops_access_node_def documented_caps_def)
  then show ?thesis
    using uint_bounded [of "case pos of SeekStart p \<Rightarrow> p | _ \<Rightarrow> 0"]
    by (cases pos) (auto simp: fops_seek_def checked_add_signed_spec assms(3))
qed

text \<open>
  C39. The operations relative to an open directory need the capability to execute, which no open
  directory has: with a relative path each of them is refused with \<open>PermissionDenied\<close>, whatever the
  permissions of the directory are.
\<close>

theorem relative_ops_denied:
  assumes "documented_caps V" and "fops_open_dir V w0 dpath dopts = (Ok d, w1)"
    and "\<not> starts_with path ''/''"
  shows "fops_open_dir_at V w d path opts = (Err PermissionDenied, w) \<and>
    fops_open_file_at V w d path opts = (Err PermissionDenied, w) \<and>
    fops_create_file_at V w d path = (Err PermissionDenied, w) \<and>
    fops_create_dir_at V w d path = (Err PermissionDenied, w) \<and>
    fops_remove_file_at V w d path = (Err PermissionDenied, w) \<and>
    fops_remove_dir_at V w d path = (Err PermissionDenied, w)"
proof -
  have "od_cap d = cap_from_options dopts"
    using assms(2)
    by (auto simp: fops_open_dir_def fops_dir_open_at_def Let_def and_then_st_eq_Ok split: if_splits)
  then have "\<not> {CapExecute} \<subseteq> od_cap d" by (simp add: cap_from_options_def)
  then have "fops_dir_access_at V d path = Err PermissionDenied"
    using assms(1,3) by (simp add: fops_dir_access_at_def fops_dir_access_node_def documented_caps_def)
  then show ?thesis
    by (simp add: fops_open_dir_at_def fops_open_file_at_def fops_create_file_at_def
        fops_create_dir_at_def fops_remove_file_at_def fops_remove_dir_at_def)
qed

end
