(* ===== verification/Vfs_Contract.thy ===== *)
theory Vfs_Contract
  imports File_Ops
begin

text \<open>
  What the kernel relies on of a file system: the locale \<open>file_system\<close>, with the laws of create,
  write and read, and directory listings; and what follows for the operations on paths, for open
  files and for the directory iterator, proved once for every file system that keeps the contract.
\<close>

text \<open>The node and the rest of the path an operation is passed to, through the root directory or not.\<close>

definition start_target ::
    "('s, 'n, 'f) vfs_ops \<Rightarrow> ('s, 'n, 'f) vfs \<Rightarrow> 'n start_dir \<Rightarrow> string \<Rightarrow> 'n \<times> string" where
  "start_target V w d path =
     (case d of
        RootDir \<Rightarrow>
          (let (fs, rest) = lookup_mounted_fs (vfs_root w) path in (v_root_dir V (vfs_nodes w) fs, rest))
      | NodeDir n \<Rightarrow> (n, path))"

lemma start_lookup_target:
  "start_target V w d path = (n, rest) \<Longrightarrow> start_lookup V w d path = v_lookup V (vfs_nodes w) n rest"
  by (auto simp: start_target_def start_lookup_def root_lookup_def split: start_dir.splits prod.splits)

lemma start_create_target:
  "start_target V w d path = (n, rest) \<Longrightarrow> rest \<noteq> [] \<Longrightarrow>
     start_create V w d path ty = on_nodes w (v_create V (vfs_nodes w) n rest ty)"
  by (auto simp: start_target_def start_create_def root_create_def split: start_dir.splits prod.splits)

text \<open>The entries an iterator yields in \<open>k\<close> calls.\<close>

fun drain ::
    "('s, 'n, 'f) vfs_ops \<Rightarrow> 's \<Rightarrow> 'n read_dir_iter \<Rightarrow> nat
     \<Rightarrow> (ax_error, vfs_dir_entry) outcome option list option" where
  "drain V s it 0 = Some []"
| "drain V s it (Suc k) =
     (case read_dir_next V s it of
        None \<Rightarrow> None
      | Some (r, it') \<Rightarrow> map_option (Cons r) (drain V s it' k))"

definition not_dots :: "vfs_dir_entry \<Rightarrow> bool" where
  "not_dots e \<longleftrightarrow> de_name e \<noteq> ''.'' \<and> de_name e \<noteq> ''..''"

lemma fops_write_Ok:
  assumes "fops_write V s f buf = (Ok k, f1, s1)"
  shows "\<exists>off. v_write_at V s (of_node f) off buf = (Ok k, s1) \<and> f1 = f\<lparr>of_offset := off + k\<rparr>"
proof -
  let ?off = "if of_append f then and_then (fops_get_attr V s f) (\<lambda>attr. Ok (attr_size attr)) else Ok (of_offset f)"
  obtain off where off: "?off = Ok off"
    using assms by (cases ?off) (simp_all add: fops_write_def)
  obtain r s2 where w: "v_write_at V s (of_node f) off buf = (r, s2)" by fastforce
  show ?thesis
    using assms off w by (cases r) (auto simp: fops_write_def fops_access_node_def split: if_splits)
qed

locale file_system =
  fixes V :: "('s, 'n, 'f) vfs_ops"
    and inv :: "'s \<Rightarrow> bool"
    and listing_of :: "'s \<Rightarrow> 'n \<Rightarrow> vfs_dir_entry list"
    and listable :: "'s \<Rightarrow> 'n \<Rightarrow> bool"
  assumes caps: "documented_caps V"
    and create_exists: "inv s \<Longrightarrow> ordinary (last (comps p)) \<Longrightarrow> v_lookup V s n p = Ok c \<Longrightarrow>
      v_create V s n p ty = (Err AlreadyExists, s)"
    and create_made: "inv s \<Longrightarrow> ordinary (last (comps p)) \<Longrightarrow> v_create V s n p TypeFile = (Ok (), s') \<Longrightarrow>
      inv s' \<and> (\<exists>c a. v_lookup V s' n p = Ok c \<and> v_get_attr V s' c = Ok a \<and> attr_type a = TypeFile \<and> attr_size a = 0)"
    and create_keeps: "inv s \<Longrightarrow> v_create V s n p ty = (Ok (), s') \<Longrightarrow> v_lookup V s m q = Ok c \<Longrightarrow>
      v_lookup V s' m q = Ok c"
    and create_roots: "v_create V s n p ty = (r, s') \<Longrightarrow> v_root_dir V s' fs = v_root_dir V s fs"
    and write_read: "inv s \<Longrightarrow> length buf < 2 ^ 63 \<Longrightarrow> v_write_at V s n off buf = (Ok k, s') \<Longrightarrow>
      inv s' \<and> k = of_nat (length buf) \<and> (\<exists>a. v_get_attr V s' n = Ok a) \<and>
      (length out = length buf \<longrightarrow> v_read_at V s' n off out = (Ok (k, buf), s'))"
    and lists: "inv s \<Longrightarrow> listable s n \<Longrightarrow> v_get_attr V s n = Ok a \<Longrightarrow> is_dir a \<Longrightarrow> unat i + length ents < 2 ^ 64 \<Longrightarrow>
      v_read_dir V s n i ents =
        Ok (of_nat (min (length ents) (length (listing_of s n) - unat i)),
            take (min (length ents) (length (listing_of s n) - unat i)) (drop (unat i) (listing_of s n)) @
            drop (min (length ents) (length (listing_of s n) - unat i)) ents)"
begin

lemma start_target_create:
  assumes "start_create V w d path ty = (r, w')"
  shows "start_target V w' d p = start_target V w d p"
proof -
  have "vfs_root w' = vfs_root w"
    and "(\<exists>n q. v_create V (vfs_nodes w) n q ty = (r, vfs_nodes w')) \<or> vfs_nodes w' = vfs_nodes w"
    using assms
    by (auto simp: start_create_def on_nodes_def root_create_def split: start_dir.splits prod.splits if_splits)
      (metis prod.collapse)+
  then show ?thesis
    using create_roots by (auto simp: start_target_def split: start_dir.splits prod.splits)
qed

text \<open>A file that was created is there, empty, and what was there before still is.\<close>

lemma create_file_found:
  assumes inv: "inv (vfs_nodes w)" and create: "vfs_create_file V w dir path = (Ok c, w')"
    and target: "start_target V w (parent_node_of w dir path) path = (n, rest)"
    and ord: "ordinary (last (comps rest))"
  shows "inv (vfs_nodes w')" and "vfs_lookup V w' dir path = Ok c"
    and "\<exists>a. v_get_attr V (vfs_nodes w') c = Ok a \<and> attr_type a = TypeFile \<and> attr_size a = 0"
    and "v_lookup V (vfs_nodes w) m q = Ok x \<Longrightarrow> v_lookup V (vfs_nodes w') m q = Ok x"
    and "\<forall>x. vfs_lookup V w dir path \<noteq> Ok x"
proof -
  let ?d = "parent_node_of w dir path"
  have rest: "rest \<noteq> []" using ord by (auto simp: ordinary_def)
  have path: "path \<noteq> []" "\<not> ends_with path ''/''"
    and made: "start_create V w ?d path TypeFile = (Ok (), w')" and found: "start_lookup V w' ?d path = Ok c"
    using create by (auto simp: vfs_create_file_def Let_def and_then_st_eq_Ok split: if_splits)
  have w': "w' = w\<lparr>vfs_nodes := vfs_nodes w'\<rparr>"
      "v_create V (vfs_nodes w) n rest TypeFile = (Ok (), vfs_nodes w')"
    using made start_create_target [OF target rest, of TypeFile] by (auto simp: on_nodes_def prod_eq_iff)
  note law = create_made [OF inv ord w'(2)]
  then show "inv (vfs_nodes w')" by blast
  have "parent_node_of w' dir path = ?d" by (subst w'(1)) (simp add: parent_node_of_def split: option.split)
  with path found show "vfs_lookup V w' dir path = Ok c" by (simp add: vfs_lookup_def)
  have "v_lookup V (vfs_nodes w') n rest = Ok c"
    using found start_lookup_target start_target_create [OF made] target by metis
  with law show "\<exists>a. v_get_attr V (vfs_nodes w') c = Ok a \<and> attr_type a = TypeFile \<and> attr_size a = 0" by auto
  show "v_lookup V (vfs_nodes w) m q = Ok x \<Longrightarrow> v_lookup V (vfs_nodes w') m q = Ok x"
    by (rule create_keeps [OF inv w'(2)])
  have "v_lookup V (vfs_nodes w) n rest \<noteq> Ok x" for x
    using create_exists [OF inv ord, of n x TypeFile] w'(2) by auto
  then show "\<forall>x. vfs_lookup V w dir path \<noteq> Ok x"
    using path start_lookup_target [OF target] by (simp add: vfs_lookup_def and_then_eq_Ok)
qed

text \<open>What is written through an open file is read back from the same position.\<close>

lemma write_seek_read:
  assumes inv: "inv s" and len: "length buf < 2 ^ 63" and cap: "CapRead \<in> of_cap f"
    and wr: "fops_write V s f buf = (Ok k, f1, s1)" and out: "length out = length buf"
    and start: "start = of_offset f1 - k"
  shows "k = of_nat (length buf) \<and> fops_seek V s1 f1 (SeekStart start) = (Ok start, f1\<lparr>of_offset := start\<rparr>) \<and>
    fops_read V s1 (f1\<lparr>of_offset := start\<rparr>) out = (Ok (k, buf), f1, s1)"
proof -
  obtain off where w: "v_write_at V s (of_node f) off buf = (Ok k, s1)"
    and f1: "f1 = f\<lparr>of_offset := off + k\<rparr>"
    using fops_write_Ok [OF wr] by blast
  note law = write_read [OF inv len w, of out]
  have acc: "v_can_access V (of_cap f) {CapRead}" "v_can_access V (of_cap f) {}"
    using caps cap by (simp_all add: documented_caps_def)
  show ?thesis
    using law acc out
    by (auto simp: f1 start fops_seek_def fops_get_attr_def fops_access_node_def fops_read_def)
qed

end

text \<open>
  The iterator over a directory with the entries \<open>L\<close>: \<open>R\<close> is what is still to come, the rest of the
  buffer and the entries not yet read.
\<close>

definition iter_at ::
    "vfs_dir_entry list \<Rightarrow> 'n \<Rightarrow> 'n read_dir_iter \<Rightarrow> vfs_dir_entry list \<Rightarrow> bool" where
  "iter_at L n it R \<longleftrightarrow>
     od_node (ri_inner it) = n \<and> CapRead \<in> od_cap (ri_inner it) \<and> \<not> ri_end_of_stream it \<and>
     length (ri_dirent_buf it) = 31 \<and> ri_buf_end it \<le> 31 \<and>
     unat (od_entry_idx (ri_inner it)) \<le> length L \<and>
     R = drop (ri_buf_pos it) (take (ri_buf_end it) (ri_dirent_buf it)) @
         drop (unat (od_entry_idx (ri_inner it))) L"

lemma iter_at_step:
  assumes "iter_at L n it R" and "ri_buf_pos it < ri_buf_end it"
  shows "ri_buf_pos it < length (ri_dirent_buf it)"
    and "R = ri_dirent_buf it ! ri_buf_pos it # tl R"
    and "iter_at L n (it\<lparr>ri_buf_pos := Suc (ri_buf_pos it)\<rparr>) (tl R)"
proof -
  let ?b = "take (ri_buf_end it) (ri_dirent_buf it)"
  have lt: "ri_buf_pos it < length ?b" using assms by (auto simp: iter_at_def)
  have "drop (ri_buf_pos it) ?b = ?b ! ri_buf_pos it # drop (Suc (ri_buf_pos it)) ?b"
    using lt by (rule Cons_nth_drop_Suc [symmetric])
  moreover have "?b ! ri_buf_pos it = ri_dirent_buf it ! ri_buf_pos it" using assms(2) by simp
  ultimately show "R = ri_dirent_buf it ! ri_buf_pos it # tl R"
    and "iter_at L n (it\<lparr>ri_buf_pos := Suc (ri_buf_pos it)\<rparr>) (tl R)"
    using assms(1) by (auto simp: iter_at_def)
  show "ri_buf_pos it < length (ri_dirent_buf it)" using lt by simp
qed

context file_system
begin

lemma refill:
  assumes inv: "inv s" "listable s n" and a: "v_get_attr V s n = Ok a" "is_dir a"
    and len: "length (listing_of s n) + 31 < 2 ^ 64" and at: "iter_at (listing_of s n) n it R"
  shows "(\<exists>it'. R = [] \<and> read_dir_refill V s it = Inl (None, it')) \<or>
    (\<exists>it'. R \<noteq> [] \<and> read_dir_refill V s it = Inr it' \<and> iter_at (listing_of s n) n it' R \<and>
       ri_buf_pos it' < ri_buf_end it')"
proof (cases "ri_buf_end it \<le> ri_buf_pos it")
  case False
  then show ?thesis using at iter_at_step(2) [OF at] by (auto simp: read_dir_refill_def)
next
  case True
  let ?L = "listing_of s n" and ?d = "ri_inner it" and ?b = "ri_dirent_buf it"
  let ?i = "od_entry_idx ?d"
  let ?k = "min 31 (length ?L - unat ?i)"
  have R: "R = drop (unat ?i) ?L" and b: "length ?b = 31" and i: "unat ?i \<le> length ?L"
    using at True by (auto simp: iter_at_def)
  have "v_can_access V (od_cap ?d) {CapRead}" using caps at by (simp add: documented_caps_def iter_at_def)
  then have rd: "fops_dir_read_dir V s ?d ?b =
      (Ok (of_nat ?k, take ?k R @ drop ?k ?b), ?d\<lparr>od_entry_idx := ?i + of_nat ?k\<rparr>)"
    using lists [OF inv a, of ?i ?b] len i b at
    by (auto simp: fops_dir_read_dir_def fops_dir_access_node_def iter_at_def R)
  have k: "unat (of_nat ?k :: usize) = ?k" by (subst unat_of_nat) simp
  then have k0: "of_nat ?k = (0 :: usize) \<longleftrightarrow> R = []"
    using i by (metis R drop_eq_Nil diff_is_0_eq min_0R min_def unat_0 unat_eq_zero zero_neq_numeral)
  show ?thesis
  proof (cases "R = []")
    case False
    define k where "k = ?k"
    define b' where "b' = take k R @ drop k ?b"
    let ?it = "it\<lparr>ri_inner := ?d\<lparr>od_entry_idx := ?i + of_nat k\<rparr>, ri_dirent_buf := b',
        ri_buf_pos := 0, ri_buf_end := k\<rparr>"
    have kb: "k \<le> 31" "unat ?i + k \<le> length ?L" "k \<le> length R" using i by (simp_all add: k_def R)
    have idx: "unat (?i + of_nat k) = unat ?i + k"
      using k len kb unfolding k_def [symmetric] by (subst unat_add_usize) simp_all
    have cont: "R = drop 0 (take k b') @ drop (unat ?i + k) ?L"
    proof -
      have "take k b' = take k R" using kb by (simp add: b'_def)
      moreover have "drop (unat ?i + k) ?L = drop k R" by (simp add: R add.commute)
      ultimately show ?thesis by (simp only: drop_0 append_take_drop_id)
    qed
    have len': "length b' = 31" using b kb by (simp add: b'_def)
    have "iter_at ?L n ?it R"
      unfolding iter_at_def using at kb cont len' by (simp add: iter_at_def idx del: drop_0)
    moreover have "read_dir_refill V s it = Inr ?it"
      using True False k0 k by (simp add: read_dir_refill_def rd b'_def k_def)
    moreover have "0 < k" using False by (simp add: R k_def)
    ultimately show ?thesis using False by auto
  qed (use True k0 rd in \<open>simp add: read_dir_refill_def\<close>)
qed

lemma next_entry:
  assumes inv: "inv s" "listable s n" and a: "v_get_attr V s n = Ok a" "is_dir a"
    and len: "length (listing_of s n) + 31 < 2 ^ 64" and at: "iter_at (listing_of s n) n it R"
  shows "case dropWhile (\<lambda>e. \<not> not_dots e) R of
      [] \<Rightarrow> \<exists>it'. read_dir_next V s it = Some (None, it')
    | e # R' \<Rightarrow> \<exists>it'. read_dir_next V s it = Some (Some (Ok e), it') \<and> iter_at (listing_of s n) n it' R'"
  using at
proof (induction "length R" arbitrary: it R)
  case 0
  then have "read_dir_next V s it = read_dir_next_loop V s it" by (simp add: read_dir_next_def iter_at_def)
  with refill [OF inv a len 0(2)] 0 show ?case
    by (auto simp: read_dir_next_loop.simps)
next
  case (Suc m)
  have nl: "read_dir_next V s it = read_dir_next_loop V s it"
    using Suc.prems by (simp add: read_dir_next_def iter_at_def)
  obtain it' where r: "read_dir_refill V s it = Inr it'" and at': "iter_at (listing_of s n) n it' R"
    and lt: "ri_buf_pos it' < ri_buf_end it'"
    using refill [OF inv a len Suc.prems] Suc.hyps(2) by auto
  note st = iter_at_step [OF at' lt]
  let ?e = "ri_dirent_buf it' ! ri_buf_pos it'" and ?it = "it'\<lparr>ri_buf_pos := Suc (ri_buf_pos it')\<rparr>"
  show ?case
  proof (cases "not_dots ?e")
    case True
    then have "read_dir_next V s it = Some (Some (Ok ?e), ?it)"
      using nl r st(1) by (simp add: read_dir_next_loop.simps not_dots_def)
    moreover have "dropWhile (\<lambda>e. \<not> not_dots e) R = ?e # tl R" using True st(2) by (metis dropWhile.simps(2))
    ultimately show ?thesis using st(3) by simp
  next
    case False
    have "read_dir_next V s ?it = read_dir_next_loop V s ?it"
      using st(3) by (simp add: read_dir_next_def iter_at_def)
    then have "read_dir_next V s it = read_dir_next V s ?it"
      using False nl r st(1) by (simp add: read_dir_next_loop.simps [of V s it] not_dots_def)
    then have eq: "read_dir_next V s it = x \<longleftrightarrow> read_dir_next V s ?it = x" for x by simp
    have dw: "dropWhile (\<lambda>e. \<not> not_dots e) R = dropWhile (\<lambda>e. \<not> not_dots e) (tl R)"
      using False st(2) by (metis dropWhile.simps(2))
    have "m = length (tl R)" using Suc.hyps(2) by simp
    then show ?thesis unfolding eq dw by (rule Suc.hyps(1) [OF _ st(3)])
  qed
qed

lemma drain_all:
  assumes inv: "inv s" "listable s n" and a: "v_get_attr V s n = Ok a" "is_dir a"
    and len: "length (listing_of s n) + 31 < 2 ^ 64" and at: "iter_at (listing_of s n) n it R"
  shows "drain V s it (Suc (length (filter not_dots R))) =
    Some (map (\<lambda>e. Some (Ok e)) (filter not_dots R) @ [None])"
  using at
proof (induction "length R" arbitrary: it R rule: less_induct)
  case less
  note nx = next_entry [OF inv a len less.prems]
  show ?case
  proof (cases "dropWhile (\<lambda>e. \<not> not_dots e) R")
    case Nil
    then have "filter not_dots R = []" by (auto simp: dropWhile_eq_Nil_conv filter_empty_conv)
    moreover obtain it' where "read_dir_next V s it = Some (None, it')" using nx Nil by auto
    ultimately show ?thesis by simp
  next
    case (Cons e R')
    have f: "filter not_dots R = e # filter not_dots R'"
    proof -
      have "R = takeWhile (\<lambda>e. \<not> not_dots e) R @ e # R'" by (metis Cons takeWhile_dropWhile_id)
      moreover have "filter not_dots (takeWhile (\<lambda>e. \<not> not_dots e) R) = []"
        by (auto simp: filter_empty_conv dest: set_takeWhileD)
      moreover have "not_dots e" using Cons by (metis dropWhile_eq_Cons_conv)
      ultimately show ?thesis by (metis append_Nil filter.simps(2) filter_append)
    qed
    obtain it' where "read_dir_next V s it = Some (Some (Ok e), it')" "iter_at (listing_of s n) n it' R'"
      using nx Cons by auto
    moreover have "length R' < length R"
      using Cons length_dropWhile_le [of "\<lambda>e. \<not> not_dots e" R] by simp
    ultimately show ?thesis using less.hyps [of R' it'] f by simp
  qed
qed

end

end
