(* ===== verification/Ramfs.thy ===== *)
theory Ramfs
  imports Vfs_Types
begin

text \<open>
  The RAM file system, \<^verbatim>\<open>axfs_ramfs/src\<close>. The reference-counted nodes of every mounted instance live
  in one heap: a node identifier stands for an \<^verbatim>\<open>Arc\<close>, and a node is in the heap as long as a strong
  reference to it exists. A \<^verbatim>\<open>Weak\<close> reference is an identifier that may no longer be in the heap;
  \<^verbatim>\<open>upgrade\<close> looks. Identifiers are never used twice. Every operation runs as one atomic step.

  An operation on a directory answers with \<open>Panic\<close> for an identifier that is not in the heap; the
  code has no such call, since whoever calls holds a strong reference.
\<close>

section \<open>Nodes and the heap\<close>

record dir_node =
  dn_parent :: "nat option"
  dn_children :: "(string \<times> nat) list"

datatype ram_node = FileNode "u8 list" | DirNode dir_node

record ram_heap =
  rh_node :: "nat \<Rightarrow> ram_node option"
  rh_next :: nat

definition heap_empty :: ram_heap where
  "heap_empty = \<lparr>rh_node = (\<lambda>_. None), rh_next = 0\<rparr>"

definition heap_add :: "ram_heap \<Rightarrow> ram_node \<Rightarrow> nat \<times> ram_heap" where
  "heap_add h node =
     (rh_next h, h\<lparr>rh_node := (rh_node h)(rh_next h \<mapsto> node), rh_next := Suc (rh_next h)\<rparr>)"

definition heap_set :: "ram_heap \<Rightarrow> nat \<Rightarrow> ram_node \<Rightarrow> ram_heap" where
  "heap_set h nid node = h\<lparr>rh_node := (rh_node h)(nid \<mapsto> node)\<rparr>"

section \<open>Files (axfs_ramfs/src/file.rs)\<close>

definition file_new :: ram_node where
  "file_new = FileNode []"

definition file_get_attr :: "'n vfs_defaults \<Rightarrow> u8 list \<Rightarrow> vfs_node_attr" where
  "file_get_attr D content =
     \<lparr>attr_perm = default_file_perm D, attr_type = TypeFile, attr_size = of_nat (length content),
      attr_blocks = 0\<rparr>"

text \<open>\<^verbatim>\<open>Vec::resize\<close>: growing over \<^verbatim>\<open>isize::MAX\<close> bytes panics with a capacity overflow.\<close>

definition vec_resize :: "nat \<Rightarrow> u8 \<Rightarrow> u8 list \<Rightarrow> (ax_error, u8 list) outcome" where
  "vec_resize n v xs =
     (if n \<le> length xs then Ok (take n xs)
      else if n < 2 ^ 63 then Ok (xs @ replicate (n - length xs) v)
      else Panic)"

definition file_truncate :: "u8 list \<Rightarrow> u64 \<Rightarrow> (ax_error, u8 list) outcome" where
  "file_truncate content len =
     (if len < of_nat (length content) then Ok (take (unat len) content)
      else vec_resize (unat len) 0 content)"

text \<open>
  The slice \<^verbatim>\<open>content[start..end]\<close> panics when \<open>start\<close> is after \<open>end\<close>, which the wrapping sum
  \<^verbatim>\<open>offset + buf.len()\<close> can cause. The result carries the caller's buffer.
\<close>

definition file_read_at :: "u8 list \<Rightarrow> u64 \<Rightarrow> u8 list \<Rightarrow> (ax_error, usize \<times> u8 list) outcome" where
  "file_read_at content offset buf =
     (let start = min (of_nat (length content)) offset;
          end = min (of_nat (length content)) (offset + of_nat (length buf))
      in if end < start then Panic
         else let src = take (unat end - unat start) (drop (unat start) content)
              in Ok (of_nat (length src), src @ drop (length src) buf))"

definition file_write_at :: "u8 list \<Rightarrow> u64 \<Rightarrow> u8 list \<Rightarrow> (ax_error, usize \<times> u8 list) outcome" where
  "file_write_at content offset buf =
     (let end = offset + of_nat (length buf) in
      and_then
        (if of_nat (length content) < end then vec_resize (unat end) 0 content else Ok content)
        (\<lambda>content.
           if end < offset \<or> length content < unat end then Panic
           else Ok (of_nat (length buf),
                    take (unat offset) content @ buf @ drop (unat offset + length buf) content)))"

section \<open>Directories (axfs_ramfs/src/dir.rs)\<close>

definition dir_new :: "nat option \<Rightarrow> ram_node" where
  "dir_new parent = DirNode \<lparr>dn_parent = parent, dn_children = []\<rparr>"

definition dir_set_parent :: "ram_heap \<Rightarrow> nat \<Rightarrow> nat option \<Rightarrow> ram_heap" where
  "dir_set_parent h nid parent =
     (case rh_node h nid of
        Some (DirNode d) \<Rightarrow> heap_set h nid (DirNode (d\<lparr>dn_parent := parent\<rparr>))
      | _ \<Rightarrow> h)"

definition dir_get_entries :: "dir_node \<Rightarrow> string list" where
  "dir_get_entries d = map fst (dn_children d)"

definition dir_exist :: "dir_node \<Rightarrow> string \<Rightarrow> bool" where
  "dir_exist d name \<longleftrightarrow> map_of (dn_children d) name \<noteq> None"

definition dir_create_node ::
    "ram_heap \<Rightarrow> nat \<Rightarrow> dir_node \<Rightarrow> string \<Rightarrow> vfs_node_type \<Rightarrow> (ax_error, unit) outcome \<times> ram_heap" where
  "dir_create_node h nid d name ty =
     (if dir_exist d name then (Err AlreadyExists, h)
      else case (case ty of TypeFile \<Rightarrow> Ok file_new | TypeDir \<Rightarrow> Ok (dir_new (Some nid)) | _ \<Rightarrow> Err Unsupported) of
        Ok node \<Rightarrow>
          let (new_id, h') = heap_add h node in
          (Ok (), heap_set h' nid (DirNode (d\<lparr>dn_children := bt_insert name new_id (dn_children d)\<rparr>)))
      | Err e \<Rightarrow> (Err e, h)
      | Panic \<Rightarrow> (Panic, h))"

definition dir_remove_node ::
    "ram_heap \<Rightarrow> nat \<Rightarrow> dir_node \<Rightarrow> string \<Rightarrow> (ax_error, unit) outcome \<times> ram_heap" where
  "dir_remove_node h nid d name =
     (case map_of (dn_children d) name of
        None \<Rightarrow> (Err NotFound, h)
      | Some node \<Rightarrow>
          if (case rh_node h node of Some (DirNode dir) \<Rightarrow> dn_children dir \<noteq> [] | _ \<Rightarrow> False)
          then (Err DirectoryNotEmpty, h)
          else (Ok (), heap_set h nid (DirNode (d\<lparr>dn_children := bt_remove name (dn_children d)\<rparr>))))"

definition dir_get_attr :: "'n vfs_defaults \<Rightarrow> vfs_node_attr" where
  "dir_get_attr D =
     \<lparr>attr_perm = default_dir_perm D, attr_type = TypeDir, attr_size = 4096, attr_blocks = 0\<rparr>"

definition dir_parent :: "ram_heap \<Rightarrow> dir_node \<Rightarrow> nat option" where
  "dir_parent h d =
     (case dn_parent d of
        None \<Rightarrow> None
      | Some p \<Rightarrow> (case rh_node h p of None \<Rightarrow> None | Some _ \<Rightarrow> Some p))"

text \<open>
  The path walkers dispatch on the node as the trait objects do: a file answers with the default of
  the crate, a directory takes the first component off the path.
\<close>

function node_lookup :: "nat vfs_defaults \<Rightarrow> ram_heap \<Rightarrow> nat \<Rightarrow> string \<Rightarrow> (ax_error, nat) outcome" where
  "node_lookup D h nid path =
     (case rh_node h nid of
        None \<Rightarrow> Panic
      | Some (FileNode _) \<Rightarrow> non_dir_lookup D path
      | Some (DirNode d) \<Rightarrow>
          (case split_path path of
             (name, rest) \<Rightarrow>
               and_then
                 (if name = '''' \<or> name = ''.'' then Ok nid
                  else if name = ''..'' then ok_or NotFound (dir_parent h d)
                  else ok_or NotFound (map_of (dn_children d) name))
                 (\<lambda>node. case rest of Some rest \<Rightarrow> node_lookup D h node rest | None \<Rightarrow> Ok node)))"
  by pat_completeness auto
termination
  by (relation "measure (\<lambda>(D, h, nid, path). length path)") (auto dest: sym intro: split_path_shorter)

function node_create ::
    "nat vfs_defaults \<Rightarrow> ram_heap \<Rightarrow> nat \<Rightarrow> string \<Rightarrow> vfs_node_type
     \<Rightarrow> (ax_error, unit) outcome \<times> ram_heap" where
  "node_create D h nid path ty =
     (case rh_node h nid of
        None \<Rightarrow> (Panic, h)
      | Some (FileNode _) \<Rightarrow> (non_dir_create D path ty, h)
      | Some (DirNode d) \<Rightarrow>
          (case split_path path of
             (name, Some rest) \<Rightarrow>
               if name = '''' \<or> name = ''.'' then node_create D h nid rest ty
               else if name = ''..'' then
                 (case dir_parent h d of
                    None \<Rightarrow> (Err NotFound, h)
                  | Some p \<Rightarrow> node_create D h p rest ty)
               else
                 (case map_of (dn_children d) name of
                    None \<Rightarrow> (Err NotFound, h)
                  | Some subdir \<Rightarrow> node_create D h subdir rest ty)
           | (name, None) \<Rightarrow>
               if name = '''' \<or> name = ''.'' \<or> name = ''..'' then (Ok (), h)
               else dir_create_node h nid d name ty))"
  by pat_completeness auto
termination
  by (relation "measure (\<lambda>(D, h, nid, path, ty). length path)") (auto dest: sym intro: split_path_shorter)

function node_remove ::
    "nat vfs_defaults \<Rightarrow> ram_heap \<Rightarrow> nat \<Rightarrow> string \<Rightarrow> (ax_error, unit) outcome \<times> ram_heap" where
  "node_remove D h nid path =
     (case rh_node h nid of
        None \<Rightarrow> (Panic, h)
      | Some (FileNode _) \<Rightarrow> (non_dir_remove D path, h)
      | Some (DirNode d) \<Rightarrow>
          (case split_path path of
             (name, Some rest) \<Rightarrow>
               if name = '''' \<or> name = ''.'' then node_remove D h nid rest
               else if name = ''..'' then
                 (case dir_parent h d of
                    None \<Rightarrow> (Err NotFound, h)
                  | Some p \<Rightarrow> node_remove D h p rest)
               else
                 (case map_of (dn_children d) name of
                    None \<Rightarrow> (Err NotFound, h)
                  | Some subdir \<Rightarrow> node_remove D h subdir rest)
           | (name, None) \<Rightarrow>
               if name = '''' \<or> name = ''.'' \<or> name = ''..'' then (Err InvalidInput, h)
               else dir_remove_node h nid d name))"
  by pat_completeness auto
termination
  by (relation "measure (\<lambda>(D, h, nid, path). length path)") (auto dest: sym intro: split_path_shorter)

text \<open>\<^verbatim>\<open>str::rfind('/')\<close> and the slice after it; the whole string when there is no slash.\<close>

definition after_last_slash :: "string \<Rightarrow> string" where
  "after_last_slash s = rev (takeWhile (\<lambda>c. c \<noteq> slash) (rev s))"

function node_rename ::
    "nat vfs_defaults \<Rightarrow> ram_heap \<Rightarrow> nat \<Rightarrow> string \<Rightarrow> string \<Rightarrow> (ax_error, unit) outcome \<times> ram_heap" where
  "node_rename D h nid src_path dst_path =
     (case rh_node h nid of
        None \<Rightarrow> (Panic, h)
      | Some (FileNode _) \<Rightarrow> (non_dir_rename D src_path dst_path, h)
      | Some (DirNode d) \<Rightarrow>
          (case split_path src_path of
             (src_name, Some src_rest) \<Rightarrow>
               if src_name = '''' \<or> src_name = ''.'' then node_rename D h nid src_rest dst_path
               else if src_name = ''..'' then
                 (case dir_parent h d of
                    None \<Rightarrow> (Err NotFound, h)
                  | Some p \<Rightarrow> node_rename D h p src_rest dst_path)
               else
                 (case map_of (dn_children d) src_name of
                    None \<Rightarrow> (Err NotFound, h)
                  | Some subdir \<Rightarrow> node_rename D h subdir src_rest dst_path)
           | (src_name, None) \<Rightarrow>
               let dst_name = after_last_slash (trim_slashes dst_path) in
               if \<not> dir_exist d src_name then (Err NotFound, h)
               else if dir_exist d dst_name then (Err AlreadyExists, h)
               else
                 (case map_of (dn_children d) src_name of
                    Some node \<Rightarrow>
                      (Ok (), heap_set h nid (DirNode (d\<lparr>dn_children :=
                         bt_insert dst_name node (bt_remove src_name (dn_children d))\<rparr>)))
                  | None \<Rightarrow> (Err NotFound, h))))"
  by pat_completeness auto
termination
  by (relation "measure (\<lambda>(D, h, nid, src, dst). length src)") (auto dest: sym intro: split_path_shorter)

declare node_lookup.simps [simp del] node_create.simps [simp del] node_remove.simps [simp del]
  node_rename.simps [simp del]

section \<open>Operations of a node, dispatched\<close>

definition node_get_attr :: "'n vfs_defaults \<Rightarrow> ram_heap \<Rightarrow> nat \<Rightarrow> (ax_error, vfs_node_attr) outcome" where
  "node_get_attr D h nid =
     (case rh_node h nid of
        None \<Rightarrow> Panic
      | Some (FileNode content) \<Rightarrow> Ok (file_get_attr D content)
      | Some (DirNode d) \<Rightarrow> Ok (dir_get_attr D))"

definition node_parent :: "nat vfs_defaults \<Rightarrow> ram_heap \<Rightarrow> nat \<Rightarrow> nat option" where
  "node_parent D h nid =
     (case rh_node h nid of Some (DirNode d) \<Rightarrow> dir_parent h d | _ \<Rightarrow> non_dir_parent D)"

text \<open>
  The loop of \<^verbatim>\<open>read_dir\<close> over the caller's buffer, with the iterator \<open>children\<close> already past the
  entries to skip. It gives the number of entries written and the buffer.
\<close>

fun read_dir_loop ::
    "'n vfs_defaults \<Rightarrow> ram_heap \<Rightarrow> usize \<Rightarrow> nat \<Rightarrow> (string \<times> nat) list \<Rightarrow> vfs_dir_entry list
     \<Rightarrow> (ax_error, usize \<times> vfs_dir_entry list) outcome" where
  "read_dir_loop D h start_idx i children [] = Ok (of_nat i, [])"
| "read_dir_loop D h start_idx i children (ent # dirents) =
     (let put = (\<lambda>new children. and_then new (\<lambda>e.
                   and_then (read_dir_loop D h start_idx (Suc i) children dirents) (\<lambda>(n, ents). Ok (n, e # ents))))
      in if of_nat i + start_idx = 0 then put (new_dir_entry D ''.'' TypeDir) children
         else if of_nat i + start_idx = 1 then put (new_dir_entry D ''..'' TypeDir) children
         else
           (case children of
              [] \<Rightarrow> Ok (of_nat i, ent # dirents)
            | (name, node) # children \<Rightarrow>
                (case node_get_attr D h node of
                   Ok attr \<Rightarrow> put (new_dir_entry D name (attr_type attr)) children
                 | _ \<Rightarrow> Panic)))"

definition dir_read_dir ::
    "'n vfs_defaults \<Rightarrow> ram_heap \<Rightarrow> dir_node \<Rightarrow> usize \<Rightarrow> vfs_dir_entry list
     \<Rightarrow> (ax_error, usize \<times> vfs_dir_entry list) outcome" where
  "dir_read_dir D h d start_idx dirents =
     read_dir_loop D h start_idx 0 (drop (unat (max start_idx 2 - 2)) (dn_children d)) dirents"

definition node_read_dir ::
    "nat vfs_defaults \<Rightarrow> ram_heap \<Rightarrow> nat \<Rightarrow> usize \<Rightarrow> vfs_dir_entry list
     \<Rightarrow> (ax_error, usize \<times> vfs_dir_entry list) outcome" where
  "node_read_dir D h nid start_idx dirents =
     (case rh_node h nid of
        None \<Rightarrow> Panic
      | Some (FileNode _) \<Rightarrow>
          and_then (non_dir_read_dir D start_idx dirents) (\<lambda>n. Ok (n, dirents))
      | Some (DirNode d) \<Rightarrow> dir_read_dir D h d start_idx dirents)"

definition node_read_at ::
    "nat vfs_defaults \<Rightarrow> ram_heap \<Rightarrow> nat \<Rightarrow> u64 \<Rightarrow> u8 list \<Rightarrow> (ax_error, usize \<times> u8 list) outcome" where
  "node_read_at D h nid offset buf =
     (case rh_node h nid of
        None \<Rightarrow> Panic
      | Some (DirNode _) \<Rightarrow> and_then (dir_read_at D offset buf) (\<lambda>n. Ok (n, buf))
      | Some (FileNode content) \<Rightarrow> file_read_at content offset buf)"

definition node_write_at ::
    "nat vfs_defaults \<Rightarrow> ram_heap \<Rightarrow> nat \<Rightarrow> u64 \<Rightarrow> u8 list \<Rightarrow> (ax_error, usize) outcome \<times> ram_heap" where
  "node_write_at D h nid offset buf =
     (case rh_node h nid of
        None \<Rightarrow> (Panic, h)
      | Some (DirNode _) \<Rightarrow> (dir_write_at D offset buf, h)
      | Some (FileNode content) \<Rightarrow>
          (case file_write_at content offset buf of
             Ok (n, content') \<Rightarrow> (Ok n, heap_set h nid (FileNode content'))
           | Err e \<Rightarrow> (Err e, h)
           | Panic \<Rightarrow> (Panic, h)))"

definition node_truncate ::
    "nat vfs_defaults \<Rightarrow> ram_heap \<Rightarrow> nat \<Rightarrow> u64 \<Rightarrow> (ax_error, unit) outcome \<times> ram_heap" where
  "node_truncate D h nid len =
     (case rh_node h nid of
        None \<Rightarrow> (Panic, h)
      | Some (DirNode _) \<Rightarrow> (dir_truncate D len, h)
      | Some (FileNode content) \<Rightarrow>
          (case file_truncate content len of
             Ok content' \<Rightarrow> (Ok (), heap_set h nid (FileNode content'))
           | Err e \<Rightarrow> (Err e, h)
           | Panic \<Rightarrow> (Panic, h)))"

section \<open>The file system (axfs_ramfs/src/lib.rs)\<close>

record ram_file_system =
  rf_parent :: "nat option"
  rf_root :: nat

definition ramfs_new :: "ram_heap \<Rightarrow> ram_file_system \<times> ram_heap" where
  "ramfs_new h =
     (let (root, h') = heap_add h (dir_new None) in (\<lparr>rf_parent = None, rf_root = root\<rparr>, h'))"

definition ramfs_root_dir_node :: "ram_file_system \<Rightarrow> nat" where
  "ramfs_root_dir_node fs = rf_root fs"

text \<open>\<^verbatim>\<open>Once::call_once\<close> keeps the first parent it was given.\<close>

definition ramfs_mount ::
    "nat vfs_defaults \<Rightarrow> ram_heap \<Rightarrow> ram_file_system \<Rightarrow> string \<Rightarrow> nat
     \<Rightarrow> (ax_error, unit) outcome \<times> ram_file_system \<times> ram_heap" where
  "ramfs_mount D h fs path mount_point =
     (case node_parent D h mount_point of
        Some parent \<Rightarrow>
          let once = (case rf_parent fs of None \<Rightarrow> parent | Some p \<Rightarrow> p) in
          (Ok (), fs\<lparr>rf_parent := Some once\<rparr>, dir_set_parent h (rf_root fs) (Some once))
      | None \<Rightarrow> (Ok (), fs, dir_set_parent h (rf_root fs) None))"

definition ramfs_root_dir :: "ram_file_system \<Rightarrow> nat" where
  "ramfs_root_dir fs = rf_root fs"

end
