(* ===== verification/Ramfs_Paths.thy ===== *)
theory Ramfs_Paths
  imports Ramfs
begin

text \<open>
  Path resolution of the RAM file system against its specification: a path is the list of its
  components, and an operation on a path is a walk over all components but the last, one component
  at a time, followed by the operation on the last one. The four recursive operations of
  \<^verbatim>\<open>dir.rs\<close> are shown to be instances of one lemma on walkers.
\<close>

section \<open>Walking\<close>

definition walk_step :: "ax_error \<Rightarrow> ram_heap \<Rightarrow> nat \<Rightarrow> string \<Rightarrow> (ax_error, nat) outcome" where
  "walk_step e h nid c =
     (case rh_node h nid of
        None \<Rightarrow> Panic
      | Some (FileNode _) \<Rightarrow> Err e
      | Some (DirNode d) \<Rightarrow>
          if c = '''' \<or> c = ''.'' then Ok nid
          else if c = ''..'' then ok_or NotFound (dir_parent h d)
          else ok_or NotFound (map_of (dn_children d) c))"

fun walk :: "ax_error \<Rightarrow> ram_heap \<Rightarrow> nat \<Rightarrow> string list \<Rightarrow> (ax_error, nat) outcome" where
  "walk e h nid [] = Ok nid"
| "walk e h nid (c # cs) = and_then (walk_step e h nid c) (\<lambda>n. walk e h n cs)"

lemma walk_append: "walk e h nid (cs @ ds) = and_then (walk e h nid cs) (\<lambda>n. walk e h n ds)"
  by (induction cs arbitrary: nid) (simp_all add: and_then_assoc)

text \<open>
  Every operation that recurses over a path by \<^verbatim>\<open>split_path\<close>, with one answer \<open>fail e\<close> for a file on
  the way, is a walk to the directory followed by the operation \<open>at\<close> on the last component.
\<close>

lemma walker_eq:
  assumes unfold: "\<And>nid path. op nid path =
      (case rh_node h nid of
         None \<Rightarrow> pan
       | Some (FileNode _) \<Rightarrow> fail e
       | Some (DirNode d) \<Rightarrow>
           (case split_path path of
              (name, Some rest) \<Rightarrow>
                (case walk_step e h nid name of Ok n \<Rightarrow> op n rest | Err x \<Rightarrow> fail x | Panic \<Rightarrow> pan)
            | (name, None) \<Rightarrow> at nid d name))"
  shows "op nid path =
      (case walk e h nid (butlast (comps path)) of
         Ok n \<Rightarrow>
           (case rh_node h n of
              None \<Rightarrow> pan
            | Some (FileNode _) \<Rightarrow> fail e
            | Some (DirNode d) \<Rightarrow> at n d (last (comps path)))
       | Err x \<Rightarrow> fail x
       | Panic \<Rightarrow> pan)"
proof (induction path arbitrary: nid rule: length_induct)
  case (1 path)
  note IH = "1" [rule_format]
  show ?case
  proof (cases path)
    case Nil
    then show ?thesis by (auto simp: unfold [of nid] split: option.split ram_node.split)
  next
    case (Cons c p)
    show ?thesis
    proof (cases "c = slash")
      case True
      have sp: "split_path path = split_path p" using True Cons by simp
      have "op nid path = op nid p" by (simp only: unfold [of nid path] unfold [of nid p] sp)
      moreover have "op nid p = pan" if "rh_node h nid = None" using that by (simp add: unfold [of nid])
      moreover have "op nid p = fail e" if "rh_node h nid = Some (FileNode f)" for f
        using that by (simp add: unfold [of nid])
      moreover have cs: "butlast (comps path) = [] # butlast (comps p)" "last (comps path) = last (comps p)"
        using True Cons by simp_all
      ultimately show ?thesis
        unfolding cs using IH [of p nid] Cons
        by (cases "rh_node h nid") (auto simp: walk_step_def split: ram_node.split)
    next
      case False
      obtain name rest where s: "split_path path = (name, rest)" by fastforce
      note cs = split_path_comps [OF False s [unfolded Cons], folded Cons]
      show ?thesis
      proof (cases rest)
        case None
        then show ?thesis using s cs by (auto simp: unfold [of nid path] split: option.split ram_node.split)
      next
        case (Some r)
        have len: "length r < length path" using s Some by (simp add: split_path_shorter)
        have "op nid path =
            (case walk_step e h nid name of Ok n \<Rightarrow> op n r | Err x \<Rightarrow> fail x | Panic \<Rightarrow> pan)"
          using s Some by (simp add: unfold [of nid path] walk_step_def split: option.split ram_node.split)
        moreover have bl: "butlast (comps path) = name # butlast (comps r)"
            "last (comps path) = last (comps r)"
          using cs(1) Some by simp_all
        ultimately show ?thesis
          unfolding bl using IH [OF len] by (cases "walk_step e h nid name") simp_all
      qed
    qed
  qed
qed

section \<open>The operations as walks\<close>

definition create_at ::
    "ram_heap \<Rightarrow> nat \<Rightarrow> dir_node \<Rightarrow> string \<Rightarrow> vfs_node_type \<Rightarrow> (ax_error, unit) outcome \<times> ram_heap" where
  "create_at h nid d name ty =
     (if name = '''' \<or> name = ''.'' \<or> name = ''..'' then (Ok (), h) else dir_create_node h nid d name ty)"

definition remove_at ::
    "ram_heap \<Rightarrow> nat \<Rightarrow> dir_node \<Rightarrow> string \<Rightarrow> (ax_error, unit) outcome \<times> ram_heap" where
  "remove_at h nid d name =
     (if name = '''' \<or> name = ''.'' \<or> name = ''..'' then (Err InvalidInput, h)
      else dir_remove_node h nid d name)"

definition rename_at ::
    "ram_heap \<Rightarrow> nat \<Rightarrow> dir_node \<Rightarrow> string \<Rightarrow> string \<Rightarrow> (ax_error, unit) outcome \<times> ram_heap" where
  "rename_at h nid d src dst =
     (case map_of (dn_children d) src of
        None \<Rightarrow> (Err NotFound, h)
      | Some node \<Rightarrow>
          if map_of (dn_children d) dst \<noteq> None then (Err AlreadyExists, h)
          else (Ok (), heap_set h nid (DirNode (d\<lparr>dn_children :=
                  bt_insert dst node (bt_remove src (dn_children d))\<rparr>))))"

lemma after_last_slash_Cons:
  "after_last_slash (c # s) =
     (if slash \<in> set s then after_last_slash s else if c = slash then s else c # s)"
proof (cases "slash \<in> set s")
  case True
  then show ?thesis by (simp add: after_last_slash_def takeWhile_append1)
next
  case False
  then have "takeWhile (\<lambda>c. c \<noteq> slash) (rev s) = rev s" by (auto simp: takeWhile_eq_all_conv)
  with False show ?thesis by (auto simp: after_last_slash_def takeWhile_append)
qed

lemma after_last_slash_comps: "after_last_slash s = last (comps s)"
proof (induction s)
  case (Cons c s)
  have len: "slash \<in> set s \<longleftrightarrow> tl (comps s) \<noteq> []"
    by (induction s) auto
  have "last (comps s) = last (tl (comps s))" if "tl (comps s) \<noteq> []"
    using that by (cases "comps s") auto
  moreover have "comps s = [s]" if "slash \<notin> set s" using that by (rule comps_single)
  ultimately show ?case using Cons len by (auto simp: after_last_slash_Cons)
qed (simp add: after_last_slash_def)

lemma last_comps_trim: "last (comps (trim_slashes s)) = last (comps s)"
  by (induction s) (auto simp: trim_slashes_def)

lemma node_lookup_unfold:
  assumes "documented_defaults D"
  shows "node_lookup D h nid path =
      (case rh_node h nid of
         None \<Rightarrow> Panic
       | Some (FileNode _) \<Rightarrow> Err NotADirectory
       | Some (DirNode d) \<Rightarrow>
           (case split_path path of
              (name, Some rest) \<Rightarrow>
                (case walk_step NotADirectory h nid name of
                   Ok n \<Rightarrow> node_lookup D h n rest | Err x \<Rightarrow> Err x | Panic \<Rightarrow> Panic)
            | (name, None) \<Rightarrow> walk_step NotADirectory h nid name))"
proof (cases "rh_node h nid")
  case (Some node)
  obtain name rest where "split_path path = (name, rest)" by fastforce
  with Some show ?thesis
    using assms unfolding node_lookup.simps [of D h nid path] walk_step_def documented_defaults_def
    by (cases node; cases rest) (simp_all only: option.case ram_node.case prod.case and_then_case [symmetric]
        and_then_Ok_id)
qed (simp add: node_lookup.simps)

lemma node_lookup_walk:
  assumes "documented_defaults D"
  shows "node_lookup D h nid path = walk NotADirectory h nid (comps path)"
proof -
  have "node_lookup D h nid path =
      (case walk NotADirectory h nid (butlast (comps path)) of
         Ok n \<Rightarrow>
           (case rh_node h n of
              None \<Rightarrow> Panic
            | Some (FileNode _) \<Rightarrow> Err NotADirectory
            | Some (DirNode d) \<Rightarrow> walk_step NotADirectory h n (last (comps path)))
       | Err x \<Rightarrow> Err x
       | Panic \<Rightarrow> Panic)"
    by (rule walker_eq [OF node_lookup_unfold [OF assms]])
  also have "\<dots> = and_then (walk NotADirectory h nid (butlast (comps path)))
      (\<lambda>n. walk NotADirectory h n [last (comps path)])"
    by (auto simp: and_then_case walk_step_def split: outcome.split option.split ram_node.split)
  also have "\<dots> = walk NotADirectory h nid (butlast (comps path) @ [last (comps path)])"
    by (simp only: walk_append)
  finally show ?thesis by (simp only: append_butlast_last_id comps_not_Nil not_False_eq_True)
qed

lemma node_create_walk:
  assumes "documented_defaults D"
  shows "node_create D h nid path ty =
      (case walk NotADirectory h nid (butlast (comps path)) of
         Ok n \<Rightarrow>
           (case rh_node h n of
              None \<Rightarrow> (Panic, h)
            | Some (FileNode _) \<Rightarrow> (Err NotADirectory, h)
            | Some (DirNode d) \<Rightarrow> create_at h n d (last (comps path)) ty)
       | Err x \<Rightarrow> (Err x, h)
       | Panic \<Rightarrow> (Panic, h))"
proof (rule walker_eq [where op = "\<lambda>nid path. node_create D h nid path ty"])
  fix nid path
  obtain name rest where "split_path path = (name, rest)" by fastforce
  then show "node_create D h nid path ty =
      (case rh_node h nid of
         None \<Rightarrow> (Panic, h)
       | Some (FileNode _) \<Rightarrow> (Err NotADirectory, h)
       | Some (DirNode d) \<Rightarrow>
           (case split_path path of
              (name, Some rest) \<Rightarrow>
                (case walk_step NotADirectory h nid name of
                   Ok n \<Rightarrow> node_create D h n rest ty | Err x \<Rightarrow> (Err x, h) | Panic \<Rightarrow> (Panic, h))
            | (name, None) \<Rightarrow> create_at h nid d name ty))"
    using assms unfolding node_create.simps [of D h nid path ty] documented_defaults_def
    by (cases rest) (auto simp: walk_step_def create_at_def ok_or_def split: option.split ram_node.split)
qed

lemma node_remove_walk:
  assumes "documented_defaults D"
  shows "node_remove D h nid path =
      (case walk NotADirectory h nid (butlast (comps path)) of
         Ok n \<Rightarrow>
           (case rh_node h n of
              None \<Rightarrow> (Panic, h)
            | Some (FileNode _) \<Rightarrow> (Err NotADirectory, h)
            | Some (DirNode d) \<Rightarrow> remove_at h n d (last (comps path)))
       | Err x \<Rightarrow> (Err x, h)
       | Panic \<Rightarrow> (Panic, h))"
proof (rule walker_eq [where op = "\<lambda>nid path. node_remove D h nid path"])
  fix nid path
  obtain name rest where "split_path path = (name, rest)" by fastforce
  then show "node_remove D h nid path =
      (case rh_node h nid of
         None \<Rightarrow> (Panic, h)
       | Some (FileNode _) \<Rightarrow> (Err NotADirectory, h)
       | Some (DirNode d) \<Rightarrow>
           (case split_path path of
              (name, Some rest) \<Rightarrow>
                (case walk_step NotADirectory h nid name of
                   Ok n \<Rightarrow> node_remove D h n rest | Err x \<Rightarrow> (Err x, h) | Panic \<Rightarrow> (Panic, h))
            | (name, None) \<Rightarrow> remove_at h nid d name))"
    using assms unfolding node_remove.simps [of D h nid path] documented_defaults_def
    by (cases rest) (auto simp: walk_step_def remove_at_def ok_or_def split: option.split ram_node.split)
qed

lemma node_rename_walk:
  assumes "documented_defaults D"
  shows "node_rename D h nid src dst =
      (case walk Unsupported h nid (butlast (comps src)) of
         Ok n \<Rightarrow>
           (case rh_node h n of
              None \<Rightarrow> (Panic, h)
            | Some (FileNode _) \<Rightarrow> (Err Unsupported, h)
            | Some (DirNode d) \<Rightarrow> rename_at h n d (last (comps src)) (last (comps dst)))
       | Err x \<Rightarrow> (Err x, h)
       | Panic \<Rightarrow> (Panic, h))"
proof (rule walker_eq [where op = "\<lambda>nid src. node_rename D h nid src dst"])
  fix nid path
  obtain name rest where "split_path path = (name, rest)" by fastforce
  then show "node_rename D h nid path dst =
      (case rh_node h nid of
         None \<Rightarrow> (Panic, h)
       | Some (FileNode _) \<Rightarrow> (Err Unsupported, h)
       | Some (DirNode d) \<Rightarrow>
           (case split_path path of
              (name, Some rest) \<Rightarrow>
                (case walk_step Unsupported h nid name of
                   Ok n \<Rightarrow> node_rename D h n rest dst | Err x \<Rightarrow> (Err x, h) | Panic \<Rightarrow> (Panic, h))
            | (name, None) \<Rightarrow> rename_at h nid d name (last (comps dst))))"
    using assms unfolding node_rename.simps [of D h nid path dst] documented_defaults_def
      after_last_slash_comps last_comps_trim
    by (cases rest)
      (auto simp: walk_step_def rename_at_def ok_or_def dir_exist_def split: option.split ram_node.split)
qed

end
