(* ===== verification/Ramfs_Tree.thy ===== *)
theory Ramfs_Tree
  imports Ramfs_Paths
begin

text \<open>
  The heap of the RAM file system stays a forest: the invariant, the steps of every instance and of
  the reference counts, and the effect of the operations on what paths resolve to.
\<close>

section \<open>Entries\<close>

definition child :: "ram_heap \<Rightarrow> nat \<Rightarrow> string \<Rightarrow> nat option" where
  "child h p n = (case rh_node h p of Some (DirNode d) \<Rightarrow> map_of (dn_children d) n | _ \<Rightarrow> None)"

record ram_world =
  rw_heap :: ram_heap
  rw_fs :: "ram_file_system list"

text \<open>
  The invariant: identifiers in use were handed out; the entries of a directory are in order, name
  live nodes younger than the directory, and a directory found there has it as its parent; no node
  has two entries; the root of an instance is a directory without an entry; files are no longer
  than a vector can be.
\<close>

definition heap_inv :: "ram_heap \<Rightarrow> bool" where
  "heap_inv h \<longleftrightarrow>
     (\<forall>i. rh_next h \<le> i \<longrightarrow> rh_node h i = None) \<and>
     (\<forall>p d. rh_node h p = Some (DirNode d) \<longrightarrow> bt_inv (dn_children d)) \<and>
     (\<forall>p n c. child h p n = Some c \<longrightarrow> p < c \<and> rh_node h c \<noteq> None \<and> slash \<notin> set n) \<and>
     (\<forall>p n c d. child h p n = Some c \<longrightarrow> rh_node h c = Some (DirNode d) \<longrightarrow> dn_parent d = Some p) \<and>
     (\<forall>p n p' n' c. child h p n = Some c \<longrightarrow> child h p' n' = Some c \<longrightarrow> p = p' \<and> n = n') \<and>
     (\<forall>i f. rh_node h i = Some (FileNode f) \<longrightarrow> length f < 2 ^ 63)"

definition root_of :: "ram_heap \<Rightarrow> nat \<Rightarrow> bool" where
  "root_of h r \<longleftrightarrow> (\<exists>d. rh_node h r = Some (DirNode d)) \<and> (\<forall>p n. child h p n \<noteq> Some r)"

definition ram_inv :: "ram_world \<Rightarrow> bool" where
  "ram_inv w \<longleftrightarrow> heap_inv (rw_heap w) \<and> (\<forall>fs \<in> set (rw_fs w). root_of (rw_heap w) (rf_root fs))"

lemma heap_invD:
  assumes "heap_inv h"
  shows "rh_next h \<le> i \<Longrightarrow> rh_node h i = None"
    and "rh_node h p = Some (DirNode d) \<Longrightarrow> bt_inv (dn_children d)"
    and "child h p n = Some c \<Longrightarrow> p < c"
    and "child h p n = Some c \<Longrightarrow> rh_node h c \<noteq> None"
    and "child h p n = Some c \<Longrightarrow> slash \<notin> set n"
    and "child h p n = Some c \<Longrightarrow> rh_node h c = Some (DirNode d) \<Longrightarrow> dn_parent d = Some p"
    and "child h p n = Some c \<Longrightarrow> child h p' n' = Some c \<Longrightarrow> p = p' \<and> n = n'"
    and "rh_node h i = Some (FileNode f) \<Longrightarrow> length f < 2 ^ 63"
  using assms unfolding heap_inv_def by blast+

lemma child_dir: "rh_node h p = Some (DirNode d) \<Longrightarrow> child h p n = map_of (dn_children d) n"
  by (simp add: child_def)

lemma child_heap_set_dir:
  "child (heap_set h nid (DirNode d)) p n = (if p = nid then map_of (dn_children d) n else child h p n)"
  by (simp add: child_def heap_set_def)

lemma child_heap_set_file:
  assumes "rh_node h nid = Some (FileNode f)"
  shows "child (heap_set h nid (FileNode f')) p n = child h p n"
  using assms by (simp add: child_def heap_set_def)

lemma rh_node_heap_set: "rh_node (heap_set h nid x) i = (if i = nid then Some x else rh_node h i)"
  by (simp add: heap_set_def)

section \<open>Steps\<close>

text \<open>
  A step is one operation on a live node by whoever holds it, a new instance, a mount, or the end
  of a node: its last strong reference is gone when no instance has it as its root and no directory
  has an entry for it (and no one else holds it).
\<close>

inductive ram_step :: "nat vfs_defaults \<Rightarrow> ram_world \<Rightarrow> ram_world \<Rightarrow> bool" for D where
  step_new: "ramfs_new (rw_heap w) = (fs, h') \<Longrightarrow>
    ram_step D w \<lparr>rw_heap = h', rw_fs = rw_fs w @ [fs]\<rparr>"
| step_mount: "i < length (rw_fs w) \<Longrightarrow> rh_node (rw_heap w) m \<noteq> None \<Longrightarrow>
    ramfs_mount D (rw_heap w) (rw_fs w ! i) path m = (r, fs', h') \<Longrightarrow>
    ram_step D w \<lparr>rw_heap = h', rw_fs = (rw_fs w)[i := fs']\<rparr>"
| step_create: "rh_node (rw_heap w) nid \<noteq> None \<Longrightarrow>
    node_create D (rw_heap w) nid path ty = (r, h') \<Longrightarrow> ram_step D w (w\<lparr>rw_heap := h'\<rparr>)"
| step_remove: "rh_node (rw_heap w) nid \<noteq> None \<Longrightarrow>
    node_remove D (rw_heap w) nid path = (r, h') \<Longrightarrow> ram_step D w (w\<lparr>rw_heap := h'\<rparr>)"
| step_rename: "rh_node (rw_heap w) nid \<noteq> None \<Longrightarrow>
    node_rename D (rw_heap w) nid src dst = (r, h') \<Longrightarrow> ram_step D w (w\<lparr>rw_heap := h'\<rparr>)"
| step_write: "rh_node (rw_heap w) nid \<noteq> None \<Longrightarrow> length buf < 2 ^ 63 \<Longrightarrow>
    node_write_at D (rw_heap w) nid off buf = (r', h') \<Longrightarrow> ram_step D w (w\<lparr>rw_heap := h'\<rparr>)"
| step_truncate: "rh_node (rw_heap w) nid \<noteq> None \<Longrightarrow>
    node_truncate D (rw_heap w) nid len = (r, h') \<Longrightarrow> ram_step D w (w\<lparr>rw_heap := h'\<rparr>)"
| step_drop: "(\<forall>fs \<in> set (rw_fs w). rf_root fs \<noteq> nid) \<Longrightarrow> (\<forall>p n. child (rw_heap w) p n \<noteq> Some nid) \<Longrightarrow>
    ram_step D w (w\<lparr>rw_heap := (rw_heap w)\<lparr>rh_node := (rh_node (rw_heap w))(nid := None)\<rparr>\<rparr>)"

inductive ram_reachable :: "nat vfs_defaults \<Rightarrow> ram_world \<Rightarrow> bool" for D where
  ram_start: "ram_reachable D \<lparr>rw_heap = heap_empty, rw_fs = []\<rparr>"
| ram_next: "ram_reachable D w \<Longrightarrow> ram_step D w w' \<Longrightarrow> ram_reachable D w'"

section \<open>Every step keeps the invariant\<close>

text \<open>What the operations do to the heap, as a relation that keeps the invariant.\<close>

lemma heap_inv_children:
  assumes inv: "heap_inv h" and d: "rh_node h nid = Some (DirNode d)" and m: "bt_inv m"
    and sub: "\<And>n c. map_of m n = Some c \<Longrightarrow> \<exists>n'. child h nid n' = Some c"
    and inj: "\<And>n n' c. map_of m n = Some c \<Longrightarrow> map_of m n' = Some c \<Longrightarrow> n = n'"
    and sl: "\<And>n c. map_of m n = Some c \<Longrightarrow> slash \<notin> set n"
    and h': "h' = heap_set h nid (DirNode (d\<lparr>dn_children := m\<rparr>))"
  shows "heap_inv h'" and "root_of h r \<Longrightarrow> root_of h' r"
proof -
  note set = rh_node_heap_set [of h nid "DirNode (d\<lparr>dn_children := m\<rparr>)", folded h']
  have ch: "child h' p n = (if p = nid then map_of m n else child h p n)" for p n
    by (simp add: h' child_heap_set_dir)
  have old: "\<exists>n'. child h p n' = Some c" if "child h' p n = Some c" for p n c
    using that sub by (auto simp: ch split: if_splits)
  have node: "rh_node h' c = Some (DirNode d') \<Longrightarrow> \<exists>d0. rh_node h c = Some (DirNode d0) \<and> dn_parent d0 = dn_parent d'" for c d'
    using d by (auto simp: set split: if_splits)
  have next_id: "rh_next h' = rh_next h" by (simp add: h' heap_set_def)
  show "heap_inv h'"
    unfolding heap_inv_def
  proof (intro conjI allI impI)
    show "rh_node h' i = None" if "rh_next h' \<le> i" for i
      using that heap_invD(1) [OF inv, of i] heap_invD(1) [OF inv, of nid] d
      by (auto simp: set next_id)
    show "bt_inv (dn_children d')" if "rh_node h' p = Some (DirNode d')" for p d'
      using that heap_invD(2) [OF inv, of p] m by (auto simp: set split: if_splits)
    show "p < c" if "child h' p n = Some c" for p n c
      using old [OF that] heap_invD(3) [OF inv] by blast
    show "rh_node h' c \<noteq> None" if "child h' p n = Some c" for p n c
      using old [OF that] heap_invD(4) [OF inv] by (auto simp: set)
    show "slash \<notin> set n" if "child h' p n = Some c" for p n c
      using that sl heap_invD(5) [OF inv] by (auto simp: ch split: if_splits)
    show "dn_parent d' = Some p" if "child h' p n = Some c" "rh_node h' c = Some (DirNode d')" for p n c d'
      using old [OF that(1)] node [OF that(2)] heap_invD(6) [OF inv] by metis
    show "p = p'" if "child h' p n = Some c" "child h' p' n' = Some c" for p n p' n' c
      using old [OF that(1)] old [OF that(2)] heap_invD(7) [OF inv] by blast
    then show "n = n'" if "child h' p n = Some c" "child h' p' n' = Some c" for p n p' n' c
      using that inj heap_invD(7) [OF inv] by (metis ch)
    show "length f < 2 ^ 63" if "rh_node h' i = Some (FileNode f)" for i f
      using that heap_invD(8) [OF inv] by (auto simp: set split: if_splits)
  qed
  show "root_of h' r" if "root_of h r"
    using that old by (fastforce simp: root_of_def set)
qed

lemma heap_fresh: "heap_inv h \<Longrightarrow> rh_node h (rh_next h) = None"
  by (simp add: heap_invD(1))

lemma create_effect:
  assumes inv: "heap_inv h" and d: "rh_node h nid = Some (DirNode d)"
    and x: "x = FileNode [] \<or> x = dir_new (Some nid)"
    and h': "h' = heap_set (snd (heap_add h x)) nid
        (DirNode (d\<lparr>dn_children := bt_insert name (rh_next h) (dn_children d)\<rparr>))"
  shows "rh_node h' = (rh_node h)(rh_next h \<mapsto> x,
      nid \<mapsto> DirNode (d\<lparr>dn_children := bt_insert name (rh_next h) (dn_children d)\<rparr>))"
    and "rh_next h' = Suc (rh_next h)" and "nid < rh_next h"
    and "child h' p n = (if p = nid \<and> n = name then Some (rh_next h) else child h p n)"
proof -
  show lt: "nid < rh_next h" using d heap_invD(1) [OF inv, of nid] by (cases "nid < rh_next h") auto
  show nodes: "rh_node h' = (rh_node h)(rh_next h \<mapsto> x,
      nid \<mapsto> DirNode (d\<lparr>dn_children := bt_insert name (rh_next h) (dn_children d)\<rparr>))"
    by (simp add: h' heap_set_def heap_add_def)
  show "rh_next h' = Suc (rh_next h)" by (simp add: h' heap_set_def heap_add_def)
  show "child h' p n = (if p = nid \<and> n = name then Some (rh_next h) else child h p n)"
    using lt x d heap_fresh [OF inv] heap_invD(2) [OF inv d]
    by (auto simp: child_def nodes dir_new_def bt.get_insert)
qed

lemma heap_inv_create:
  assumes inv: "heap_inv h" and d: "rh_node h nid = Some (DirNode d)"
    and free: "map_of (dn_children d) name = None" and sl: "slash \<notin> set name"
    and x: "x = FileNode [] \<or> x = dir_new (Some nid)"
    and h': "h' = heap_set (snd (heap_add h x)) nid
        (DirNode (d\<lparr>dn_children := bt_insert name (rh_next h) (dn_children d)\<rparr>))"
  shows "heap_inv h'" and "root_of h r \<Longrightarrow> root_of h' r"
proof -
  note eff = create_effect [OF inv d x h']
  let ?new = "rh_next h"
  have not_new: "c \<noteq> ?new" if "child h p n = Some c" for p n c
    using heap_invD(4) [OF inv that] heap_fresh [OF inv] by auto
  have old_free: "child h nid name = None" using free d by (simp add: child_dir)
  show "heap_inv h'"
    unfolding heap_inv_def
  proof (intro conjI allI impI)
    show "rh_node h' i = None" if "rh_next h' \<le> i" for i
      using that eff(3) heap_invD(1) [OF inv, of i] by (simp add: eff(1,2))
    show "bt_inv (dn_children d')" if "rh_node h' p = Some (DirNode d')" for p d'
      using that x heap_invD(2) [OF inv] bt.inv_insert [OF heap_invD(2) [OF inv d]]
      by (auto simp: eff(1) dir_new_def bt.inv_empty split: if_splits)
    show "p < c" if "child h' p n = Some c" for p n c
      using that eff(3) heap_invD(3) [OF inv] by (auto simp: eff(4) split: if_splits)
    show "rh_node h' c \<noteq> None" if "child h' p n = Some c" for p n c
      using that heap_invD(4) [OF inv] by (auto simp: eff(1,4) split: if_splits)
    show "slash \<notin> set n" if "child h' p n = Some c" for p n c
      using that sl heap_invD(5) [OF inv] by (auto simp: eff(4) split: if_splits)
    show "dn_parent d' = Some p" if "child h' p n = Some c" "rh_node h' c = Some (DirNode d')" for p n c d'
    proof (cases "c = ?new")
      case True
      then have "p = nid" using that(1) not_new by (auto simp: eff(4) split: if_splits)
      with True that(2) eff(3) x show ?thesis by (auto simp: eff(1) dir_new_def)
    next
      case False
      then have "child h p n = Some c" using that(1) by (auto simp: eff(4) split: if_splits)
      with False that(2) d heap_invD(6) [OF inv] show ?thesis
        by (auto simp: eff(1) split: if_splits)
    qed
    show "p = p'" "n = n'" if "child h' p n = Some c" "child h' p' n' = Some c" for p n p' n' c
      using that not_new old_free heap_invD(7) [OF inv, of p n c p' n']
      by (auto simp: eff(4) split: if_splits)
    show "length f < 2 ^ 63" if "rh_node h' i = Some (FileNode f)" for i f
      using that x heap_invD(8) [OF inv] by (auto simp: eff(1) dir_new_def split: if_splits)
  qed
  show "root_of h' r" if r: "root_of h r"
  proof -
    have "r \<noteq> ?new" using r heap_fresh [OF inv] by (auto simp: root_of_def)
    then show ?thesis using r by (auto simp: root_of_def eff(1,4))
  qed
qed

lemma heap_inv_same_shape:
  assumes inv: "heap_inv h" and len: "length f' < 2 ^ 63" and f: "rh_node h nid = Some (FileNode f)"
  shows "heap_inv (heap_set h nid (FileNode f'))"
    and "root_of h r \<Longrightarrow> root_of (heap_set h nid (FileNode f')) r"
proof -
  have next_id: "rh_next (heap_set h nid (FileNode f')) = rh_next h" by (simp add: heap_set_def)
  have "nid < rh_next h" using f heap_invD(1) [OF inv, of nid] by (cases "nid < rh_next h") auto
  then show "heap_inv (heap_set h nid (FileNode f'))"
    using inv len f unfolding heap_inv_def child_heap_set_file [OF f] next_id rh_node_heap_set
    by auto
  show "root_of h r \<Longrightarrow> root_of (heap_set h nid (FileNode f')) r"
    using f by (auto simp: root_of_def child_heap_set_file rh_node_heap_set)
qed

lemma heap_inv_set_parent:
  assumes inv: "heap_inv h" and r: "root_of h nid"
  shows "heap_inv (dir_set_parent h nid parent)"
    and "root_of h r' \<Longrightarrow> root_of (dir_set_parent h nid parent) r'"
proof -
  obtain d where d: "rh_node h nid = Some (DirNode d)" using r by (auto simp: root_of_def)
  let ?h = "dir_set_parent h nid parent"
  have eq: "?h = heap_set h nid (DirNode (d\<lparr>dn_parent := parent\<rparr>))"
    by (simp add: dir_set_parent_def d)
  have ch: "child ?h p n = child h p n" for p n
    using d by (simp add: eq child_heap_set_dir child_dir)
  have next_id: "rh_next ?h = rh_next h" by (simp add: eq heap_set_def)
  have nodes: "rh_node ?h i = (if i = nid then Some (DirNode (d\<lparr>dn_parent := parent\<rparr>)) else rh_node h i)" for i
    by (simp add: eq rh_node_heap_set)
  have "nid < rh_next h" using d heap_invD(1) [OF inv, of nid] by (cases "nid < rh_next h") auto
  moreover have "bt_inv (dn_children d)" by (rule heap_invD(2) [OF inv d])
  moreover have "child h p n \<noteq> Some nid" for p n using r by (auto simp: root_of_def)
  ultimately show "heap_inv ?h"
    using inv unfolding heap_inv_def ch next_id nodes by (auto split: if_splits)
  show "root_of h r' \<Longrightarrow> root_of ?h r'"
    by (auto simp: root_of_def ch nodes)
qed

lemma last_comps_no_slash: "slash \<notin> set (last (comps p))"
  by (rule comps_no_slash [of _ p]) simp

lemma create_at_inv:
  assumes inv: "heap_inv h" and d: "rh_node h nid = Some (DirNode d)" and sl: "slash \<notin> set name"
    and op: "create_at h nid d name ty = (r, h')"
  shows "heap_inv h'" and "root_of h x \<Longrightarrow> root_of h' x"
proof -
  consider "h' = h"
    | node where "node = FileNode [] \<or> node = dir_new (Some nid)" "map_of (dn_children d) name = None"
        "h' = heap_set (snd (heap_add h node)) nid
           (DirNode (d\<lparr>dn_children := bt_insert name (rh_next h) (dn_children d)\<rparr>))"
    using op
    by (cases ty) (auto simp: create_at_def dir_create_node_def dir_exist_def heap_add_def file_new_def
        split: if_splits)
  then have "heap_inv h' \<and> (root_of h x \<longrightarrow> root_of h' x)"
    using heap_inv_create [OF inv d _ sl, of _ h'] inv by cases auto
  then show "heap_inv h'" and "root_of h x \<Longrightarrow> root_of h' x" by auto
qed

lemma remove_at_inv:
  assumes inv: "heap_inv h" and d: "rh_node h nid = Some (DirNode d)"
    and op: "remove_at h nid d name = (r, h')"
  shows "heap_inv h'" and "root_of h x \<Longrightarrow> root_of h' x"
proof -
  let ?m = "bt_remove name (dn_children d)"
  consider "h' = h" | "h' = heap_set h nid (DirNode (d\<lparr>dn_children := ?m\<rparr>))"
    using op by (auto simp: remove_at_def dir_remove_node_def split: if_splits option.splits)
  moreover have get: "map_of ?m n = (if n = name then None else child h nid n)" for n
    using d by (simp add: bt_remove_get child_dir)
  have "heap_inv (heap_set h nid (DirNode (d\<lparr>dn_children := ?m\<rparr>)))"
    by (rule heap_inv_children(1) [OF inv d bt.inv_remove [OF heap_invD(2) [OF inv d]] _ _ _ refl])
      (auto simp: get split: if_splits dest: heap_invD(7) [OF inv] heap_invD(5) [OF inv])
  moreover have "root_of (heap_set h nid (DirNode (d\<lparr>dn_children := ?m\<rparr>))) x" if "root_of h x"
    by (rule heap_inv_children(2) [OF inv d bt.inv_remove [OF heap_invD(2) [OF inv d]] _ _ _ refl that])
      (auto simp: get split: if_splits dest: heap_invD(7) [OF inv] heap_invD(5) [OF inv])
  ultimately show "heap_inv h'" and "root_of h x \<Longrightarrow> root_of h' x"
    using inv by auto
qed

lemma rename_get:
  assumes "heap_inv h" and "rh_node h nid = Some (DirNode d)" and "map_of (dn_children d) src = Some c"
    and "map_of (dn_children d) dst = None"
  shows "map_of (bt_insert dst c (bt_remove src (dn_children d))) = (child h nid)(src := None, dst \<mapsto> c)"
proof -
  have "child h nid = map_of (dn_children d)" using assms(2) by (simp add: child_dir fun_eq_iff)
  then show ?thesis using bt.get_move [OF heap_invD(2) [OF assms(1,2)] assms(4,3)] by simp
qed

lemma rename_at_inv:
  assumes inv: "heap_inv h" and d: "rh_node h nid = Some (DirNode d)" and sl: "slash \<notin> set dst"
    and op: "rename_at h nid d src dst = (r, h')"
  shows "heap_inv h'" and "root_of h x \<Longrightarrow> root_of h' x"
proof -
  let ?m = "\<lambda>c. bt_insert dst c (bt_remove src (dn_children d))"
  consider "h' = h"
    | c where "map_of (dn_children d) src = Some c" "map_of (dn_children d) dst = None"
        "h' = heap_set h nid (DirNode (d\<lparr>dn_children := ?m c\<rparr>))"
    using op by (auto simp: rename_at_def split: if_splits option.splits)
  then have "heap_inv h' \<and> (root_of h x \<longrightarrow> root_of h' x)"
  proof cases
    case 1
    then show ?thesis using inv by simp
  next
    case (2 c)
    have src: "child h nid src = Some c" using 2 d by (simp add: child_dir)
    note get = rename_get [OF inv d 2(1,2)]
    have m: "bt_inv (?m c)"
      by (intro bt.inv_insert bt.inv_remove) (rule heap_invD(2) [OF inv d])
    have *: "\<exists>n'. child h nid n' = Some c'" "slash \<notin> set n" if "map_of (?m c) n = Some c'" for n c'
      using that src sl heap_invD(5) [OF inv] by (auto simp: get split: if_splits)
    have **: "n = n'" if "map_of (?m c) n = Some c'" "map_of (?m c) n' = Some c'" for n n' c'
      using that src heap_invD(7) [OF inv] by (auto simp: get split: if_splits)
    have "heap_inv h'"
      by (rule heap_inv_children(1) [OF inv d m _ _ _ 2(3)]) (use * ** in blast)+
    moreover have "root_of h' x" if "root_of h x"
      by (rule heap_inv_children(2) [OF inv d m _ _ _ 2(3) that]) (use * ** in blast)+
    ultimately show ?thesis by blast
  qed
  then show "heap_inv h'" and "root_of h x \<Longrightarrow> root_of h' x" by auto
qed

lemma node_create_inv:
  assumes "documented_defaults D" and "heap_inv h" and "node_create D h nid path ty = (r, h')"
  shows "heap_inv h' \<and> (root_of h x \<longrightarrow> root_of h' x)"
  using assms create_at_inv [OF assms(2) _ last_comps_no_slash]
  by (auto simp: node_create_walk split: outcome.splits option.splits ram_node.splits)

lemma node_remove_inv:
  assumes "documented_defaults D" and "heap_inv h" and "node_remove D h nid path = (r, h')"
  shows "heap_inv h' \<and> (root_of h x \<longrightarrow> root_of h' x)"
  using assms remove_at_inv [OF assms(2)]
  by (auto simp: node_remove_walk split: outcome.splits option.splits ram_node.splits)

lemma node_rename_inv:
  assumes "documented_defaults D" and "heap_inv h" and "node_rename D h nid src dst = (r, h')"
  shows "heap_inv h' \<and> (root_of h x \<longrightarrow> root_of h' x)"
  using assms rename_at_inv [OF assms(2) _ last_comps_no_slash]
  by (auto simp: node_rename_walk split: outcome.splits option.splits ram_node.splits)

lemma vec_resize_length: "vec_resize n v xs = Ok ys \<Longrightarrow> length xs < 2 ^ 63 \<Longrightarrow> length ys < 2 ^ 63 \<and> length ys = n"
  by (auto simp: vec_resize_def split: if_splits)

lemma file_truncate_length:
  assumes "file_truncate f len = Ok f'" and "length f < 2 ^ 63"
  shows "length f' < 2 ^ 63"
  using assms vec_resize_length [of "unat len" 0 f f'] by (auto simp: file_truncate_def split: if_splits)

lemma file_write_at_length:
  assumes "file_write_at f off buf = Ok (n, f')" and "length f < 2 ^ 63" and "length buf < 2 ^ 63"
  shows "length f' < 2 ^ 63"
proof -
  let ?stop = "off + of_nat (length buf) :: u64"
  obtain g where g: "length g < 2 ^ 63" "off \<le> ?stop" "unat ?stop \<le> length g"
      "f' = take (unat off) g @ buf @ drop (unat off + length buf) g"
    using assms(1,2) vec_resize_length [of "unat ?stop" 0 f]
    by (auto simp: file_write_at_def and_then_eq_Ok Let_def not_less split: if_splits)
  have "unat (of_nat (length buf) :: u64) = length buf" using assms(3) by (subst unat_of_nat) simp
  moreover have "unat ?stop = unat off + unat (of_nat (length buf) :: u64)"
    using g(2) by (rule unat_plus_simple [THEN iffD1])
  ultimately show ?thesis using g by simp
qed

lemma heap_inv_new:
  assumes inv: "heap_inv h" and new: "ramfs_new h = (fs, h')"
  shows "heap_inv h'" and "root_of h' (rf_root fs)" and "root_of h r \<Longrightarrow> root_of h' r"
proof -
  have fs: "rf_root fs = rh_next h"
    and nodes: "rh_node h' = (rh_node h)(rh_next h \<mapsto> DirNode \<lparr>dn_parent = None, dn_children = []\<rparr>)"
    and next_id: "rh_next h' = Suc (rh_next h)"
    using new by (auto simp: ramfs_new_def heap_add_def dir_new_def)
  note fresh = heap_fresh [OF inv]
  have ch: "child h' p n = child h p n" for p n using fresh by (simp add: child_def nodes)
  have not_new: "child h p n \<noteq> Some (rh_next h)" for p n
    using heap_invD(4) [OF inv, of p n "rh_next h"] fresh by auto
  show "heap_inv h'"
    using inv bt.inv_empty not_new unfolding heap_inv_def ch next_id nodes by (auto split: if_splits)
  show "root_of h' (rf_root fs)" using not_new by (simp add: root_of_def ch nodes fs)
  show "root_of h r \<Longrightarrow> root_of h' r" using fresh by (auto simp: root_of_def ch nodes)
qed

lemma heap_inv_drop:
  assumes inv: "heap_inv h" and unref: "\<forall>p n. child h p n \<noteq> Some nid"
  shows "heap_inv (h\<lparr>rh_node := (rh_node h)(nid := None)\<rparr>)"
    and "root_of h r \<Longrightarrow> r \<noteq> nid \<Longrightarrow> root_of (h\<lparr>rh_node := (rh_node h)(nid := None)\<rparr>) r"
proof -
  have ch: "child (h\<lparr>rh_node := (rh_node h)(nid := None)\<rparr>) p n = (if p = nid then None else child h p n)" for p n
    by (simp add: child_def)
  show "heap_inv (h\<lparr>rh_node := (rh_node h)(nid := None)\<rparr>)"
    using inv unref unfolding heap_inv_def ch by (auto split: if_splits)
  show "root_of h r \<Longrightarrow> r \<noteq> nid \<Longrightarrow> root_of (h\<lparr>rh_node := (rh_node h)(nid := None)\<rparr>) r"
    by (auto simp: root_of_def ch)
qed

lemma ram_step_inv:
  assumes D: "documented_defaults D" and step: "ram_step D w w'" and inv: "ram_inv w"
  shows "ram_inv w'"
proof -
  have h: "heap_inv (rw_heap w)" and roots: "\<And>fs. fs \<in> set (rw_fs w) \<Longrightarrow> root_of (rw_heap w) (rf_root fs)"
    using inv by (auto simp: ram_inv_def)
  show ?thesis
    using step
  proof cases
    case (step_mount i m path r fs' h')
    have r: "root_of (rw_heap w) (rf_root (rw_fs w ! i))" using step_mount(2) roots by simp
    have "rf_root fs' = rf_root (rw_fs w ! i)" "\<exists>p. h' = dir_set_parent (rw_heap w) (rf_root (rw_fs w ! i)) p"
      using step_mount(4) by (auto simp: ramfs_mount_def Let_def split: option.splits)
    then show ?thesis
      using heap_inv_set_parent [OF h r] roots r step_mount(1,2)
      by (auto simp: ram_inv_def dest!: set_update_subset_insert [THEN subsetD])
  next
    case (step_create nid path ty r h')
    then show ?thesis using node_create_inv [OF D h step_create(3)] roots by (auto simp: ram_inv_def)
  next
    case (step_remove nid path r h')
    then show ?thesis using node_remove_inv [OF D h step_remove(3)] roots by (auto simp: ram_inv_def)
  next
    case (step_rename nid src dst r h')
    then show ?thesis using node_rename_inv [OF D h step_rename(3)] roots by (auto simp: ram_inv_def)
  next
    case (step_write nid buf off r' h')
    then show ?thesis
      using h roots heap_inv_same_shape [OF h] file_write_at_length heap_invD(8) [OF h]
      by (auto simp: ram_inv_def node_write_at_def split: option.splits ram_node.splits outcome.splits)
  next
    case (step_truncate nid len r h')
    then show ?thesis
      using h roots heap_inv_same_shape [OF h] file_truncate_length heap_invD(8) [OF h]
      by (auto simp: ram_inv_def node_truncate_def split: option.splits ram_node.splits outcome.splits)
  next
    case (step_new fs h')
    then show ?thesis using heap_inv_new [OF h step_new(2)] roots by (auto simp: ram_inv_def)
  next
    case (step_drop nid)
    then show ?thesis using heap_inv_drop [OF h step_drop(3)] roots by (auto simp: ram_inv_def)
  qed
qed

lemma ram_reachable_inv:
  assumes "ram_reachable D w" and "documented_defaults D"
  shows "ram_inv w"
  using assms
proof (induction rule: ram_reachable.induct)
  case ram_start
  show ?case by (simp add: ram_inv_def heap_inv_def heap_empty_def child_def)
next
  case (ram_next w w')
  then show ?case using ram_step_inv by blast
qed

section \<open>What a change of the tree does to paths\<close>

text \<open>
  \<open>grows h h'\<close>: every node of \<open>h\<close> is still there in \<open>h'\<close>, and every directory has at least its old
  entries. Then every path that resolved still resolves, to the same node.
\<close>

definition grows :: "ram_heap \<Rightarrow> ram_heap \<Rightarrow> bool" where
  "grows h h' \<longleftrightarrow>
     (\<forall>i f. rh_node h i = Some (FileNode f) \<longrightarrow> (\<exists>f'. rh_node h' i = Some (FileNode f'))) \<and>
     (\<forall>i d. rh_node h i = Some (DirNode d) \<longrightarrow>
        (\<exists>d'. rh_node h' i = Some (DirNode d') \<and> dn_parent d' = dn_parent d \<and>
           map_of (dn_children d) \<subseteq>\<^sub>m map_of (dn_children d')))"

lemma grows_live: "grows h h' \<Longrightarrow> rh_node h i \<noteq> None \<Longrightarrow> rh_node h' i \<noteq> None"
  unfolding grows_def by (metis not_None_eq ram_node.exhaust)

lemma walk_step_grows:
  assumes "grows h h'" and "walk_step e h nid c = Ok n"
  shows "walk_step e h' nid c = Ok n"
proof -
  obtain d where d: "rh_node h nid = Some (DirNode d)"
    using assms(2) by (auto simp: walk_step_def split: option.splits ram_node.splits)
  obtain d' where d': "rh_node h' nid = Some (DirNode d')" "dn_parent d' = dn_parent d"
      "map_of (dn_children d) \<subseteq>\<^sub>m map_of (dn_children d')"
    using assms(1) d unfolding grows_def by blast
  have "dir_parent h' d' = Some p" if "dir_parent h d = Some p" for p
    using that d'(2) grows_live [OF assms(1), of p] by (auto simp: dir_parent_def split: option.splits)
  moreover have "map_of (dn_children d') c = Some n'" if "map_of (dn_children d) c = Some n'" for n'
    using that d'(3) by (auto simp: map_le_def dom_def)
  ultimately show ?thesis using assms(2) d d'(1) by (auto simp: walk_step_def split: if_splits)
qed

lemma walk_grows: "grows h h' \<Longrightarrow> walk e h nid cs = Ok n \<Longrightarrow> walk e h' nid cs = Ok n"
  by (induction cs arbitrary: nid) (auto simp: and_then_eq_Ok dest: walk_step_grows)

lemma walk_Ok_butlast:
  assumes "walk e h nid (comps path) = Ok c"
  obtains p where "walk e h nid (butlast (comps path)) = Ok p" "walk_step e h p (last (comps path)) = Ok c"
proof -
  have "walk e h nid (butlast (comps path) @ [last (comps path)]) = Ok c"
    using assms by (simp only: append_butlast_last_id comps_not_Nil not_False_eq_True)
  then show ?thesis using that unfolding walk_append and_then_eq_Ok by auto
qed

lemma walk_butlast_step:
  "walk e h nid (butlast (comps path)) = Ok p \<Longrightarrow> walk e h nid (comps path) = walk_step e h p (last (comps path))"
  using walk_append [of e h nid "butlast (comps path)" "[last (comps path)]"]
  by (simp add: and_then_case split: outcome.splits)

lemma walk_step_ordinary:
  assumes "ordinary c" and "rh_node h p = Some (DirNode d)"
  shows "walk_step e h p c = ok_or NotFound (map_of (dn_children d) c)"
  using assms by (simp add: walk_step_def ordinary_def)

text \<open>The result of an operation on a path, from the walk to its directory.\<close>

lemma create_cases:
  assumes "documented_defaults D" and "node_create D h nid path ty = (r, h')" and "r = Ok ()"
    and "ordinary (last (comps path))"
  obtains p d x where "walk NotADirectory h nid (butlast (comps path)) = Ok p"
    "rh_node h p = Some (DirNode d)" "map_of (dn_children d) (last (comps path)) = None"
    "ty = TypeFile \<and> x = FileNode [] \<or> ty = TypeDir \<and> x = dir_new (Some p)"
    "h' = heap_set (snd (heap_add h x)) p
       (DirNode (d\<lparr>dn_children := bt_insert (last (comps path)) (rh_next h) (dn_children d)\<rparr>))"
  using assms(2-4) unfolding node_create_walk [OF assms(1)]
  by (cases ty)
    (auto simp: create_at_def dir_create_node_def dir_exist_def heap_add_def file_new_def ordinary_def
      split: outcome.splits option.splits ram_node.splits if_splits)

lemma create_grows:
  assumes inv: "heap_inv h" and d: "rh_node h p = Some (DirNode d)"
    and free: "map_of (dn_children d) name = None" and x: "x = FileNode [] \<or> x = dir_new (Some p)"
    and h': "h' = heap_set (snd (heap_add h x)) p
        (DirNode (d\<lparr>dn_children := bt_insert name (rh_next h) (dn_children d)\<rparr>))"
  shows "grows h h'"
proof -
  note eff = create_effect [OF inv d x h']
  have le: "map_of (dn_children d) \<subseteq>\<^sub>m map_of (bt_insert name (rh_next h) (dn_children d))"
    using free bt.get_insert [OF heap_invD(2) [OF inv d]] by (auto simp: map_le_def)
  have new: "rh_node h (rh_next h) = None" by (rule heap_fresh [OF inv])
  show ?thesis
    unfolding grows_def using d le new eff(3) by (auto simp: eff(1))
qed

section \<open>Properties\<close>

text \<open>
  C3. In every state the file systems can reach, the entries form a forest: no node is reached by two
  entries, there is no cycle, every entry names a live node, and \<^verbatim>\<open>..\<close> in a directory leads back to the
  directory that has the entry. Directories list their entries in order, each name once.
\<close>

theorem ram_forest:
  assumes "documented_defaults D" and "ram_reachable D w"
  shows "acyclic {(p, c). \<exists>n. child (rw_heap w) p n = Some c} \<and>
    (\<forall>p n p' n' c. child (rw_heap w) p n = Some c \<longrightarrow> child (rw_heap w) p' n' = Some c \<longrightarrow> p = p' \<and> n = n') \<and>
    (\<forall>p n c. child (rw_heap w) p n = Some c \<longrightarrow> rh_node (rw_heap w) c \<noteq> None \<and>
       (\<forall>d. rh_node (rw_heap w) c = Some (DirNode d) \<longrightarrow> node_lookup D (rw_heap w) c ''..'' = Ok p)) \<and>
    (\<forall>p d. rh_node (rw_heap w) p = Some (DirNode d) \<longrightarrow> sorted_wrt (<) (dir_get_entries d))"
proof (intro conjI allI impI)
  let ?h = "rw_heap w"
  have inv: "heap_inv ?h" using ram_reachable_inv [OF assms(2,1)] by (simp add: ram_inv_def)
  have sub: "{(p, c). \<exists>n. child ?h p n = Some c} \<subseteq> {(p, c). p < c}"
    using heap_invD(3) [OF inv] by auto
  have "acyclic {(p, c :: nat). p < c}" by (rule wf_acyclic [OF wf_less])
  then show "acyclic {(p, c). \<exists>n. child ?h p n = Some c}" using sub by (rule acyclic_subset)
  show "p = p'" "n = n'" if "child ?h p n = Some c" "child ?h p' n' = Some c" for p n p' n' c
    using heap_invD(7) [OF inv that] by simp_all
  show "rh_node ?h c \<noteq> None" if "child ?h p n = Some c" for p n c by (rule heap_invD(4) [OF inv that])
  show "node_lookup D ?h c ''..'' = Ok p"
    if "child ?h p n = Some c" "rh_node ?h c = Some (DirNode d)" for p n c d
  proof -
    have "dn_parent d = Some p" by (rule heap_invD(6) [OF inv that])
    moreover have "rh_node ?h p \<noteq> None" using that(1) by (auto simp: child_def split: option.splits)
    ultimately show ?thesis
      using that(2) by (auto simp: node_lookup_walk [OF assms(1)] walk_step_def dir_parent_def)
  qed
  show "sorted_wrt (<) (dir_get_entries d)" if "rh_node ?h p = Some (DirNode d)" for p d
    using heap_invD(2) [OF inv that] by (simp add: dir_get_entries_def bt_inv_def)
qed

text \<open>A small tree: a root with a file \<open>a\<close> and a directory \<open>d\<close>.\<close>

definition example_tree :: ram_heap where
  "example_tree = \<lparr>rh_node = [0 \<mapsto> DirNode \<lparr>dn_parent = None, dn_children = [(''a'', 1), (''d'', 2)]\<rparr>,
     1 \<mapsto> FileNode [], 2 \<mapsto> DirNode \<lparr>dn_parent = Some 0, dn_children = []\<rparr>], rh_next = 3\<rparr>"

definition example_world :: ram_world where
  "example_world = \<lparr>rw_heap = example_tree, rw_fs = [\<lparr>rf_parent = None, rf_root = 0\<rparr>]\<rparr>"

lemma example_world_reachable: "ram_reachable example_defaults example_world"
proof -
  let ?fs = "[\<lparr>rf_parent = None, rf_root = 0\<rparr>]"
  let ?d = "\<lambda>c. DirNode \<lparr>dn_parent = None, dn_children = c\<rparr>"
  let ?h0 = "\<lparr>rh_node = [0 \<mapsto> ?d []], rh_next = 1\<rparr>"
  let ?h1 = "\<lparr>rh_node = [0 \<mapsto> ?d [(''a'', 1)], 1 \<mapsto> FileNode []], rh_next = 2\<rparr>"
  have "ram_reachable example_defaults \<lparr>rw_heap = ?h0, rw_fs = ?fs\<rparr>"
    by (rule ram_next [OF ram_start])
      (use step_new [of "\<lparr>rw_heap = heap_empty, rw_fs = []\<rparr>" "hd ?fs" ?h0] in
        \<open>simp add: ramfs_new_def heap_add_def heap_empty_def dir_new_def\<close>)
  moreover have "node_create example_defaults ?h0 0 ''/a'' TypeFile = (Ok (), ?h1)"
    by (simp add: node_create_walk create_at_def dir_create_node_def dir_exist_def heap_add_def
        heap_set_def file_new_def walk_step_def fun_upd_twist)
  then have "ram_step example_defaults \<lparr>rw_heap = ?h0, rw_fs = ?fs\<rparr> \<lparr>rw_heap = ?h1, rw_fs = ?fs\<rparr>"
    using step_create [of "\<lparr>rw_heap = ?h0, rw_fs = ?fs\<rparr>" 0] by simp
  ultimately have "ram_reachable example_defaults \<lparr>rw_heap = ?h1, rw_fs = ?fs\<rparr>" by (rule ram_next)
  moreover have "node_create example_defaults ?h1 0 ''d'' TypeDir = (Ok (), example_tree)"
    by (simp add: node_create_walk create_at_def dir_create_node_def dir_exist_def heap_add_def
        heap_set_def dir_new_def walk_step_def fun_upd_twist example_tree_def)
  then have "ram_step example_defaults \<lparr>rw_heap = ?h1, rw_fs = ?fs\<rparr> example_world"
    using step_create [of "\<lparr>rw_heap = ?h1, rw_fs = ?fs\<rparr>" 0] by (simp add: example_world_def)
  ultimately show ?thesis by (rule ram_next)
qed

theorem ram_forest_witness:
  "documented_defaults (example_defaults :: nat vfs_defaults) \<and>
   ram_reachable example_defaults example_world \<and>
   child (rw_heap example_world) 0 ''d'' = Some 2 \<and>
   node_lookup example_defaults (rw_heap example_world) 2 ''..'' = Ok 0"
proof -
  have c: "child (rw_heap example_world) 0 ''d'' = Some 2"
    and n: "rh_node (rw_heap example_world) 2 = Some (DirNode \<lparr>dn_parent = Some 0, dn_children = []\<rparr>)"
    by (simp_all add: child_def example_world_def example_tree_def)
  show ?thesis
    using c n example_world_reachable example_defaults_documented
      ram_forest [OF example_defaults_documented example_world_reachable] by blast
qed

end
