(* ===== verification/Ramfs_Spec.thy ===== *)
theory Ramfs_Spec
  imports Ramfs_Tree
begin

text \<open>
  What the operations of the RAM file system promise: path resolution, create, remove and rename on
  paths.
\<close>

lemma example_tree_inv: "heap_inv example_tree"
  using ram_reachable_inv [OF example_world_reachable example_defaults_documented]
  by (simp add: ram_inv_def example_world_def)

section \<open>Paths\<close>

text \<open>
  C13. Path resolution is the component-by-component walk: empty components and \<^verbatim>\<open>.\<close> stay, \<^verbatim>\<open>..\<close> goes to the
  parent, anything else to the entry of that name; and resolving \<open>p/q\<close> is resolving \<open>q\<close> from where
  \<open>p\<close> leads.
\<close>

theorem lookup_compositional:
  assumes "documented_defaults D"
  shows "node_lookup D h nid path = walk NotADirectory h nid (comps path) \<and>
    node_lookup D h nid (p @ ''/'' @ q) = and_then (node_lookup D h nid p) (\<lambda>n. node_lookup D h n q)"
  by (simp add: node_lookup_walk [OF assms] comps_append_slash walk_append)

theorem lookup_compositional_witness:
  "documented_defaults (example_defaults :: nat vfs_defaults) \<and>
   node_lookup example_defaults example_tree 0 (''d/..'' @ ''/'' @ ''/./a'') = Ok 1"
proof -
  have "node_lookup example_defaults example_tree 0 ''d/..'' = Ok 0"
    using lookup_compositional [OF example_defaults_documented, of example_tree 0 "''d/..''"]
    by (simp add: walk_step_def example_tree_def dir_parent_def)
  moreover have "node_lookup example_defaults example_tree 0 ''/./a'' = Ok 1"
    using lookup_compositional [OF example_defaults_documented, of example_tree 0 "''/./a''"]
    by (simp add: walk_step_def example_tree_def)
  ultimately show ?thesis
    using lookup_compositional [OF example_defaults_documented, of example_tree 0 "''''" "''d/..''" "''/./a''"]
    by simp
qed

lemma create_spec:
  assumes "documented_defaults D" and "heap_inv h" and "ordinary (last (comps path))"
  shows "(\<forall>c. node_lookup D h nid path = Ok c \<longrightarrow> node_create D h nid path ty = (Err AlreadyExists, h)) \<and>
    (\<forall>h'. node_create D h nid path ty = (Ok (), h') \<longrightarrow>
       (\<exists>c. rh_node h c = None \<and> node_lookup D h' nid path = Ok c \<and>
          (rh_node h' c = Some (FileNode []) \<and> ty = TypeFile \<or>
           (\<exists>p. rh_node h' c = Some (DirNode \<lparr>dn_parent = Some p, dn_children = []\<rparr>)) \<and> ty = TypeDir)) \<and>
       (\<forall>m q n. node_lookup D h m q = Ok n \<longrightarrow> node_lookup D h' m q = Ok n))"
proof (intro conjI allI impI)
  fix c assume "node_lookup D h nid path = Ok c"
  then obtain p where p: "walk NotADirectory h nid (butlast (comps path)) = Ok p"
      "walk_step NotADirectory h p (last (comps path)) = Ok c"
    unfolding node_lookup_walk [OF assms(1)] by (rule walk_Ok_butlast)
  then obtain d where d: "rh_node h p = Some (DirNode d)"
    by (auto simp: walk_step_def split: option.splits ram_node.splits)
  then have "map_of (dn_children d) (last (comps path)) = Some c"
    using p(2) walk_step_ordinary [OF assms(3) d] by simp
  then show "node_create D h nid path ty = (Err AlreadyExists, h)"
    using p(1) d assms(3)
    by (simp add: node_create_walk [OF assms(1)] create_at_def ordinary_def dir_create_node_def dir_exist_def)
next
  fix h' assume ok: "node_create D h nid path ty = (Ok (), h')"
  obtain p d x where w: "walk NotADirectory h nid (butlast (comps path)) = Ok p"
    and d: "rh_node h p = Some (DirNode d)" and free: "map_of (dn_children d) (last (comps path)) = None"
    and x: "ty = TypeFile \<and> x = FileNode [] \<or> ty = TypeDir \<and> x = dir_new (Some p)"
    and h': "h' = heap_set (snd (heap_add h x)) p
       (DirNode (d\<lparr>dn_children := bt_insert (last (comps path)) (rh_next h) (dn_children d)\<rparr>))"
    using create_cases [OF assms(1) ok refl assms(3)] by metis
  have x': "x = FileNode [] \<or> x = dir_new (Some p)" using x by blast
  note eff = create_effect [OF assms(2) d x' h']
  have g: "grows h h'" by (rule create_grows [OF assms(2) d free x' h'])
  have p': "rh_node h' p = Some (DirNode (d\<lparr>dn_children := bt_insert (last (comps path)) (rh_next h) (dn_children d)\<rparr>))"
    using eff(3) by (simp add: eff(1))
  have "node_lookup D h' nid path = Ok (rh_next h)"
    unfolding node_lookup_walk [OF assms(1)] walk_butlast_step [OF walk_grows [OF g w]]
      walk_step_ordinary [OF assms(3) p']
    by (simp add: bt.get_insert [OF heap_invD(2) [OF assms(2) d]])
  moreover have "rh_node h' (rh_next h) = Some x" using eff(3) by (simp add: eff(1))
  ultimately show "\<exists>c. rh_node h c = None \<and> node_lookup D h' nid path = Ok c \<and>
      (rh_node h' c = Some (FileNode []) \<and> ty = TypeFile \<or>
       (\<exists>p. rh_node h' c = Some (DirNode \<lparr>dn_parent = Some p, dn_children = []\<rparr>)) \<and> ty = TypeDir)"
    using x heap_fresh [OF assms(2)] by (auto simp: dir_new_def)
  show "node_lookup D h' m q = Ok n" if "node_lookup D h m q = Ok n" for m q n
    using that walk_grows [OF g] by (simp add: node_lookup_walk [OF assms(1)])
qed

text \<open>The directory a path ends in: the one the operation on its last component works in.\<close>

definition entry_dir :: "ram_heap \<Rightarrow> nat \<Rightarrow> string \<Rightarrow> nat \<Rightarrow> dir_node \<Rightarrow> bool" where
  "entry_dir h nid path p d \<longleftrightarrow> walk NotADirectory h nid (butlast (comps path)) = Ok p \<and> rh_node h p = Some (DirNode d)"

lemma not_ordinary: "\<not> ordinary (last (comps path)) \<longleftrightarrow> last (comps path) \<in> {'''', ''.'', ''..''}"
  using last_comps_no_slash [of path] by (auto simp: ordinary_def)

lemma entry_dir_lookup:
  assumes "documented_defaults D" and "entry_dir h nid path p d" and "ordinary (last (comps path))"
  shows "node_lookup D h nid path = ok_or NotFound (map_of (dn_children d) (last (comps path)))"
  using assms walk_butlast_step [of NotADirectory h nid path p] walk_step_ordinary [OF assms(3), of h p d]
  by (simp add: entry_dir_def node_lookup_walk)

lemma no_entry_dir:
  assumes "\<nexists>p d. entry_dir h nid path p d"
  shows "(\<exists>x. walk NotADirectory h nid (butlast (comps path)) = Err x) \<or> walk NotADirectory h nid (butlast (comps path)) = Panic \<or>
    (\<exists>p. walk NotADirectory h nid (butlast (comps path)) = Ok p \<and> (rh_node h p = None \<or> (\<exists>f. rh_node h p = Some (FileNode f))))"
  using assms unfolding entry_dir_def
  by (cases "walk NotADirectory h nid (butlast (comps path))") (auto, metis option.exhaust ram_node.exhaust)

text \<open>What creation adds: a fresh empty node of the type, under the name, in the directory, and nothing else.\<close>

definition entry_added :: "ram_heap \<Rightarrow> ram_heap \<Rightarrow> nat \<Rightarrow> string \<Rightarrow> vfs_node_type \<Rightarrow> nat \<Rightarrow> bool" where
  "entry_added h h' p name ty c \<longleftrightarrow>
    rh_node h c = None \<and>
    rh_node h' c = Some (if ty = TypeFile then FileNode [] else DirNode \<lparr>dn_parent = Some p, dn_children = []\<rparr>) \<and>
    child h' = (child h)(p := (child h p)(name \<mapsto> c)) \<and> (\<forall>i. i \<noteq> p \<and> i \<noteq> c \<longrightarrow> rh_node h' i = rh_node h i)"

lemma create_adds:
  assumes D: "documented_defaults D" and inv: "heap_inv h" and e: "entry_dir h nid path p d"
    and o: "ordinary (last (comps path))" and free: "map_of (dn_children d) (last (comps path)) = None"
    and ty: "ty = TypeFile \<or> ty = TypeDir"
  shows "\<exists>h' c. node_create D h nid path ty = (Ok (), h') \<and> entry_added h h' p (last (comps path)) ty c \<and>
    node_lookup D h' nid path = Ok c \<and> (\<forall>m q n. node_lookup D h m q = Ok n \<longrightarrow> node_lookup D h' m q = Ok n)"
proof -
  let ?name = "last (comps path)" and ?x = "if ty = TypeFile then FileNode [] else dir_new (Some p)"
  define h' where "h' = heap_set (snd (heap_add h ?x)) p (DirNode (d\<lparr>dn_children := bt_insert ?name (rh_next h) (dn_children d)\<rparr>))"
  have d: "rh_node h p = Some (DirNode d)" using e by (simp add: entry_dir_def)
  have x: "?x = FileNode [] \<or> ?x = dir_new (Some p)" by simp
  note eff = create_effect [OF inv d x h'_def]
  have ok: "node_create D h nid path ty = (Ok (), h')"
    using e ty free o
    by (auto simp: node_create_walk [OF D] entry_dir_def create_at_def ordinary_def dir_create_node_def dir_exist_def
        heap_add_def file_new_def h'_def)
  have added: "entry_added h h' p ?name ty (rh_next h)"
    unfolding entry_added_def
  proof (intro conjI allI impI)
    show "rh_node h (rh_next h) = None" by (rule heap_fresh [OF inv])
    show "rh_node h' (rh_next h) = Some (if ty = TypeFile then FileNode [] else DirNode \<lparr>dn_parent = Some p, dn_children = []\<rparr>)"
      using eff(3) by (simp add: eff(1) dir_new_def)
    show "child h' = (child h)(p := (child h p)(?name \<mapsto> rh_next h))"
      by (intro ext) (simp add: eff(4))
    show "rh_node h' i = rh_node h i" if "i \<noteq> p \<and> i \<noteq> rh_next h" for i using that by (simp add: eff(1))
  qed
  obtain c where c: "node_lookup D h' nid path = Ok c" "rh_node h c = None" "rh_node h' c \<noteq> None"
    and keep: "\<forall>m q n. node_lookup D h m q = Ok n \<longrightarrow> node_lookup D h' m q = Ok n"
    using create_spec [OF D inv o, of nid ty] ok by auto
  have "c \<noteq> p" using c(2) d by auto
  then have "c = rh_next h" using c(2,3) added unfolding entry_added_def by metis
  then show ?thesis using ok added c(1) keep by blast
qed

text \<open>
  C14. Creating, in every case: where the path does not end in a directory, it fails and nothing changes;
  where its last component is empty, \<^verbatim>\<open>.\<close> or \<^verbatim>\<open>..\<close>, it reports success and nothing changes; a path that
  resolves is refused with \<open>AlreadyExists\<close>, and a type other than file and directory with \<open>Unsupported\<close>,
  and nothing changes; otherwise it succeeds, and adds exactly one entry, of that name, to that directory,
  for a fresh and empty node of the type, to which the path then resolves, and every path that resolved
  before resolves to the same node.
\<close>

theorem create_exact:
  assumes "documented_defaults D" and "heap_inv h"
  shows "if \<nexists>p d. entry_dir h nid path p d then (\<exists>r. node_create D h nid path ty = (r, h) \<and> r \<noteq> Ok ())
    else if last (comps path) \<in> {'''', ''.'', ''..''} then node_create D h nid path ty = (Ok (), h)
    else if is_ok (node_lookup D h nid path) then node_create D h nid path ty = (Err AlreadyExists, h)
    else if ty \<notin> {TypeFile, TypeDir} then node_create D h nid path ty = (Err Unsupported, h)
    else \<exists>h' c p d. node_create D h nid path ty = (Ok (), h') \<and> entry_dir h nid path p d \<and>
      entry_added h h' p (last (comps path)) ty c \<and> node_lookup D h' nid path = Ok c \<and>
      (\<forall>m q n. node_lookup D h m q = Ok n \<longrightarrow> node_lookup D h' m q = Ok n)"
proof (cases "\<exists>p d. entry_dir h nid path p d")
  case False
  then show ?thesis using no_entry_dir [of h nid path] by (auto simp: node_create_walk [OF assms(1)])
next
  case True
  then obtain p d where e: "entry_dir h nid path p d" by blast
  then have w: "walk NotADirectory h nid (butlast (comps path)) = Ok p" "rh_node h p = Some (DirNode d)" by (simp_all add: entry_dir_def)
  have run: "node_create D h nid path ty = create_at h p d (last (comps path)) ty"
    using w by (simp add: node_create_walk [OF assms(1)])
  show ?thesis
  proof (cases "ordinary (last (comps path))")
    case False
    then show ?thesis using True by (simp add: run create_at_def not_ordinary)
  next
    case o: True
    then have n: "last (comps path) \<notin> {'''', ''.'', ''..''}" by (auto simp: ordinary_def)
    note look = entry_dir_lookup [OF assms(1) e o]
    show ?thesis
    proof (cases "map_of (dn_children d) (last (comps path))")
      case (Some c)
      then show ?thesis using True n look by (simp add: run create_at_def dir_create_node_def dir_exist_def)
    next
      case free: None
      have l: "\<not> is_ok (node_lookup D h nid path)" using look free by simp
      show ?thesis
      proof (cases "ty \<in> {TypeFile, TypeDir}")
        case False
        then show ?thesis
          using True n l free run by (cases ty) (simp_all add: create_at_def dir_create_node_def dir_exist_def)
      next
        case ty: True
        then have "ty = TypeFile \<or> ty = TypeDir" by simp
        from create_adds [OF assms e o free this] have "\<exists>h' c p d. node_create D h nid path ty = (Ok (), h') \<and>
            entry_dir h nid path p d \<and> entry_added h h' p (last (comps path)) ty c \<and> node_lookup D h' nid path = Ok c \<and>
            (\<forall>m q n. node_lookup D h m q = Ok n \<longrightarrow> node_lookup D h' m q = Ok n)"
          using e by (elim exE conjE, intro exI conjI)
        then show ?thesis using True n l ty by simp
      qed
    qed
  qed
qed

theorem create_exact_witness:
  "documented_defaults (example_defaults :: nat vfs_defaults) \<and> heap_inv example_tree \<and>
   (\<exists>h' c. node_create example_defaults example_tree 0 ''d/x'' TypeFile = (Ok (), h') \<and>
      node_lookup example_defaults h' 0 ''d/x'' = Ok c \<and> rh_node example_tree c = None) \<and>
   node_create example_defaults example_tree 0 ''d/..'' TypeDir = (Ok (), example_tree)"
proof -
  have e: "\<exists>p d. entry_dir example_tree 0 ''d/x'' p d" "\<exists>p d. entry_dir example_tree 0 ''d/..'' p d"
    by (simp_all add: entry_dir_def walk_step_def example_tree_def)
  have "\<not> is_ok (node_lookup example_defaults example_tree 0 ''d/x'')"
    by (simp add: node_lookup_walk [OF example_defaults_documented] walk_step_def example_tree_def)
  then show ?thesis
    using e example_tree_inv example_defaults_documented
      create_exact [OF example_defaults_documented example_tree_inv, of 0 "''d/x''" TypeFile]
      create_exact [OF example_defaults_documented example_tree_inv, of 0 "''d/..''" TypeDir]
    by (auto simp: entry_added_def)
qed

lemma remove_shrinks:
  assumes "rh_node h p = Some (DirNode d)"
    and "h' = heap_set h p (DirNode (d\<lparr>dn_children := bt_remove name (dn_children d)\<rparr>))"
  shows "grows h' h"
  using assms by (auto simp: grows_def rh_node_heap_set bt_remove_get map_le_def split: if_splits)

lemma walk_step_removed:
  assumes "rh_node h p = Some (DirNode d)"
    and "h' = heap_set h p (DirNode (d\<lparr>dn_children := bt_remove name (dn_children d)\<rparr>))"
    and "walk_step e h nid c = Ok n"
  shows "walk_step e h' nid c = Ok n \<or> walk_step e h' nid c = Err NotFound"
proof -
  have live: "rh_node h' i = None \<longleftrightarrow> rh_node h i = None" for i
    using assms(1,2) by (auto simp: rh_node_heap_set)
  obtain dn where dn: "rh_node h nid = Some (DirNode dn)"
    using assms(3) by (auto simp: walk_step_def split: option.splits ram_node.splits)
  have par: "dir_parent h' x = dir_parent h y" if "dn_parent x = dn_parent y" for x y
    using that live [of "the (dn_parent y)"] by (auto simp: dir_parent_def split: option.splits)
  show ?thesis
    using assms(1,3) dn par [of "d\<lparr>dn_children := bt_remove name (dn_children d)\<rparr>" d] par [of dn dn]
    by (auto simp: walk_step_def assms(2) rh_node_heap_set bt_remove_get split: if_splits)
qed

lemma walk_removed:
  assumes "rh_node h p = Some (DirNode d)"
    and "h' = heap_set h p (DirNode (d\<lparr>dn_children := bt_remove name (dn_children d)\<rparr>))"
    and "walk e h nid cs = Ok n"
  shows "walk e h' nid cs = Ok n \<or> walk e h' nid cs = Err NotFound"
  using assms(3)
proof (induction cs arbitrary: nid)
  case (Cons c cs)
  then obtain n' where "walk_step e h nid c = Ok n'" "walk e h n' cs = Ok n"
    by (auto simp: and_then_eq_Ok)
  then show ?case using Cons.IH [of n'] walk_step_removed [OF assms(1,2)] by fastforce
qed simp

text \<open>A walk that goes through the entry \<open>name\<close> of the directory \<open>p\<close>.\<close>

fun goes_through :: "ram_heap \<Rightarrow> nat \<Rightarrow> string list \<Rightarrow> nat \<Rightarrow> string \<Rightarrow> bool" where
  "goes_through h nid [] p name = False"
| "goes_through h nid (c # cs) p name =
    (nid = p \<and> c = name \<or> (case walk_step NotADirectory h nid c of Ok n \<Rightarrow> goes_through h n cs p name | _ \<Rightarrow> False))"

text \<open>What removal takes away: the entry of that name in the directory, and nothing else.\<close>

definition entry_removed :: "ram_heap \<Rightarrow> ram_heap \<Rightarrow> nat \<Rightarrow> string \<Rightarrow> bool" where
  "entry_removed h h' p name \<longleftrightarrow>
    child h' = (child h)(p := (child h p)(name := None)) \<and> (\<forall>i. i \<noteq> p \<longrightarrow> rh_node h' i = rh_node h i) \<and>
    (\<forall>m cs. \<not> goes_through h m cs p name \<longrightarrow> walk NotADirectory h' m cs = walk NotADirectory h m cs)"

lemma walk_step_kept:
  assumes d: "rh_node h p = Some (DirNode d)"
    and h': "h' = heap_set h p (DirNode (d\<lparr>dn_children := bt_remove name (dn_children d)\<rparr>))"
    and n: "\<not> (nid = p \<and> c = name)"
  shows "walk_step e h' nid c = walk_step e h nid c"
proof -
  have live: "rh_node h' i = None \<longleftrightarrow> rh_node h i = None" for i using d by (auto simp: h' rh_node_heap_set)
  have par: "dir_parent h' x = dir_parent h y" if "dn_parent x = dn_parent y" for x y
    using that live [of "the (dn_parent y)"] by (auto simp: dir_parent_def split: option.splits)
  have nid: "rh_node h' nid = (if nid = p then Some (DirNode (d\<lparr>dn_children := bt_remove name (dn_children d)\<rparr>)) else rh_node h nid)"
    by (simp add: h' rh_node_heap_set)
  show ?thesis
  proof (cases "nid = p")
    case True
    then show ?thesis
      using n par [of "d\<lparr>dn_children := bt_remove name (dn_children d)\<rparr>" d] nid d by (simp add: walk_step_def bt_remove_get)
  next
    case False
    then show ?thesis using par by (auto simp: walk_step_def nid split: option.split ram_node.split)
  qed
qed

lemma walk_kept:
  assumes "rh_node h p = Some (DirNode d)"
    and "h' = heap_set h p (DirNode (d\<lparr>dn_children := bt_remove name (dn_children d)\<rparr>))"
    and "\<not> goes_through h m cs p name"
  shows "walk NotADirectory h' m cs = walk NotADirectory h m cs"
  using assms(3)
proof (induction cs arbitrary: m)
  case (Cons c cs)
  have "walk_step NotADirectory h' m c = walk_step NotADirectory h m c"
    by (rule walk_step_kept [OF assms(1,2)]) (use Cons.prems in auto)
  then show ?case using Cons by (cases "walk_step NotADirectory h m c") auto
qed simp

lemma remove_removes:
  assumes "rh_node h p = Some (DirNode d)"
    and "h' = heap_set h p (DirNode (d\<lparr>dn_children := bt_remove name (dn_children d)\<rparr>))"
  shows "entry_removed h h' p name"
  using assms walk_kept [OF assms]
  by (auto simp: entry_removed_def fun_eq_iff child_heap_set_dir bt_remove_get child_dir rh_node_heap_set)

lemma remove_effect:
  assumes D: "documented_defaults D" and e: "entry_dir h nid path p d" and o: "ordinary (last (comps path))"
    and h': "h' = heap_set h p (DirNode (d\<lparr>dn_children := bt_remove (last (comps path)) (dn_children d)\<rparr>))"
  shows "entry_removed h h' p (last (comps path))" and "node_lookup D h' nid path = Err NotFound"
    and "node_lookup D h' m q = Ok n \<Longrightarrow> node_lookup D h m q = Ok n"
proof -
  let ?name = "last (comps path)"
  have w: "walk NotADirectory h nid (butlast (comps path)) = Ok p" and d: "rh_node h p = Some (DirNode d)"
    using e by (simp_all add: entry_dir_def)
  show "entry_removed h h' p ?name" by (rule remove_removes [OF d h'])
  have p': "rh_node h' p = Some (DirNode (d\<lparr>dn_children := bt_remove ?name (dn_children d)\<rparr>))"
    by (simp add: h' rh_node_heap_set)
  have "walk_step NotADirectory h' p ?name = Err NotFound"
    by (simp add: walk_step_ordinary [OF o p'] bt_remove_get)
  moreover have "walk NotADirectory h' nid (comps path) =
      and_then (walk NotADirectory h' nid (butlast (comps path))) (\<lambda>n. walk_step NotADirectory h' n ?name)"
    using walk_append [of NotADirectory h' nid "butlast (comps path)" "[?name]"] by simp
  ultimately show "node_lookup D h' nid path = Err NotFound"
    using walk_removed [OF d h' w] by (auto simp: node_lookup_walk [OF D])
  show "node_lookup D h' m q = Ok n \<Longrightarrow> node_lookup D h m q = Ok n"
    using walk_grows [OF remove_shrinks [OF d h']] by (simp add: node_lookup_walk [OF D])
qed

text \<open>
  C12. Removing, in every case: where the path does not end in a directory, it fails and nothing changes;
  where its last component is empty, \<^verbatim>\<open>.\<close> or \<^verbatim>\<open>..\<close>, it is refused with \<open>InvalidInput\<close>, where the path does not
  resolve with \<open>NotFound\<close>, and where it leads to a directory with entries with \<open>DirectoryNotEmpty\<close>, and
  nothing changes; otherwise it succeeds, and takes exactly the entry of that name out of that directory: all
  other entries and all other nodes are as before, a path that does not go through the entry resolves as
  before, the path itself resolves no longer, and no path is redirected.
\<close>

theorem remove_exact:
  assumes "documented_defaults D"
  shows "if \<nexists>p d. entry_dir h nid path p d then (\<exists>r. node_remove D h nid path = (r, h) \<and> r \<noteq> Ok ())
    else if last (comps path) \<in> {'''', ''.'', ''..''} then node_remove D h nid path = (Err InvalidInput, h)
    else case node_lookup D h nid path of
      Ok c \<Rightarrow>
        if \<exists>d. rh_node h c = Some (DirNode d) \<and> dn_children d \<noteq> [] then node_remove D h nid path = (Err DirectoryNotEmpty, h)
        else \<exists>h' p d. node_remove D h nid path = (Ok (), h') \<and> entry_dir h nid path p d \<and>
          entry_removed h h' p (last (comps path)) \<and> node_lookup D h' nid path = Err NotFound \<and>
          (\<forall>m q n. node_lookup D h' m q = Ok n \<longrightarrow> node_lookup D h m q = Ok n)
    | _ \<Rightarrow> node_remove D h nid path = (Err NotFound, h)"
proof (cases "\<exists>p d. entry_dir h nid path p d")
  case False
  then show ?thesis using no_entry_dir [of h nid path] by (auto simp: node_remove_walk [OF assms])
next
  case True
  then obtain p d where e: "entry_dir h nid path p d" by blast
  then have w: "walk NotADirectory h nid (butlast (comps path)) = Ok p" and d: "rh_node h p = Some (DirNode d)"
    by (simp_all add: entry_dir_def)
  have run: "node_remove D h nid path = remove_at h p d (last (comps path))"
    using w d by (simp add: node_remove_walk [OF assms])
  show ?thesis
  proof (cases "ordinary (last (comps path))")
    case False
    then show ?thesis using True by (simp add: run remove_at_def not_ordinary)
  next
    case o: True
    let ?name = "last (comps path)"
    have n: "?name \<notin> {'''', ''.'', ''..''}" using o by (auto simp: ordinary_def)
    note look = entry_dir_lookup [OF assms e o]
    show ?thesis
    proof (cases "map_of (dn_children d) ?name")
      case None
      then show ?thesis using True n look run by (simp add: remove_at_def dir_remove_node_def)
    next
      case (Some c)
      define h' where "h' = heap_set h p (DirNode (d\<lparr>dn_children := bt_remove ?name (dn_children d)\<rparr>))"
      have found: "node_lookup D h nid path = Ok c" using look Some by simp
      show ?thesis
      proof (cases "\<exists>d. rh_node h c = Some (DirNode d) \<and> dn_children d \<noteq> []")
        case full: True
        then show ?thesis
          using True n Some run unfolding found by (auto simp: remove_at_def dir_remove_node_def)
      next
        case False
        then have ok: "node_remove D h nid path = (Ok (), h')"
          using n Some run
          by (auto simp: remove_at_def dir_remove_node_def h'_def split: option.splits ram_node.splits)
        have "\<exists>h' p d. node_remove D h nid path = (Ok (), h') \<and> entry_dir h nid path p d \<and>
          entry_removed h h' p ?name \<and> node_lookup D h' nid path = Err NotFound \<and>
          (\<forall>m q n. node_lookup D h' m q = Ok n \<longrightarrow> node_lookup D h m q = Ok n)"
          using ok e remove_effect [OF assms e o h'_def] by blast
        then show ?thesis using True n unfolding found outcome.case if_not_P [OF False] by simp
      qed
    qed
  qed
qed

theorem remove_exact_witness:
  "documented_defaults (example_defaults :: nat vfs_defaults) \<and>
   (\<exists>h'. node_remove example_defaults example_tree 0 ''./a'' = (Ok (), h') \<and>
      node_lookup example_defaults h' 0 ''./a'' = Err NotFound)"
proof -
  have e: "\<exists>p d. entry_dir example_tree 0 ''./a'' p d"
    by (simp add: entry_dir_def walk_step_def example_tree_def)
  have l: "node_lookup example_defaults example_tree 0 ''./a'' = Ok 1" "\<nexists>d. rh_node example_tree 1 = Some (DirNode d) \<and> dn_children d \<noteq> []"
    by (simp_all add: node_lookup_walk [OF example_defaults_documented] walk_step_def example_tree_def)
  show ?thesis
    using e l example_defaults_documented remove_exact [OF example_defaults_documented, of example_tree 0 "''./a''"]
    by (auto split: if_splits)
qed

text \<open>
  C15. Renaming works inside the directory of the source: on success its entry, and no other, is
  moved to the last component of the destination; the directory part of the destination has no
  influence on the result.
\<close>

theorem rename_exact:
  assumes "documented_defaults D" and "heap_inv h"
  shows "(\<forall>h'. node_rename D h nid src dst = (Ok (), h') \<longrightarrow>
       (\<exists>p c. walk Unsupported h nid (butlast (comps src)) = Ok p \<and>
          child h p (last (comps src)) = Some c \<and> child h p (last (comps dst)) = None \<and>
          child h' = (child h)(p := (child h p)(last (comps src) := None, last (comps dst) \<mapsto> c)) \<and>
          (\<forall>i. i \<noteq> p \<longrightarrow> rh_node h' i = rh_node h i))) \<and>
    (\<forall>dir. node_rename D h nid src (dir @ ''/'' @ dst) = node_rename D h nid src dst)"
proof (intro conjI allI impI)
  fix h' assume "node_rename D h nid src dst = (Ok (), h')"
  then obtain p d c where w: "walk Unsupported h nid (butlast (comps src)) = Ok p"
    and d: "rh_node h p = Some (DirNode d)" and c: "map_of (dn_children d) (last (comps src)) = Some c"
    and free: "map_of (dn_children d) (last (comps dst)) = None"
    and h': "h' = heap_set h p (DirNode (d\<lparr>dn_children :=
        bt_insert (last (comps dst)) c (bt_remove (last (comps src)) (dn_children d))\<rparr>))"
    unfolding node_rename_walk [OF assms(1)]
    by (auto simp: rename_at_def split: outcome.splits option.splits ram_node.splits if_splits)
  have "child h' = (child h)(p := (child h p)(last (comps src) := None, last (comps dst) \<mapsto> c))"
    using rename_get [OF assms(2) d c free] by (simp add: fun_eq_iff h' child_heap_set_dir)
  then show "\<exists>p c. walk Unsupported h nid (butlast (comps src)) = Ok p \<and>
      child h p (last (comps src)) = Some c \<and> child h p (last (comps dst)) = None \<and>
      child h' = (child h)(p := (child h p)(last (comps src) := None, last (comps dst) \<mapsto> c)) \<and>
      (\<forall>i. i \<noteq> p \<longrightarrow> rh_node h' i = rh_node h i)"
    using w d c free by (auto simp: child_dir h' rh_node_heap_set)
next
  fix dir
  show "node_rename D h nid src (dir @ ''/'' @ dst) = node_rename D h nid src dst"
  proof -
    have "last (comps (dir @ ''/'' @ dst)) = last (comps dst)" by (simp add: comps_append_slash)
    then show ?thesis by (simp only: node_rename_walk [OF assms(1)])
  qed
qed

theorem rename_exact_witness:
  "documented_defaults (example_defaults :: nat vfs_defaults) \<and> heap_inv example_tree \<and>
   (\<exists>h'. node_rename example_defaults example_tree 0 ''a'' ''b'' = (Ok (), h') \<and> child h' 0 ''b'' = Some 1 \<and>
      node_rename example_defaults example_tree 0 ''a'' (''d'' @ ''/'' @ ''b'') = (Ok (), h'))"
proof -
  note ex = rename_exact [OF example_defaults_documented example_tree_inv, of 0 "''a''" "''b''"]
  obtain h' where h': "node_rename example_defaults example_tree 0 ''a'' ''b'' = (Ok (), h')"
    by (simp add: node_rename_walk example_tree_def rename_at_def)
  then have "child h' 0 ''b'' = Some 1" using ex by (auto simp: child_def example_tree_def)
  then show ?thesis using h' ex example_tree_inv example_defaults_documented by metis
qed

end
