(* ===== verification/Ramfs_Files.thy ===== *)
theory Ramfs_Files
  imports Ramfs_Tree
begin

text \<open>
  File content and directory listings of the RAM file system: reading and writing byte ranges,
  with the wrap-around of the 64-bit offsets, and paging through a directory.
\<close>

section \<open>File content\<close>

lemma unat_end_wrap:
  assumes "len < 2 ^ 63"
  shows "unat (off + of_nat len :: u64) = (if unat off + len < 2 ^ 64 then unat off + len else unat off + len - 2 ^ 64)"
proof -
  have "unat (of_nat len :: u64) = len" using assms by (subst unat_of_nat) simp
  then have "unat (off + of_nat len :: u64) = (unat off + len) mod 2 ^ 64" by (simp add: unat_word_ariths)
  moreover have "unat off < 2 ^ 64" by (rule unat_usize_less)
  ultimately show ?thesis
    using assms le_mod_geq [of "2 ^ 64" "unat off + len"] by (auto simp: not_less)
qed

lemma unat_len: "length xs < 2 ^ 63 \<Longrightarrow> unat (of_nat (length xs) :: u64) = length xs"
  by (subst unat_of_nat) simp

lemma unat_min: "unat (min a b) = min (unat a) (unat (b :: 64 word))"
  by (simp add: min_def word_le_nat_alt)

lemma splice_nth:
  assumes "off + length buf \<le> length g" and "i < length g"
  shows "(take off g @ buf @ drop (off + length buf) g) ! i =
    (if off \<le> i \<and> i < off + length buf then buf ! (i - off) else g ! i)"
  using assms by (auto simp: nth_append min_def)

lemma file_read_at_nat:
  assumes "length content < 2 ^ 63" and "s = min (length content) (unat off)"
    and "e = min (length content) (unat (off + of_nat (length buf) :: u64))"
  shows "file_read_at content off buf =
    (if e < s then Panic else Ok (of_nat (e - s), take (e - s) (drop s content) @ drop (e - s) buf))"
proof -
  have u: "unat (min (of_nat (length content)) off) = s"
      "unat (min (of_nat (length content)) (off + of_nat (length buf))) = e"
    by (simp_all only: unat_min unat_len [OF assms(1)] assms(2,3))
  have "length (take (e - s) (drop s content)) = e - s" using assms(2,3) by simp
  then show ?thesis by (simp only: file_read_at_def Let_def word_less_nat_alt u)
qed

lemma file_read_at_eq:
  assumes "length content < 2 ^ 63" and "length buf < 2 ^ 63"
  shows "file_read_at content off buf =
    (let k = min (length buf) (length content - unat off) in
     if unat off + length buf < 2 ^ 64
     then Ok (of_nat k, take k (drop (unat off) content) @ drop k buf)
     else if unat off + length buf - 2 ^ 64 < length content then Panic
     else Ok (0, buf))"
proof (cases "unat off + length buf < 2 ^ 64")
  case True
  let ?L = "length content" and ?k = "min (length buf) (length content - unat off)"
  have e: "unat (off + of_nat (length buf) :: u64) = unat off + length buf"
    using unat_end_wrap [OF assms(2), of off] True by simp
  have k: "min ?L (unat off + length buf) - min ?L (unat off) = ?k" by linarith
  have d: "take ?k (drop (min ?L (unat off)) content) = take ?k (drop (unat off) content)"
    by (cases "unat off \<le> ?L") (simp_all add: min_def)
  have "\<not> min ?L (unat off + length buf) < min ?L (unat off)" by linarith
  then show ?thesis
    using True file_read_at_nat [OF assms(1) refl refl, of off buf] unfolding e k d by (simp add: Let_def)
next
  case False
  then have far: "length content \<le> unat off" using assms by simp
  have e: "unat (off + of_nat (length buf) :: u64) = unat off + length buf - 2 ^ 64"
    using unat_end_wrap [OF assms(2), of off] False by simp
  show ?thesis
    using False far file_read_at_nat [OF assms(1) refl refl, of off buf] unfolding e
    by (auto simp: Let_def min_def)
qed

text \<open>
  C19. Reading: as long as \<open>offset + len\<close> does not wrap around, a read returns the bytes from \<open>offset\<close> to
  the end of the buffer or of the file, whichever comes first, and leaves the rest of the buffer.
  Where the sum wraps around, the slice bounds come out reversed and the kernel panics, unless the
  wrapped end is past the end of the file.
\<close>

theorem file_read_exact:
  assumes "length content < 2 ^ 63" and "length buf < 2 ^ 63"
    and "k = min (length buf) (length content - unat off)"
  shows "file_read_at content off buf =
    (if unat off + length buf < 2 ^ 64
     then Ok (of_nat k, take k (drop (unat off) content) @ drop k buf)
     else if unat off + length buf - 2 ^ 64 < length content then Panic
     else Ok (0, buf))"
  using file_read_at_eq [OF assms(1,2), of off] by (simp add: assms(3) Let_def)

theorem file_read_exact_witness:
  "file_read_at [1, 2, 3] 1 [9, 9, 9] = Ok (2, [2, 3, 9]) \<and>
   file_read_at [1, 2, 3] (- 1) [9] = Panic"
proof -
  have "unat (- 1 :: u64) = 2 ^ 64 - 1" by (simp add: unsigned_minus_1_eq_mask mask_eq_exp_minus_1)
  then show ?thesis
    using file_read_exact [OF _ _ refl, of "[1, 2, 3]" "[9, 9, 9]" 1]
      file_read_exact [OF _ _ refl, of "[1, 2, 3]" "[9]" "- 1"]
    by simp
qed

lemma file_write_spec:
  assumes "length content < 2 ^ 63" and "length buf < 2 ^ 63"
  shows "if unat off + length buf < 2 ^ 63
    then \<exists>content'. file_write_at content off buf = Ok (of_nat (length buf), content') \<and>
      length content' = max (length content) (unat off + length buf) \<and>
      (\<forall>i < length content'. content' ! i =
         (if unat off \<le> i \<and> i < unat off + length buf then buf ! (i - unat off)
          else if i < length content then content ! i else 0)) \<and>
      (\<forall>out. length out = length buf \<longrightarrow>
         file_read_at content' off out = Ok (of_nat (length buf), buf))
    else file_write_at content off buf = Panic"
proof -
  have L: "unat (of_nat (length content) :: u64) = length content"
    using assms(1) by (subst unat_of_nat) simp
  let ?stop = "off + of_nat (length buf) :: u64"
  note e = unat_end_wrap [OF assms(2), of off]
  show ?thesis
  proof (cases "unat off + length buf < 2 ^ 63")
    case True
    then have e': "unat ?stop = unat off + length buf" using e by simp
    let ?g = "content @ replicate (unat off + length buf - length content) 0"
    let ?c = "take (unat off) ?g @ buf @ drop (unat off + length buf) ?g"
    have w: "file_write_at content off buf = Ok (of_nat (length buf), ?c)"
      using True e' L by (auto simp: file_write_at_def Let_def vec_resize_def word_less_nat_alt)
    have len: "length ?c = max (length content) (unat off + length buf)" by simp
    have nth: "?c ! i = (if unat off \<le> i \<and> i < unat off + length buf then buf ! (i - unat off)
          else if i < length content then content ! i else 0)" if "i < length ?c" for i
      using that splice_nth [of "unat off" buf ?g i] by (auto simp: nth_append)
    have "file_read_at ?c off out = Ok (of_nat (length buf), buf)" if "length out = length buf" for out
    proof -
      have lt: "length ?c < 2 ^ 63" "length out < 2 ^ 63" using True assms that by (simp_all add: len)
      have "length buf = min (length out) (length ?c - unat off)" using that by (simp add: len)
      from file_read_at_eq [OF lt, folded this] show ?thesis using True that by simp
    qed
    with True w len nth show ?thesis by auto
  next
    case False
    then show ?thesis
      using e L assms by (auto simp: file_write_at_def Let_def vec_resize_def word_less_nat_alt and_then_case)
  qed
qed

text \<open>
  C20. Writing: when the range ends below \<open>2 ^ 63\<close>, the write puts exactly the buffer at \<open>offset\<close>, fills
  a gap behind the old end with zeros, keeps every other byte, and a read of that range returns the
  buffer; a range beyond that panics.
\<close>

theorem file_write_exact:
  assumes "length content < 2 ^ 63" and "length buf < 2 ^ 63"
  shows "if unat off + length buf < 2 ^ 63
    then \<exists>content'. file_write_at content off buf = Ok (of_nat (length buf), content') \<and>
      length content' = max (length content) (unat off + length buf) \<and>
      (\<forall>i < length content'. content' ! i =
         (if unat off \<le> i \<and> i < unat off + length buf then buf ! (i - unat off)
          else if i < length content then content ! i else 0)) \<and>
      (\<forall>out. length out = length buf \<longrightarrow>
         file_read_at content' off out = Ok (of_nat (length buf), buf))
    else file_write_at content off buf = Panic"
  using file_write_spec [OF assms] .

theorem file_write_exact_witness:
  "\<exists>content'. file_write_at [1, 2, 3] 4 [7, 8] = Ok (2, content') \<and> length content' = 6 \<and>
     content' ! 3 = 0 \<and> content' ! 4 = 7 \<and> file_read_at content' 4 [0, 0] = Ok (2, [7, 8])"
proof -
  obtain c where c: "file_write_at [1, 2, 3] 4 [7, 8] = Ok (2, c)" "length c = 6"
      "\<forall>i < 6. c ! i = (if 4 \<le> i \<and> i < 6 then [7, 8] ! (i - 4) else if i < 3 then [1, 2, 3] ! i else 0)"
      "\<forall>out. length out = Suc (Suc 0) \<longrightarrow> file_read_at c 4 out = Ok (2, [7, 8])"
    using file_write_exact [of "[1, 2, 3]" "[7, 8]" 4] by auto
  then show ?thesis by simp
qed

section \<open>Directory listings\<close>

definition node_type :: "ram_heap \<Rightarrow> nat \<Rightarrow> vfs_node_type" where
  "node_type h i = (case rh_node h i of Some (DirNode _) \<Rightarrow> TypeDir | _ \<Rightarrow> TypeFile)"

definition listing :: "ram_heap \<Rightarrow> dir_node \<Rightarrow> vfs_dir_entry list" where
  "listing h d =
     [\<lparr>de_name = ''.'', de_type = TypeDir\<rparr>, \<lparr>de_name = ''..'', de_type = TypeDir\<rparr>] @
     map (\<lambda>(name, c). \<lparr>de_name = name, de_type = node_type h c\<rparr>) (dn_children d)"

lemma listing_length [simp]: "length (listing h d) = 2 + length (dn_children d)"
  by (simp add: listing_def)

lemma node_get_attr_type:
  "rh_node h c \<noteq> None \<Longrightarrow> \<exists>a. node_get_attr D h c = Ok a \<and> attr_type a = node_type h c"
  by (auto simp: node_get_attr_def node_type_def file_get_attr_def dir_get_attr_def split: ram_node.split)

lemma listing_nth:
  "listing h d ! 0 = \<lparr>de_name = ''.'', de_type = TypeDir\<rparr>"
  "listing h d ! 1 = \<lparr>de_name = ''..'', de_type = TypeDir\<rparr>"
  "2 \<le> n \<Longrightarrow> n - 2 < length (dn_children d) \<Longrightarrow> dn_children d ! (n - 2) = (name, c) \<Longrightarrow>
     listing h d ! n = \<lparr>de_name = name, de_type = node_type h c\<rparr>"
  by (simp_all add: listing_def nth_append nth_Cons' numeral_2_eq_2)

lemma listing_fits:
  "\<forall>name c. (name, c) \<in> set (dn_children d) \<longrightarrow> name_fits name \<Longrightarrow> \<forall>e \<in> set (listing h d). name_fits (de_name e)"
  by (auto simp: listing_def name_fits_def)

lemma fill_step:
  assumes "n < length L"
  shows "take (min (Suc (length buf)) (length L - n)) (drop n L) @ drop (min (Suc (length buf)) (length L - n)) (e # buf) =
    L ! n # (take (min (length buf) (length L - Suc n)) (drop (Suc n) L) @
      drop (min (length buf) (length L - Suc n)) buf)"
proof -
  have "min (Suc (length buf)) (length L - n) = Suc (min (length buf) (length L - Suc n))"
    using assms by linarith
  then show ?thesis using assms by (simp add: Cons_nth_drop_Suc [symmetric])
qed

lemma read_dir_loop_eq:
  assumes live: "\<And>name c. (name, c) \<in> set (dn_children d) \<Longrightarrow> rh_node h c \<noteq> None"
    and made: "entries_made (new_dir_entry D) (listing h d)"
    and bound: "unat start_idx + i + length buf < 2 ^ 64"
  shows "read_dir_loop D h start_idx i (drop (unat start_idx + i - 2) (dn_children d)) buf =
    Ok (of_nat (i + min (length buf) (length (listing h d) - (unat start_idx + i))),
        take (min (length buf) (length (listing h d) - (unat start_idx + i)))
          (drop (unat start_idx + i) (listing h d)) @
        drop (min (length buf) (length (listing h d) - (unat start_idx + i))) buf)"
  using bound
proof (induction buf arbitrary: i)
  case (Cons ent buf)
  let ?n = "unat start_idx + i" and ?L = "listing h d" and ?cs = "dn_children d"
  let ?rest = "read_dir_loop D h start_idx (Suc i) (drop (?n - 1) ?cs) buf"
  have "unat (of_nat i :: u64) = i" using Cons.prems by (subst unat_of_nat) simp
  then have idx: "unat (of_nat i + start_idx :: u64) = ?n"
    using Cons.prems by (subst unat_add_usize) simp_all
  then have cmp: "of_nat i + start_idx = (0 :: u64) \<longleftrightarrow> ?n = 0" "of_nat i + start_idx = (1 :: u64) \<longleftrightarrow> ?n = 1"
    by (metis unat_0 unat_eq_zero, metis unat_1 word_unat_eq_iff)
  show ?case
  proof (cases "?n < length ?L")
    case True
    have new: "new_dir_entry D (de_name (?L ! ?n)) (de_type (?L ! ?n)) = Ok (?L ! ?n)"
      using made nth_mem [OF True] unfolding entries_made_def by blast
    have "read_dir_loop D h start_idx i (drop (?n - 2) ?cs) (ent # buf) =
        and_then ?rest (\<lambda>(k, ents). Ok (k, ?L ! ?n # ents))"
    proof (cases "?n < 2")
      case True
      have sub: "(1 :: nat) - 2 = 0" "(1 :: nat) - 1 = 0" by simp_all
      from True consider (zero) "?n = 0" | (one) "?n = 1" by linarith
      then show ?thesis
      proof cases
        case zero
        note cmp(1) [THEN iffD2, OF zero]
        then show ?thesis
          using new unfolding zero
          by (simp only: read_dir_loop.simps Let_def listing_nth(1) simp_thms if_True diff_0_eq_0
              vfs_dir_entry.simps and_then.simps)
      next
        case one
        note cmp(2) [THEN iffD2, OF one]
        then show ?thesis
          using new unfolding one
          by (simp only: read_dir_loop.simps Let_def listing_nth(2) simp_thms if_True if_False
              one_neq_zero sub vfs_dir_entry.simps and_then.simps)
      qed
    next
      case False
      with True have lt: "?n - 2 < length ?cs" by simp
      obtain name c where nc: "?cs ! (?n - 2) = (name, c)" by fastforce
      have "Suc (?n - 2) = ?n - 1" using False by linarith
      then have "drop (?n - 2) ?cs = (name, c) # drop (?n - 1) ?cs"
        using nc Cons_nth_drop_Suc [OF lt] by simp
      moreover have "rh_node h c \<noteq> None" using live nc lt by (metis nth_mem)
      then obtain a where "node_get_attr D h c = Ok a" "attr_type a = node_type h c"
        using node_get_attr_type by blast
      moreover have "of_nat i + start_idx \<noteq> (0 :: u64)" "of_nat i + start_idx \<noteq> (1 :: u64)"
        unfolding cmp using False by linarith+
      ultimately show ?thesis
        using False new listing_nth(3) [OF _ lt nc, of h] by (simp add: Let_def)
    qed
    also have "?rest = Ok (of_nat (Suc i + min (length buf) (length ?L - Suc ?n)),
        take (min (length buf) (length ?L - Suc ?n)) (drop (Suc ?n) ?L) @
        drop (min (length buf) (length ?L - Suc ?n)) buf)"
      using Cons.IH [of "Suc i"] Cons.prems by simp
    finally have "read_dir_loop D h start_idx i (drop (?n - 2) ?cs) (ent # buf) =
        Ok (of_nat (Suc i + min (length buf) (length ?L - Suc ?n)),
          ?L ! ?n # take (min (length buf) (length ?L - Suc ?n)) (drop (Suc ?n) ?L) @
            drop (min (length buf) (length ?L - Suc ?n)) buf)" by simp
    moreover have "Suc i + min (length buf) (length ?L - Suc ?n) = i + min (Suc (length buf)) (length ?L - ?n)"
      using True by linarith
    ultimately show ?thesis
      using fill_step [OF True, of buf ent] by (simp only: length_Cons)
  next
    case False
    then have "of_nat i + start_idx \<noteq> (0 :: u64)" "of_nat i + start_idx \<noteq> (1 :: u64)"
      unfolding cmp listing_length by linarith+
    moreover have "drop (?n - 2) ?cs = []" using False by simp
    ultimately show ?thesis using False by (simp add: Let_def)
  qed
qed simp

lemma read_dir_spec:
  assumes "heap_inv h" and "rh_node h nid = Some (DirNode d)"
    and "unat start_idx + length buf < 2 ^ 64"
    and "k = min (length buf) (length (listing h d) - unat start_idx)"
    and "entries_made (new_dir_entry D) (listing h d)"
  shows "node_read_dir D h nid start_idx buf =
    Ok (of_nat k, take k (drop (unat start_idx) (listing h d)) @ drop k buf)"
proof -
  have live: "rh_node h c \<noteq> None" if "(name, c) \<in> set (dn_children d)" for name c
    using that assms(2) heap_invD(4) [OF assms(1), of nid name c]
      bt.get_iff_entry [OF heap_invD(2) [OF assms(1,2)]] by (simp add: child_dir)
  have "unat (max start_idx 2 - 2) = unat start_idx - 2"
    by (simp add: unat_sub_usize max_def word_le_nat_alt)
  then show ?thesis
    using read_dir_loop_eq [of d h D start_idx 0 buf, OF live assms(5)] assms(2-4)
    by (simp add: node_read_dir_def dir_read_dir_def)
qed

text \<open>
  C34. Listing a directory all of whose names fit an entry of \<^verbatim>\<open>axfs_vfs\<close> (63 bytes): a call that starts at \<open>start_idx\<close> fills the buffer with the entries from
  there on, in name order after \<^verbatim>\<open>.\<close> and \<^verbatim>\<open>..\<close>, each with its type, as far as the buffer or the
  directory goes, and returns how many; so calls that continue where the last one ended see every
  entry once.
\<close>

theorem read_dir_exact:
  assumes "heap_inv h" and "rh_node h nid = Some (DirNode d)"
    and "unat start_idx + length buf < 2 ^ 64"
    and "k = min (length buf) (length (listing h d) - unat start_idx)"
    and "documented_dir_entry (new_dir_entry D)" and "\<forall>name c. (name, c) \<in> set (dn_children d) \<longrightarrow> name_fits name"
  shows "node_read_dir D h nid start_idx buf =
    Ok (of_nat k, take k (drop (unat start_idx) (listing h d)) @ drop k buf)"
  using read_dir_spec [OF assms(1-4) documented_entries_made [OF assms(5) listing_fits [OF assms(6)]]] .

theorem read_dir_exact_witness:
  "heap_inv example_tree \<and>
   (let e = \<lparr>de_name = [], de_type = TypeFile\<rparr> in
    node_read_dir example_defaults example_tree 0 1 [e, e, e, e] =
      Ok (3, [\<lparr>de_name = ''..'', de_type = TypeDir\<rparr>, \<lparr>de_name = ''a'', de_type = TypeFile\<rparr>,
              \<lparr>de_name = ''d'', de_type = TypeDir\<rparr>, e]))"
proof -
  have inv: "heap_inv example_tree"
    using ram_reachable_inv [OF example_world_reachable example_defaults_documented]
    by (simp add: ram_inv_def example_world_def)
  have d: "rh_node example_tree 0 = Some (DirNode \<lparr>dn_parent = None, dn_children = [(''a'', 1), (''d'', 2)]\<rparr>)"
    by (simp add: example_tree_def)
  let ?e = "\<lparr>de_name = [], de_type = TypeFile\<rparr>"
  have "listing example_tree \<lparr>dn_parent = None, dn_children = [(''a'', 1), (''d'', 2)]\<rparr> =
      [\<lparr>de_name = ''.'', de_type = TypeDir\<rparr>, \<lparr>de_name = ''..'', de_type = TypeDir\<rparr>,
       \<lparr>de_name = ''a'', de_type = TypeFile\<rparr>, \<lparr>de_name = ''d'', de_type = TypeDir\<rparr>]"
    by (simp add: listing_def node_type_def example_tree_def)
  moreover have "documented_dir_entry (new_dir_entry (example_defaults :: nat vfs_defaults))"
    by (simp add: example_defaults_def std_defaults_def example_entry_documented)
  ultimately show ?thesis
    using inv read_dir_exact [OF inv d _ refl, of 1 "[?e, ?e, ?e, ?e]" example_defaults]
    by (simp add: name_fits_def)
qed

end
