(* ===== verification/Ramfs_Vfs.thy ===== *)
theory Ramfs_Vfs
  imports Vfs_Contract Ramfs_Spec Ramfs_Files
begin

text \<open>
  The RAM file system behind the kernel's file operations: its operations as the method table of
  \<^verbatim>\<open>Vfs_Root\<close>, the proof that it keeps the contract \<open>file_system\<close>, the instances the kernel mounts
  (\<^verbatim>\<open>modules/axfs/src/mounts.rs\<close>), and what follows for paths, open files and directory iterators. A
  file system is the index of its instance in the state.
\<close>

section \<open>The method table\<close>

definition on_heap :: "ram_world \<Rightarrow> (ax_error, 'a) outcome \<times> ram_heap \<Rightarrow> (ax_error, 'a) outcome \<times> ram_world" where
  "on_heap w r = (fst r, w\<lparr>rw_heap := snd r\<rparr>)"

definition ram_mount ::
    "nat vfs_defaults \<Rightarrow> ram_world \<Rightarrow> nat \<Rightarrow> string \<Rightarrow> nat \<Rightarrow> (ax_error, unit) outcome \<times> ram_world" where
  "ram_mount D w fs path node =
     (case ramfs_mount D (rw_heap w) (rw_fs w ! fs) path node of
        (r, fs', h') \<Rightarrow> (r, \<lparr>rw_heap = h', rw_fs = (rw_fs w)[fs := fs']\<rparr>))"

definition ram_fsync :: "nat vfs_defaults \<Rightarrow> ram_world \<Rightarrow> nat \<Rightarrow> (ax_error, unit) outcome \<times> ram_world" where
  "ram_fsync D w n =
     (case rh_node (rw_heap w) n of Some (DirNode _) \<Rightarrow> (dir_fsync D, w) | _ \<Rightarrow> (default_fsync D, w))"

definition ram_vfs_ops :: "nat vfs_defaults \<Rightarrow> (string \<Rightarrow> string) \<Rightarrow> (ram_world, nat, nat) vfs_ops" where
  "ram_vfs_ops D canonicalize =
     \<lparr>v_root_dir = (\<lambda>w fs. ramfs_root_dir (rw_fs w ! fs)),
      v_mount = ram_mount D,
      v_umount = (\<lambda>w fs. (default_umount D, w)),
      v_get_attr = (\<lambda>w n. node_get_attr D (rw_heap w) n),
      v_lookup = (\<lambda>w n path. node_lookup D (rw_heap w) n path),
      v_create = (\<lambda>w n path ty. on_heap w (node_create D (rw_heap w) n path ty)),
      v_remove = (\<lambda>w n path. on_heap w (node_remove D (rw_heap w) n path)),
      v_rename = (\<lambda>w n src dst. on_heap w (node_rename D (rw_heap w) n src dst)),
      v_open = (\<lambda>w n. (default_open D, w)),
      v_release = (\<lambda>w n. (default_release D, w)),
      v_truncate = (\<lambda>w n len. on_heap w (node_truncate D (rw_heap w) n len)),
      v_read_at = (\<lambda>w n off buf. (node_read_at D (rw_heap w) n off buf, w)),
      v_write_at = (\<lambda>w n off buf. on_heap w (node_write_at D (rw_heap w) n off buf)),
      v_fsync = ram_fsync D,
      v_read_dir = (\<lambda>w n i dirents. node_read_dir D (rw_heap w) n i dirents),
      v_canonicalize = canonicalize,
      v_can_access = (\<lambda>have want. want \<subseteq> have)\<rparr>"

lemma ram_vfs_sel:
  "v_lookup (ram_vfs_ops D canon) w n path = node_lookup D (rw_heap w) n path"
  "v_get_attr (ram_vfs_ops D canon) w n = node_get_attr D (rw_heap w) n"
  by (simp_all add: ram_vfs_ops_def)

definition ram_listing :: "ram_world \<Rightarrow> nat \<Rightarrow> vfs_dir_entry list" where
  "ram_listing w n = (case rh_node (rw_heap w) n of Some (DirNode d) \<Rightarrow> listing (rw_heap w) d | _ \<Rightarrow> [])"

lemma on_heap_eq: "on_heap w r = (x, w') \<longleftrightarrow> r = (x, rw_heap w') \<and> rw_fs w' = rw_fs w"
  by (cases r, cases w, cases w') (auto simp: on_heap_def)

lemma world_heap: "rw_fs w' = rw_fs (w :: ram_world) \<Longrightarrow> w\<lparr>rw_heap := rw_heap w'\<rparr> = w'"
  by (cases w, cases w') simp

section \<open>The contract is kept\<close>

lemma ram_inv_step: "ram_step (std_defaults fp dp ne) w w' \<Longrightarrow> ram_inv w \<Longrightarrow> ram_inv w'"
  using ram_step_inv [OF std_defaults_documented] .

lemma node_create_Ok_live:
  assumes "documented_defaults D" and "node_create D h n p ty = (Ok (), h')"
  shows "rh_node h n \<noteq> None"
  using assms(2) by (cases "rh_node h n") (simp_all add: node_create.simps [of D h n])

lemma create_keeps_paths:
  assumes "documented_defaults D" and "heap_inv h" and "node_create D h n p ty = (Ok (), h')"
    and "node_lookup D h m q = Ok c"
  shows "node_lookup D h' m q = Ok c"
proof (cases "ordinary (last (comps p))")
  case True
  then show ?thesis using create_spec [OF assms(1,2) True] assms(3,4) by blast
next
  case False
  then have "h' = h"
    using assms(3) last_comps_no_slash [of p]
    by (auto simp: node_create_walk [OF assms(1)] create_at_def ordinary_def
        split: outcome.splits option.splits ram_node.splits if_splits)
  then show ?thesis using assms(4) by simp
qed

lemma node_write_keeps:
  "node_write_at D h n off buf = (r, h') \<Longrightarrow> rh_node h n \<noteq> None \<Longrightarrow> rh_node h' n \<noteq> None"
  by (auto simp: node_write_at_def rh_node_heap_set split: option.splits ram_node.splits outcome.splits)

lemma node_write_read:
  assumes D: "documented_defaults D" and inv: "heap_inv h" and len: "length buf < 2 ^ 63"
    and wr: "node_write_at D h n off buf = (Ok k, h')" and out: "length out = length buf"
  shows "k = of_nat (length buf) \<and> node_read_at D h' n off out = Ok (k, buf)"
proof -
  obtain f f' where f: "rh_node h n = Some (FileNode f)" and w: "file_write_at f off buf = Ok (k, f')"
    and h': "h' = heap_set h n (FileNode f')"
    using wr D by (auto simp: node_write_at_def documented_defaults_def
        split: option.splits ram_node.splits outcome.splits)
  note spec = file_write_spec [OF heap_invD(8) [OF inv f] len, of off]
  have "unat off + length buf < 2 ^ 63" using spec w by (auto split: if_splits)
  then show ?thesis using spec w out by (auto simp: node_read_at_def h' rh_node_heap_set)
qed

lemma ram_create_exists:
  assumes "ram_inv s" and "ordinary (last (comps p))"
    and "v_lookup (ram_vfs_ops (std_defaults fp dp ne) canon) s n p = Ok c"
  shows "v_create (ram_vfs_ops (std_defaults fp dp ne) canon) s n p ty = (Err AlreadyExists, s)"
proof -
  have "node_lookup (std_defaults fp dp ne) (rw_heap s) n p = Ok c" using assms(3) by (simp add: ram_vfs_ops_def)
  then have "node_create (std_defaults fp dp ne) (rw_heap s) n p ty = (Err AlreadyExists, rw_heap s)"
    using create_spec [OF std_defaults_documented _ assms(2)] assms(1) unfolding ram_inv_def by blast
  then show ?thesis by (simp add: ram_vfs_ops_def on_heap_def)
qed

lemma ram_create_made:
  assumes inv: "ram_inv s" and ord: "ordinary (last (comps p))"
    and cr: "v_create (ram_vfs_ops (std_defaults fp dp ne) canon) s n p TypeFile = (Ok (), s')"
  shows "ram_inv s' \<and> (\<exists>c a. v_lookup (ram_vfs_ops (std_defaults fp dp ne) canon) s' n p = Ok c \<and>
    v_get_attr (ram_vfs_ops (std_defaults fp dp ne) canon) s' c = Ok a \<and> attr_type a = TypeFile \<and> attr_size a = 0)"
proof -
  let ?D = "std_defaults fp dp ne :: nat vfs_defaults"
  have c: "node_create ?D (rw_heap s) n p TypeFile = (Ok (), rw_heap s')" and fs: "rw_fs s' = rw_fs s"
    using cr by (simp_all add: ram_vfs_ops_def on_heap_eq)
  have "ram_step ?D s (s\<lparr>rw_heap := rw_heap s'\<rparr>)"
    by (rule step_create [OF node_create_Ok_live [OF std_defaults_documented c] c])
  then have "ram_inv s'" using inv world_heap [OF fs] ram_inv_step by metis
  moreover obtain x where "node_lookup ?D (rw_heap s') n p = Ok x" "rh_node (rw_heap s') x = Some (FileNode [])"
    using create_spec [OF std_defaults_documented _ ord, of "rw_heap s"] inv c unfolding ram_inv_def by blast
  ultimately show ?thesis
    by (simp add: ram_vfs_ops_def node_get_attr_def Ramfs.file_get_attr_def)
qed

lemma ram_write_read:
  assumes inv: "ram_inv s" and len: "length buf < 2 ^ 63"
    and wr: "v_write_at (ram_vfs_ops (std_defaults fp dp ne) canon) s n off buf = (Ok k, s')"
  shows "ram_inv s' \<and> k = of_nat (length buf) \<and>
    (\<exists>a. v_get_attr (ram_vfs_ops (std_defaults fp dp ne) canon) s' n = Ok a) \<and>
    (length out = length buf \<longrightarrow>
       v_read_at (ram_vfs_ops (std_defaults fp dp ne) canon) s' n off out = (Ok (k, buf), s'))"
proof -
  let ?D = "std_defaults fp dp ne :: nat vfs_defaults"
  have w: "node_write_at ?D (rw_heap s) n off buf = (Ok k, rw_heap s')" and fs: "rw_fs s' = rw_fs s"
    using wr by (simp_all add: ram_vfs_ops_def on_heap_eq)
  have h: "heap_inv (rw_heap s)" using inv by (simp add: ram_inv_def)
  have live: "rh_node (rw_heap s) n \<noteq> None" using w by (cases "rh_node (rw_heap s) n") (simp_all add: node_write_at_def)
  have "ram_step ?D s (s\<lparr>rw_heap := rw_heap s'\<rparr>)" by (rule step_write [OF live len w])
  then have "ram_inv s'" using inv world_heap [OF fs] ram_inv_step by metis
  moreover have "rh_node (rw_heap s') n \<noteq> None"
    using w live by (rule node_write_keeps)
  then obtain a where "node_get_attr ?D (rw_heap s') n = Ok a" using node_get_attr_type by blast
  ultimately show ?thesis
    using node_write_read [OF std_defaults_documented h len w refl]
      node_write_read [OF std_defaults_documented h len w, of out] by (simp add: ram_vfs_ops_def)
qed

lemma ram_lists:
  assumes inv: "ram_inv s" and made: "entries_made ne (ram_listing s n)" and attr: "v_get_attr (ram_vfs_ops (std_defaults fp dp ne) canon) s n = Ok a" "is_dir a"
    and len: "unat i + length ents < 2 ^ 64"
  shows "v_read_dir (ram_vfs_ops (std_defaults fp dp ne) canon) s n i ents =
      Ok (of_nat (min (length ents) (length (ram_listing s n) - unat i)),
          take (min (length ents) (length (ram_listing s n) - unat i)) (drop (unat i) (ram_listing s n)) @
          drop (min (length ents) (length (ram_listing s n) - unat i)) ents)"
proof -
  obtain d where d: "rh_node (rw_heap s) n = Some (DirNode d)"
    using attr by (auto simp: ram_vfs_ops_def node_get_attr_def is_dir_def Ramfs.file_get_attr_def
        split: option.splits ram_node.splits)
  then have l: "ram_listing s n = listing (rw_heap s) d" by (simp add: ram_listing_def)
  have "heap_inv (rw_heap s)" using inv by (simp add: ram_inv_def)
  from read_dir_spec [OF this d len refl, of "std_defaults fp dp ne"] made [unfolded l]
  show ?thesis unfolding l by (simp add: ram_vfs_ops_def std_defaults_def)
qed

interpretation ram: file_system "ram_vfs_ops (std_defaults fp dp ne) canon" ram_inv ram_listing
    "\<lambda>s n. entries_made ne (ram_listing s n)" for fp dp ne canon
proof (rule file_system.intro, goal_cases)
  case 1
  show ?case by (simp add: documented_caps_def ram_vfs_ops_def)
next
  case (2 s p n c ty)
  then show ?case by (rule ram_create_exists)
next
  case (3 s p n s')
  then show ?case by (rule ram_create_made)
next
  case (4 s n p ty s' m q c)
  then have "node_create (std_defaults fp dp ne) (rw_heap s) n p ty = (Ok (), rw_heap s')"
    and "node_lookup (std_defaults fp dp ne) (rw_heap s) m q = Ok c" and "heap_inv (rw_heap s)"
    by (simp_all add: ram_vfs_ops_def on_heap_eq ram_inv_def)
  then show ?case
    using create_keeps_paths [OF std_defaults_documented] by (simp add: ram_vfs_ops_def)
next
  case (5 s n p ty r s' fs)
  then show ?case by (simp add: ram_vfs_ops_def on_heap_eq)
next
  case (6 s buf n off k s' out)
  then show ?case by (rule ram_write_read)
next
  case (7 s n a i ents)
  then show ?case by (rule ram_lists)
qed

section \<open>The instances the kernel mounts (modules/axfs/src/mounts.rs)\<close>

text \<open>A byte string literal.\<close>

definition bytes :: "string \<Rightarrow> u8 list" where
  "bytes s = map (\<lambda>c. of_nat (of_char c)) s"

definition newline :: string where
  "newline = [CHR 0x0A]"

definition new_instance :: "ram_world \<Rightarrow> nat \<times> nat \<times> ram_world" where
  "new_instance w =
     (case ramfs_new (rw_heap w) of
        (fs, h) \<Rightarrow> (length (rw_fs w), rf_root fs, \<lparr>rw_heap = h, rw_fs = rw_fs w @ [fs]\<rparr>))"

definition mounts_ramfs :: "ram_world \<Rightarrow> nat \<times> ram_world" where
  "mounts_ramfs w = (case new_instance w of (fs, root, w) \<Rightarrow> (fs, w))"

text \<open>The calls on nodes of the new instance, all through its root.\<close>

definition make :: "nat vfs_defaults \<Rightarrow> nat \<Rightarrow> string \<Rightarrow> vfs_node_type \<Rightarrow> ram_heap \<Rightarrow> (ax_error, unit) outcome \<times> ram_heap" where
  "make D root path ty h = node_create D h root path ty"

definition put :: "nat vfs_defaults \<Rightarrow> nat \<Rightarrow> string \<Rightarrow> u8 list \<Rightarrow> ram_heap \<Rightarrow> (ax_error, unit) outcome \<times> ram_heap" where
  "put D root path content h =
     and_then_st (node_lookup D h root path, h) (\<lambda>node h.
       and_then_st (node_write_at D h node 0 content) (\<lambda>_ h. (Ok (), h)))"

fun run ::
    "('h \<Rightarrow> (ax_error, unit) outcome \<times> 'h) list \<Rightarrow> 'h \<Rightarrow> (ax_error, unit) outcome \<times> 'h" where
  "run [] h = (Ok (), h)"
| "run (f # fs) h = and_then_st (f h) (\<lambda>_ h. run fs h)"

definition procfs_script :: "nat vfs_defaults \<Rightarrow> nat \<Rightarrow> (ram_heap \<Rightarrow> (ax_error, unit) outcome \<times> ram_heap) list" where
  "procfs_script D proc_root =
     [make D proc_root ''sys'' TypeDir,
      make D proc_root ''sys/net'' TypeDir,
      make D proc_root ''sys/net/core'' TypeDir,
      make D proc_root ''sys/net/core/somaxconn'' TypeFile,
      put D proc_root ''./sys/net/core/somaxconn'' (bytes (''4096'' @ newline)),
      make D proc_root ''sys/vm'' TypeDir,
      make D proc_root ''sys/vm/overcommit_memory'' TypeFile,
      put D proc_root ''./sys/vm/overcommit_memory'' (bytes (''0'' @ newline)),
      make D proc_root ''self'' TypeDir,
      make D proc_root ''self/stat'' TypeFile]"

definition sysfs_script :: "nat vfs_defaults \<Rightarrow> nat \<Rightarrow> (ram_heap \<Rightarrow> (ax_error, unit) outcome \<times> ram_heap) list" where
  "sysfs_script D sys_root =
     [make D sys_root ''kernel'' TypeDir,
      make D sys_root ''kernel/mm'' TypeDir,
      make D sys_root ''kernel/mm/transparent_hugepage'' TypeDir,
      make D sys_root ''kernel/mm/transparent_hugepage/enabled'' TypeFile,
      put D sys_root ''./kernel/mm/transparent_hugepage/enabled'' (bytes (''always [madvise] never'' @ newline)),
      make D sys_root ''devices'' TypeDir,
      make D sys_root ''devices/system'' TypeDir,
      make D sys_root ''devices/system/clocksource'' TypeDir,
      make D sys_root ''devices/system/clocksource/clocksource0'' TypeDir,
      make D sys_root ''devices/system/clocksource/clocksource0/current_clocksource'' TypeFile,
      put D sys_root ''devices/system/clocksource/clocksource0/current_clocksource'' (bytes (''tsc'' @ newline))]"

definition mounts_procfs :: "nat vfs_defaults \<Rightarrow> ram_world \<Rightarrow> (ax_error, nat) outcome \<times> ram_world" where
  "mounts_procfs D w =
     (case new_instance w of
        (fs, root, w) \<Rightarrow>
          and_then_st (on_heap w (run (procfs_script D root) (rw_heap w))) (\<lambda>_ w. (Ok fs, w)))"

definition mounts_sysfs :: "nat vfs_defaults \<Rightarrow> ram_world \<Rightarrow> (ax_error, nat) outcome \<times> ram_world" where
  "mounts_sysfs D w =
     (case new_instance w of
        (fs, root, w) \<Rightarrow>
          and_then_st (on_heap w (run (sysfs_script D root) (rw_heap w))) (\<lambda>_ w. (Ok fs, w)))"

end
