(* ===== verification/Ramfs_Boot.thy ===== *)
theory Ramfs_Boot
  imports Ramfs_Vfs "HOL-Library.Code_Target_Nat"
begin

text \<open>
  The kernel's file tree with the RAM file system in every place: the initial file systems mounted on
  one another, and open files, created files and directory iterators over them.
\<close>

section \<open>Initialisation\<close>

text \<open>The instances \<^verbatim>\<open>init_rootfs\<close> makes with the features \<^verbatim>\<open>ramfs\<close>, \<^verbatim>\<open>procfs\<close> and \<^verbatim>\<open>sysfs\<close>; instance 0 is the main one.\<close>

definition boot_instances :: "nat vfs_defaults \<Rightarrow> (ax_error, (string \<times> nat) list) outcome \<times> ram_world" where
  "boot_instances D =
     (let (main, w) = mounts_ramfs \<lparr>rw_heap = heap_empty, rw_fs = []\<rparr>;
          (tmp, w) = mounts_ramfs w
      in and_then_st (mounts_procfs D w) (\<lambda>proc w.
           and_then_st (mounts_sysfs D w) (\<lambda>sys w.
             (Ok [(''/tmp'', tmp), (''/proc'', proc), (''/sys'', sys)], w))))"

definition boot ::
    "nat vfs_defaults \<Rightarrow> (string \<Rightarrow> string) \<Rightarrow> (ax_error, (ram_world, nat, nat) vfs) outcome" where
  "boot D canonicalize =
     (case boot_instances D of
        (Ok selected, w) \<Rightarrow> init_rootfs (ram_vfs_ops D canonicalize) w 0 selected
      | _ \<Rightarrow> Panic)"

definition content_at ::
    "nat vfs_defaults \<Rightarrow> (string \<Rightarrow> string) \<Rightarrow> (ram_world, nat, nat) vfs \<Rightarrow> string \<Rightarrow> u8 list option" where
  "content_at D canonicalize w path =
     (case vfs_lookup (ram_vfs_ops D canonicalize) w None path of
        Ok n \<Rightarrow> (case rh_node (rw_heap (vfs_nodes w)) n of Some (FileNode f) \<Rightarrow> Some f | _ \<Rightarrow> None)
      | _ \<Rightarrow> None)"

text \<open>
  Initialisation does not fail: building procfs and sysfs (whose result the code unwraps) and every
  mount succeed, the files have the content the code writes, a path through a mount point reaches the
  mounted instance, and \<^verbatim>\<open>..\<close> from a mounted root leads back to the root directory of the main one.
\<close>

theorem boot_succeeds:
  "case boot (std_defaults fp dp ne) canon of
     Ok w \<Rightarrow>
       content_at (std_defaults fp dp ne) canon w ''/proc/sys/net/core/somaxconn'' = Some (bytes (''4096'' @ newline)) \<and>
       content_at (std_defaults fp dp ne) canon w ''/proc/sys/vm/overcommit_memory'' = Some (bytes (''0'' @ newline)) \<and>
       content_at (std_defaults fp dp ne) canon w ''proc/self/stat'' = Some [] \<and>
       content_at (std_defaults fp dp ne) canon w ''/sys/kernel/mm/transparent_hugepage/enabled'' =
         Some (bytes (''always [madvise] never'' @ newline)) \<and>
       content_at (std_defaults fp dp ne) canon w ''/sys/devices/system/clocksource/clocksource0/current_clocksource'' =
         Some (bytes (''tsc'' @ newline)) \<and>
       vfs_lookup (ram_vfs_ops (std_defaults fp dp ne) canon) w None ''/tmp/..'' = Ok 0 \<and>
       map mp_path (mounts (vfs_root w)) = [''/tmp'', ''/proc'', ''/sys'']
   | _ \<Rightarrow> False"
  by code_simp

section \<open>Files and directories over the RAM file system\<close>

text \<open>The example tree as the only instance, for the witnesses.\<close>

definition example_vfs :: "(ram_world, nat, nat) vfs" where
  "example_vfs = \<lparr>vfs_nodes = example_world, vfs_root = \<lparr>main_fs = 0, mounts = []\<rparr>,
     current_dir_node = RootDir, current_dir_path = ''/''\<rparr>"

abbreviation example_ops :: "(ram_world, nat, nat) vfs_ops" where
  "example_ops \<equiv> ram_vfs_ops (std_defaults example_perm example_perm example_entry) (\<lambda>p. p)"

lemma example_world_inv: "ram_inv example_world"
  by (rule ram_reachable_inv [OF example_world_reachable example_defaults_documented])



text \<open>
  C16. What is written through an open file is read back: after a write of \<open>k\<close> bytes, seeking to where
  it began and reading as many bytes returns the written ones and puts the cursor back to where the
  write left it, in append mode as well.
\<close>

theorem write_read_back:
  assumes "ram_inv s" and "length buf < 2 ^ 63" and "CapRead \<in> of_cap f"
    and "fops_write (ram_vfs_ops (std_defaults fp dp ne) canon) s f buf = (Ok k, f1, s1)"
    and "length out = length buf" and "start = of_offset f1 - k"
  shows "unat k = length buf \<and>
    fops_seek (ram_vfs_ops (std_defaults fp dp ne) canon) s1 f1 (SeekStart start) =
      (Ok start, f1\<lparr>of_offset := start\<rparr>) \<and>
    fops_read (ram_vfs_ops (std_defaults fp dp ne) canon) s1 (f1\<lparr>of_offset := start\<rparr>) out = (Ok (k, buf), f1, s1)"
proof -
  have "unat (of_nat (length buf) :: u64) = length buf" using assms(2) by (rule unat_len)
  then show ?thesis using ram.write_seek_read [OF assms] by simp
qed

theorem write_read_back_witness:
  "ram_inv example_world \<and>
   (let f = \<lparr>of_node = 1, of_cap = {CapRead, CapWrite}, of_append = False, of_offset = 0\<rparr> in
    \<exists>k f1 s1. fops_write example_ops example_world f [1, 2, 3] = (Ok k, f1, s1) \<and> unat k = 3 \<and>
      (\<exists>f2 f3 s2. fops_seek example_ops s1 f1 (SeekStart (of_offset f1 - k)) = (Ok (of_offset f1 - k), f2) \<and>
         fops_read example_ops s1 f2 [0, 0, 0] = (Ok (k, [1, 2, 3]), f3, s2)))"
proof -
  let ?f = "\<lparr>of_node = 1, of_cap = {CapRead, CapWrite}, of_append = False, of_offset = 0\<rparr> :: nat open_file"
  have "is_ok (fst (fops_write example_ops example_world ?f [1, 2, 3]))" by code_simp
  then obtain k f1 s1 where w: "fops_write example_ops example_world ?f [1, 2, 3] = (Ok k, f1, s1)"
    by (metis is_ok.elims(2) prod.collapse)
  have "length [1, 2, 3 :: u8] < 2 ^ 63" "CapRead \<in> of_cap ?f" "length [0, 0, 0 :: u8] = length [1, 2, 3 :: u8]"
    by simp_all
  from write_read_back [OF example_world_inv this(1,2) w this(3) refl] w example_world_inv
  show ?thesis by auto
qed

text \<open>
  C35. The directory iterator over a directory all of whose names fit an entry (63 bytes) yields every
  entry exactly once, in name order and with its type, without \<^verbatim>\<open>.\<close> and \<^verbatim>\<open>..\<close>, and then ends, however
  many refills of its 31-entry buffer that takes.
\<close>

theorem read_dir_complete:
  assumes "ram_inv (vfs_nodes w)"
    and "read_dir_new (ram_vfs_ops (std_defaults fp dp ne) canon) w path e = (Ok it, w')"
    and "vfs_lookup (ram_vfs_ops (std_defaults fp dp ne) canon) w None path = Ok n"
    and "length (ram_listing (vfs_nodes w) n) + 31 < 2 ^ 64"
    and "documented_dir_entry ne" and "\<forall>e \<in> set (ram_listing (vfs_nodes w) n). name_fits (de_name e)"
  shows "drain (ram_vfs_ops (std_defaults fp dp ne) canon) (vfs_nodes w') it
      (Suc (length (filter not_dots (ram_listing (vfs_nodes w) n)))) =
    Some (map (\<lambda>e. Some (Ok e)) (filter not_dots (ram_listing (vfs_nodes w) n)) @ [None])"
proof -
  let ?V = "ram_vfs_ops (std_defaults fp dp ne) canon"
  obtain a where a: "v_get_attr ?V (vfs_nodes w) n = Ok a" "is_dir a" and same: "vfs_nodes w' = vfs_nodes w"
    and it: "ri_inner it = \<lparr>od_node = n, od_cap = {CapRead}, od_entry_idx = 0\<rparr>" "ri_buf_pos it = 0"
      "ri_buf_end it = 0" "\<not> ri_end_of_stream it" "length (ri_dirent_buf it) = 31"
    using assms(2,3)
    by (auto simp: read_dir_new_def fops_open_dir_def fops_dir_open_at_def and_then_st_eq_Ok Let_def
        on_nodes_def cap_from_options_def open_options_new_def ram_vfs_ops_def split: if_splits)
  have "iter_at (ram_listing (vfs_nodes w) n) n it (ram_listing (vfs_nodes w) n)"
    using it by (simp add: iter_at_def)
  from ram.drain_all [OF assms(1) documented_entries_made [OF assms(5,6)] a assms(4) this] show ?thesis by (simp add: same)
qed

theorem read_dir_complete_witness:
  "ram_inv (vfs_nodes example_vfs) \<and>
   (\<exists>it w'. read_dir_new example_ops example_vfs ''/'' \<lparr>de_name = [], de_type = TypeFile\<rparr> = (Ok it, w') \<and>
      drain example_ops (vfs_nodes w') it 3 =
        Some [Some (Ok \<lparr>de_name = ''a'', de_type = TypeFile\<rparr>), Some (Ok \<lparr>de_name = ''d'', de_type = TypeDir\<rparr>), None])"
proof -
  let ?e = "\<lparr>de_name = [], de_type = TypeFile\<rparr>"
  have inv: "ram_inv (vfs_nodes example_vfs)" by (simp add: example_vfs_def example_world_inv)
  have "is_ok (fst (read_dir_new example_ops example_vfs ''/'' ?e))" by code_simp
  then obtain it w' where it: "read_dir_new example_ops example_vfs ''/'' ?e = (Ok it, w')"
    by (metis is_ok.elims(2) prod.collapse)
  have n: "vfs_lookup example_ops example_vfs None ''/'' = Ok 0" by code_simp
  have l: "filter not_dots (ram_listing (vfs_nodes example_vfs) 0) =
      [\<lparr>de_name = ''a'', de_type = TypeFile\<rparr>, \<lparr>de_name = ''d'', de_type = TypeDir\<rparr>]" by code_simp
  have "length (ram_listing (vfs_nodes example_vfs) 0) + 31 < 2 ^ 64"
    "\<forall>e \<in> set (ram_listing (vfs_nodes example_vfs) 0). name_fits (de_name e)" by code_simp+
  from read_dir_complete [OF inv it n this(1) example_entry_documented this(2)] show ?thesis using inv it by (simp add: l numeral_3_eq_3)
qed

text \<open>
  Mounting on a directory (or anything else) that exists already in the main file system, a ramfs,
  always fails with \<open>AlreadyExists\<close> and changes nothing: the mount point is not created only \<^emph>\<open>if it does
  not exist\<close>, as the comment in the source says, it must not exist.
\<close>

theorem mount_on_existing_fails:
  assumes "ram_inv s" and "starts_with path ''/''" and "path \<noteq> ''/''" and "\<not> root_contains rd path"
    and "ordinary (last (comps path))"
    and "node_lookup (std_defaults fp dp ne) (rw_heap s) (rf_root (rw_fs s ! main_fs rd)) path = Ok c"
  shows "root_mount (ram_vfs_ops (std_defaults fp dp ne) canon) s rd path fs = (Err AlreadyExists, s, rd)"
proof -
  let ?V = "ram_vfs_ops (std_defaults fp dp ne) canon"
  have "v_lookup ?V s (v_root_dir ?V s (main_fs rd)) path = Ok c"
    using assms(6) by (simp add: ram_vfs_ops_def ramfs_root_dir_def)
  from ram_create_exists [OF assms(1,5) this]
  have "v_create ?V s (v_root_dir ?V s (main_fs rd)) path TypeDir = (Err AlreadyExists, s)" .
  then show ?thesis using assms(2-4) by (simp add: root_mount_def)
qed

theorem mount_on_existing_fails_witness:
  "ram_inv example_world \<and>
   root_mount example_ops example_world \<lparr>main_fs = 0, mounts = []\<rparr> ''/d'' 0 =
     (Err AlreadyExists, example_world, \<lparr>main_fs = 0, mounts = []\<rparr>)"
proof -
  have h: "starts_with ''/d'' ''/''" "''/d'' \<noteq> ''/''" "\<not> root_contains \<lparr>main_fs = 0 :: nat, mounts = []\<rparr> ''/d''"
      "ordinary (last (comps ''/d''))"
    by (simp_all add: starts_with_def root_contains_def ordinary_def)
  have "node_lookup (std_defaults example_perm example_perm example_entry) (rw_heap example_world)
      (rf_root (rw_fs example_world ! main_fs \<lparr>main_fs = 0, mounts = []\<rparr>)) ''/d'' = Ok 2" by code_simp
  from mount_on_existing_fails [OF example_world_inv h this] example_world_inv show ?thesis by blast
qed

theorem root_mount_exact_witness:
  "mounts_ok \<lparr>main_fs = 0 :: nat, mounts = []\<rparr> \<and>
   (\<exists>s' rd'. root_mount example_ops example_world \<lparr>main_fs = 0, mounts = []\<rparr> ''/m'' 0 = (Ok (), s', rd') \<and>
      mounts_ok rd' \<and> lookup_mounted_fs rd' ''/m/x'' = (0, ''/x''))"
proof -
  have ok: "mounts_ok \<lparr>main_fs = 0 :: nat, mounts = []\<rparr>" by (simp add: mounts_ok_def)
  have "fst (root_mount example_ops example_world \<lparr>main_fs = 0, mounts = []\<rparr> ''/m'' 0) = Ok ()" by code_simp
  then obtain s' rd' where m:
      "root_mount example_ops example_world \<lparr>main_fs = 0, mounts = []\<rparr> ''/m'' 0 = (Ok (), s', rd')"
    by (metis prod.collapse)
  have q: "''m/x'' = trim_matches ''/m/x'' \<and> \<not> starts_with ''m/x'' ''./''"
    by (simp add: trim_matches_def trim_slashes_def starts_with_def)
  note mounted = root_mount_exact [OF ok m]
  from mounted [THEN conjunct2, THEN conjunct2, THEN conjunct2, rule_format, OF refl q]
  have "lookup_mounted_fs rd' ''/m/x'' = (0, ''/x'')" by (simp add: starts_with_def)
  then show ?thesis using ok m mounted [THEN conjunct1] by blast
qed

theorem open_capabilities_witness:
  "\<exists>f w'. fops_open_at example_ops example_vfs None ''/a'' (open_options_new\<lparr>opt_read := True\<rparr>) = (Ok f, w') \<and>
     of_cap f = {CapRead} \<and> of_offset f = 0"
proof -
  have "is_ok (fst (fops_open_at example_ops example_vfs None ''/a'' (open_options_new\<lparr>opt_read := True\<rparr>)))"
    by code_simp
  then obtain f w' where f: "fops_open_at example_ops example_vfs None ''/a'' (open_options_new\<lparr>opt_read := True\<rparr>) = (Ok f, w')"
    by (metis is_ok.elims(2) prod.collapse)
  from open_capabilities [OF f] f show ?thesis by (auto simp: cap_from_options_def open_options_new_def)
qed

theorem seek_exact_witness:
  "documented_caps example_ops \<and>
   fops_seek example_ops example_world \<lparr>of_node = 1, of_cap = {CapRead}, of_append = False, of_offset = 5\<rparr>
     (SeekCurrent (- 6)) =
   (Err InvalidInput, \<lparr>of_node = 1, of_cap = {CapRead}, of_append = False, of_offset = 5\<rparr>)"
proof -
  let ?f = "\<lparr>of_node = 1, of_cap = {CapRead}, of_append = False, of_offset = 5\<rparr> :: nat open_file"
  have caps: "documented_caps example_ops" by (rule ram.caps)
  obtain a where a: "v_get_attr example_ops example_world (of_node ?f) = Ok a"
    by (simp add: ram_vfs_sel node_get_attr_def example_world_def example_tree_def)
  from seek_exact [OF caps a refl, of "SeekCurrent (- 6)"] caps show ?thesis by simp
qed

theorem relative_ops_denied_witness:
  "documented_caps example_ops \<and>
   (\<exists>d w1. fops_open_dir example_ops example_vfs ''/d'' (open_options_new\<lparr>opt_read := True\<rparr>) = (Ok d, w1) \<and>
      fops_create_file_at example_ops w1 d ''x'' = (Err PermissionDenied, w1))"
proof -
  have caps: "documented_caps example_ops" by (rule ram.caps)
  have "is_ok (fst (fops_open_dir example_ops example_vfs ''/d'' (open_options_new\<lparr>opt_read := True\<rparr>)))" by code_simp
  then obtain d w1 where d: "fops_open_dir example_ops example_vfs ''/d'' (open_options_new\<lparr>opt_read := True\<rparr>) = (Ok d, w1)"
    by (metis is_ok.elims(2) prod.collapse)
  have "\<not> starts_with ''x'' ''/''" by (simp add: starts_with_def)
  from relative_ops_denied [OF caps d this, of w1 open_options_new] caps d show ?thesis by blast
qed

end
