(* ===== verification/Disk.thy ===== *)
theory Disk
  imports File_Ops
begin

text \<open>
  The disk with a cursor of \<^verbatim>\<open>axfs/src/dev.rs\<close> and its byte-stream interface in
  \<^verbatim>\<open>axfs/src/fs/fatfs.rs\<close> (\<^verbatim>\<open>Read\<close>, \<^verbatim>\<open>Write\<close> and \<^verbatim>\<open>Seek for Disk\<close>). The block device is a driver
  outside the tree and a parameter: its operations, and the content of its blocks, which a read of a
  block returns and a write replaces. The main results: reading and writing through the cursor is
  reading and writing a flat array of bytes, whatever the alignment, and it ends.
\<close>

section \<open>Model\<close>

definition BLOCK_SIZE :: usize where
  "BLOCK_SIZE = 512"

text \<open>The operations of a block device \<open>'d\<close> with errors \<open>'e\<close>; a read gives the bytes it puts into the buffer.\<close>

record ('d, 'e) block_ops =
  blk_num_blocks :: "'d \<Rightarrow> u64"
  blk_block_size :: "'d \<Rightarrow> usize"
  blk_read :: "'d \<Rightarrow> u64 \<Rightarrow> ('e, u8 list) outcome \<times> 'd"
  blk_write :: "'d \<Rightarrow> u64 \<Rightarrow> u8 list \<Rightarrow> ('e, unit) outcome \<times> 'd"

text \<open>Bytes copied to the front of a slice, whose length never changes.\<close>

definition copy_front :: "u8 list \<Rightarrow> u8 list \<Rightarrow> u8 list" where
  "copy_front buf bs = take (length buf) bs @ drop (length bs) buf"

record 'd disk =
  dk_block_id :: u64
  dk_offset :: usize
  dk_dev :: 'd

definition disk_new :: "('d, 'e) block_ops \<Rightarrow> 'd \<Rightarrow> ('e, 'd disk) outcome" where
  "disk_new B dev = (if BLOCK_SIZE = blk_block_size B dev
     then Ok \<lparr>dk_block_id = 0, dk_offset = 0, dk_dev = dev\<rparr> else Panic)"

definition disk_size :: "('d, 'e) block_ops \<Rightarrow> 'd disk \<Rightarrow> u64" where
  "disk_size B dk = blk_num_blocks B (dk_dev dk) * BLOCK_SIZE"

definition disk_position :: "'d disk \<Rightarrow> u64" where
  "disk_position dk = dk_block_id dk * BLOCK_SIZE + dk_offset dk"

definition disk_set_position :: "'d disk \<Rightarrow> u64 \<Rightarrow> 'd disk" where
  "disk_set_position dk pos = dk\<lparr>dk_block_id := pos div BLOCK_SIZE, dk_offset := pos mod BLOCK_SIZE\<rparr>"

definition advance :: "'d disk \<Rightarrow> usize \<Rightarrow> 'd disk" where
  "advance dk count = (let dk1 = dk\<lparr>dk_offset := dk_offset dk + count\<rparr> in
     if BLOCK_SIZE \<le> dk_offset dk1
     then dk1\<lparr>dk_block_id := dk_block_id dk1 + 1, dk_offset := dk_offset dk1 - BLOCK_SIZE\<rparr> else dk1)"

definition read_one ::
    "('d, 'e) block_ops \<Rightarrow> 'd disk \<Rightarrow> u8 list \<Rightarrow> ('e, usize \<times> u8 list) outcome \<times> 'd disk" where
  "read_one B dk buf =
    (if dk_offset dk = 0 \<and> unat BLOCK_SIZE \<le> length buf then
       (case blk_read B (dk_dev dk) (dk_block_id dk) of
          (Ok bs, dev) \<Rightarrow> (Ok (BLOCK_SIZE, copy_front (take (unat BLOCK_SIZE) buf) bs @ drop (unat BLOCK_SIZE) buf),
             dk\<lparr>dk_dev := dev, dk_block_id := dk_block_id dk + 1\<rparr>)
        | (Err e, dev) \<Rightarrow> (Err e, dk\<lparr>dk_dev := dev\<rparr>)
        | (Panic, dev) \<Rightarrow> (Panic, dk\<lparr>dk_dev := dev\<rparr>))
     else
       (let data = replicate (unat BLOCK_SIZE) 0; start = dk_offset dk;
            count = min (of_nat (length buf)) (BLOCK_SIZE - dk_offset dk) in
        case blk_read B (dk_dev dk) (dk_block_id dk) of
          (Ok bs, dev) \<Rightarrow>
            if unat (start + count) \<le> length data \<and> start \<le> start + count
            then (Ok (count, copy_front buf (take (unat count) (drop (unat start) (copy_front data bs)))),
              advance (dk\<lparr>dk_dev := dev\<rparr>) count)
            else (Panic, dk\<lparr>dk_dev := dev\<rparr>)
        | (Err e, dev) \<Rightarrow> (Err e, dk\<lparr>dk_dev := dev\<rparr>)
        | (Panic, dev) \<Rightarrow> (Panic, dk\<lparr>dk_dev := dev\<rparr>)))"

definition write_one ::
    "('d, 'e) block_ops \<Rightarrow> 'd disk \<Rightarrow> u8 list \<Rightarrow> ('e, usize) outcome \<times> 'd disk" where
  "write_one B dk buf =
    (if dk_offset dk = 0 \<and> unat BLOCK_SIZE \<le> length buf then
       (case blk_write B (dk_dev dk) (dk_block_id dk) (take (unat BLOCK_SIZE) buf) of
          (Ok _, dev) \<Rightarrow> (Ok BLOCK_SIZE, dk\<lparr>dk_dev := dev, dk_block_id := dk_block_id dk + 1\<rparr>)
        | (Err e, dev) \<Rightarrow> (Err e, dk\<lparr>dk_dev := dev\<rparr>)
        | (Panic, dev) \<Rightarrow> (Panic, dk\<lparr>dk_dev := dev\<rparr>))
     else
       (let data = replicate (unat BLOCK_SIZE) 0; start = dk_offset dk;
            count = min (of_nat (length buf)) (BLOCK_SIZE - dk_offset dk) in
        case blk_read B (dk_dev dk) (dk_block_id dk) of
          (Ok bs, dev) \<Rightarrow>
            if unat (start + count) \<le> length data \<and> start \<le> start + count
            then (let data1 = copy_front data bs;
                      data2 = take (unat start) data1 @ take (unat count) buf @ drop (unat (start + count)) data1 in
              case blk_write B dev (dk_block_id dk) data2 of
                (Ok _, dev') \<Rightarrow> (Ok count, advance (dk\<lparr>dk_dev := dev'\<rparr>) count)
              | (Err e, dev') \<Rightarrow> (Err e, dk\<lparr>dk_dev := dev'\<rparr>)
              | (Panic, dev') \<Rightarrow> (Panic, dk\<lparr>dk_dev := dev'\<rparr>))
            else (Panic, dk\<lparr>dk_dev := dev\<rparr>)
        | (Err e, dev) \<Rightarrow> (Err e, dk\<lparr>dk_dev := dev\<rparr>)
        | (Panic, dev) \<Rightarrow> (Panic, dk\<lparr>dk_dev := dev\<rparr>)))"

text \<open>The stream operations; their error type is \<^verbatim>\<open>()\<close>. A read returns the filled buffer as well.\<close>

lemma length_copy_front: "length (copy_front buf bs) = length buf"
  by (simp add: copy_front_def)

lemma read_one_length:
  "read_one B dk buf = (Ok (n, buf'), dk') \<Longrightarrow> length buf' = length buf"
  by (auto simp: read_one_def Let_def length_copy_front split: if_splits outcome.splits prod.splits)

function disk_read ::
    "('d, 'e) block_ops \<Rightarrow> 'd disk \<Rightarrow> u8 list \<Rightarrow> (unit, usize \<times> u8 list) outcome \<times> 'd disk" where
  "disk_read B dk buf =
    (if buf = [] then (Ok (0, []), dk)
     else (case read_one B dk buf of
         (Ok (n, buf'), dk') \<Rightarrow>
           if n = 0 then (Ok (0, buf'), dk')
           else if length buf' < unat n then (Panic, dk')
           else (case disk_read B dk' (drop (unat n) buf') of
               (Ok (m, rest), dk'') \<Rightarrow> (Ok (n + m, take (unat n) buf' @ rest), dk'')
             | (Err e, dk'') \<Rightarrow> (Err e, dk'')
             | (Panic, dk'') \<Rightarrow> (Panic, dk''))
       | (Err _, dk') \<Rightarrow> (Err (), dk')
       | (Panic, dk') \<Rightarrow> (Panic, dk')))"
  by pat_completeness auto

termination
  by (relation "measure (\<lambda>(B, dk, buf). length buf)")
    (auto simp: unat_gt_0 dest: read_one_length [OF sym])

function disk_write :: "('d, 'e) block_ops \<Rightarrow> 'd disk \<Rightarrow> u8 list \<Rightarrow> (unit, usize) outcome \<times> 'd disk" where
  "disk_write B dk buf =
    (if buf = [] then (Ok 0, dk)
     else (case write_one B dk buf of
         (Ok n, dk') \<Rightarrow>
           if n = 0 then (Ok 0, dk')
           else if length buf < unat n then (Panic, dk')
           else (case disk_write B dk' (drop (unat n) buf) of
               (Ok m, dk'') \<Rightarrow> (Ok (n + m), dk'')
             | (Err e, dk'') \<Rightarrow> (Err e, dk'')
             | (Panic, dk'') \<Rightarrow> (Panic, dk''))
       | (Err _, dk') \<Rightarrow> (Err (), dk')
       | (Panic, dk') \<Rightarrow> (Panic, dk')))"
  by pat_completeness auto

termination
  by (relation "measure (\<lambda>(B, dk, buf). length buf)") (auto simp: unat_gt_0)

declare disk_read.simps [simp del] disk_write.simps [simp del]

definition disk_flush :: "'d disk \<Rightarrow> (unit, unit) outcome \<times> 'd disk" where
  "disk_flush dk = (Ok (), dk)"

definition disk_seek :: "('d, 'e) block_ops \<Rightarrow> 'd disk \<Rightarrow> seek_from \<Rightarrow> (unit, u64) outcome \<times> 'd disk" where
  "disk_seek B dk pos =
    (case (case pos of SeekStart p \<Rightarrow> Some p
             | SeekCurrent off \<Rightarrow> checked_add_signed (disk_position dk) off
             | SeekEnd off \<Rightarrow> checked_add_signed (disk_size B dk) off) of
       Some new_pos \<Rightarrow> (Ok new_pos, disk_set_position dk new_pos)
     | None \<Rightarrow> (Err (), dk))"

section \<open>The device\<close>

text \<open>
  What the driver interface documents: the device is an array of blocks of 512 bytes whose bytes are
  \<open>content d\<close>. A read returns the block or an error and changes nothing; a write that succeeds
  replaces the block, one that fails changes no other block; a block that does not exist is an error.
  A device without faults fails for no other reason.
\<close>

definition block_of :: "u8 list \<Rightarrow> nat \<Rightarrow> u8 list" where
  "block_of c i = take 512 (drop (512 * i) c)"

definition with_block :: "u8 list \<Rightarrow> nat \<Rightarrow> u8 list \<Rightarrow> u8 list" where
  "with_block c i bs = take (512 * i) c @ bs @ drop (512 * i + 512) c"

definition documented_device :: "('d, 'e) block_ops \<Rightarrow> ('d \<Rightarrow> u8 list) \<Rightarrow> bool" where
  "documented_device B content \<longleftrightarrow>
    (\<forall>d. length (content d) = 512 * unat (blk_num_blocks B d) \<and> length (content d) < 2 ^ 64 \<and>
       blk_block_size B d = 512) \<and>
    (\<forall>d i. (fst (blk_read B d i) = Ok (block_of (content d) (unat i)) \<and> i < blk_num_blocks B d \<or>
           (\<exists>e. fst (blk_read B d i) = Err e)) \<and>
       content (snd (blk_read B d i)) = content d) \<and>
    (\<forall>d i bs. length bs = 512 \<longrightarrow>
       fst (blk_write B d i bs) = Ok () \<and> i < blk_num_blocks B d \<and>
         content (snd (blk_write B d i bs)) = with_block (content d) (unat i) bs \<or>
       (\<exists>e bs'. fst (blk_write B d i bs) = Err e \<and>
         (content (snd (blk_write B d i bs)) = content d \<or>
          i < blk_num_blocks B d \<and> length bs' = 512 \<and>
          content (snd (blk_write B d i bs)) = with_block (content d) (unat i) bs')))"

definition faultless_device :: "('d, 'e) block_ops \<Rightarrow> bool" where
  "faultless_device B \<longleftrightarrow> (\<forall>d i bs. i < blk_num_blocks B d \<longrightarrow>
     is_ok (fst (blk_read B d i)) \<and> (length bs = 512 \<longrightarrow> is_ok (fst (blk_write B d i bs))))"

definition dpos :: "'d disk \<Rightarrow> nat" where
  "dpos dk = 512 * unat (dk_block_id dk) + unat (dk_offset dk)"

lemma BLOCK_SIZE_unat [simp]: "unat BLOCK_SIZE = 512"
  by (simp add: BLOCK_SIZE_def)

lemma device_size:
  "documented_device B content \<Longrightarrow> length (content d) = 512 * unat (blk_num_blocks B d)"
  "documented_device B content \<Longrightarrow> length (content d) < 2 ^ 64"
  unfolding documented_device_def by blast+

lemma device_num_blocks:
  assumes "documented_device B content" and "length (content d) = length (content d')"
  shows "blk_num_blocks B d = blk_num_blocks B d'"
  using device_size(1) [OF assms(1), of d] device_size(1) [OF assms(1), of d'] assms(2)
  by (simp add: word_unat_eq_iff)

lemma device_read:
  assumes "documented_device B content"
  obtains d' where "blk_read B d i = (Ok (block_of (content d) (unat i)), d')" "i < blk_num_blocks B d"
      "content d' = content d"
  | e d' where "blk_read B d i = (Err e, d')" "content d' = content d"
proof -
  have "(fst (blk_read B d i) = Ok (block_of (content d) (unat i)) \<and> i < blk_num_blocks B d \<or>
      (\<exists>e. fst (blk_read B d i) = Err e)) \<and> content (snd (blk_read B d i)) = content d"
    using assms unfolding documented_device_def by blast
  then show thesis using that by (cases "blk_read B d i") auto
qed

lemma device_write:
  assumes "documented_device B content" and "length bs = 512"
  obtains d' where "blk_write B d i bs = (Ok (), d')" "i < blk_num_blocks B d"
      "content d' = with_block (content d) (unat i) bs"
  | e d' where "blk_write B d i bs = (Err e, d')"
proof -
  have "fst (blk_write B d i bs) = Ok () \<and> i < blk_num_blocks B d \<and>
      content (snd (blk_write B d i bs)) = with_block (content d) (unat i) bs \<or>
      (\<exists>e. fst (blk_write B d i bs) = Err e)"
    using assms unfolding documented_device_def by blast
  then show thesis using that by (cases "blk_write B d i bs") auto
qed

lemma block_in_range:
  assumes "documented_device B content" and "i < blk_num_blocks B d"
  shows "512 * unat i + 512 \<le> length (content d)" and "unat i + 1 < 2 ^ 64"
proof -
  have "unat i + 1 \<le> unat (blk_num_blocks B d)"
    using assms(2) by (simp add: word_less_nat_alt)
  then show "512 * unat i + 512 \<le> length (content d)"
    using device_size(1) [OF assms(1), of d] by simp
  then show "unat i + 1 < 2 ^ 64"
    using device_size(2) [OF assms(1), of d] by linarith
qed

lemma length_block_of: "512 * i + 512 \<le> length c \<Longrightarrow> length (block_of c i) = 512"
  by (simp add: block_of_def)

lemma copy_front_full: "length buf = length bs \<Longrightarrow> copy_front buf bs = bs"
  by (simp add: copy_front_def)

lemma copy_front_short: "length bs \<le> length buf \<Longrightarrow> copy_front buf bs = bs @ drop (length bs) buf"
  by (simp add: copy_front_def)

lemma block_slice:
  assumes "s + n \<le> 512"
  shows "take n (drop s (block_of c i)) = take n (drop (512 * i + s) c)"
  using assms by (simp add: block_of_def drop_take add.commute)

lemma slice_length: "p + n \<le> length c \<Longrightarrow> length (take n (drop p c)) = n"
  by simp

text \<open>The number of bytes of a transfer inside one block.\<close>

lemma partial_count:
  fixes off :: usize
  assumes "off < 512" and "n = min (of_nat (length buf)) (BLOCK_SIZE - off)"
    and "length (buf :: u8 list) < 2 ^ 64"
  shows "unat n = min (length buf) (512 - unat off)" and "unat (off + n) = unat off + unat n"
    and "off \<le> off + n"
proof -
  have s: "unat (BLOCK_SIZE - off) = 512 - unat off"
    using assms(1) by (simp add: unat_sub_usize BLOCK_SIZE_def)
  have l: "unat (of_nat (length buf) :: usize) = length buf"
    using assms(3) by (simp add: unat_of_nat)
  show n: "unat n = min (length buf) (512 - unat off)"
    unfolding assms(2) min_def word_le_nat_alt s l by (simp add: s l)
  have "unat off < 512" using assms(1) by (simp add: word_less_nat_alt)
  with n have b: "unat off + unat n < 2 ^ 64" by simp
  then show e: "unat (off + n) = unat off + unat n" by (rule unat_add_usize)
  show "off \<le> off + n" by (simp add: word_le_nat_alt e)
qed

lemma advance_dpos:
  assumes "unat (dk_offset dk) + unat n \<le> 512" and "unat (dk_block_id dk) + 1 < 2 ^ 64"
  shows "dpos (advance dk n) = dpos dk + unat n" and "dk_offset (advance dk n) < 512"
    and "dk_dev (advance dk n) = dk_dev dk"
proof -
  have e: "unat (dk_offset dk + n) = unat (dk_offset dk) + unat n"
    using assms(1) by (intro unat_add_usize) simp
  have b: "unat (dk_block_id dk + 1) = unat (dk_block_id dk) + 1"
    using assms(2) unat_add_usize [of "dk_block_id dk" 1] by simp
  have le: "BLOCK_SIZE \<le> dk_offset dk + n \<longleftrightarrow> unat (dk_offset dk) + unat n = 512"
    using assms(1) by (auto simp: word_le_nat_alt e)
  show "dpos (advance dk n) = dpos dk + unat n"
    using assms(1) by (auto simp: advance_def dpos_def Let_def le e b unat_sub_usize)
  show "dk_offset (advance dk n) < 512"
    using assms(1) by (auto simp: advance_def Let_def le e word_less_nat_alt unat_sub_usize)
  show "dk_dev (advance dk n) = dk_dev dk"
    by (simp add: advance_def Let_def)
qed

section \<open>Reading\<close>

lemma read_one_spec:
  assumes "documented_device B content" and "dk_offset dk < 512" and "buf \<noteq> []" and "length buf < 2 ^ 64"
    and "read_one B dk buf = (r, dk')"
  shows "dk_offset dk' < 512 \<and> content (dk_dev dk') = content (dk_dev dk) \<and> r \<noteq> Panic"
    and "r = Ok (n, out) \<Longrightarrow> n \<noteq> 0 \<and> unat n \<le> length buf \<and> dpos dk' = dpos dk + unat n \<and>
      dpos dk + unat n \<le> length (content (dk_dev dk)) \<and>
      out = take (unat n) (drop (dpos dk) (content (dk_dev dk))) @ drop (unat n) buf"
proof -
  let ?c = "content (dk_dev dk)" and ?i = "dk_block_id dk"
  define m where "m = min (of_nat (length buf)) (BLOCK_SIZE - dk_offset dk)"
  note cnt = partial_count [OF assms(2) m_def assms(4)]
  have u: "unat (dk_offset dk) < 512" using assms(2) by (simp add: word_less_nat_alt)
  have "dk_offset dk' < 512 \<and> content (dk_dev dk') = ?c \<and> r \<noteq> Panic \<and>
     (r = Ok (n, out) \<longrightarrow> n \<noteq> 0 \<and> unat n \<le> length buf \<and> dpos dk' = dpos dk + unat n \<and>
        dpos dk + unat n \<le> length ?c \<and> out = take (unat n) (drop (dpos dk) ?c) @ drop (unat n) buf)"
  proof (cases rule: device_read [OF assms(1), of "dk_dev dk" ?i])
    case (1 d')
    note rng = block_in_range [OF assms(1) 1(2)]
    note len = length_block_of [OF rng(1)]
    have b: "unat (?i + 1) = unat ?i + 1"
      using rng(2) unat_add_usize [of ?i 1] by simp
    show ?thesis
    proof (cases "dk_offset dk = 0 \<and> 512 \<le> length buf")
      case True
      have "copy_front (take 512 buf) (block_of ?c (unat ?i)) = block_of ?c (unat ?i)"
        using True by (intro copy_front_full) (simp add: len)
      then show ?thesis
        using assms(5) True rng(1)
        by (auto simp: read_one_def 1 dpos_def b block_of_def BLOCK_SIZE_def)
    next
      case False
      have le: "unat (dk_offset dk) + unat m \<le> 512" using cnt(1) u by simp
      have data: "copy_front (replicate 512 0) (block_of ?c (unat ?i)) = block_of ?c (unat ?i)"
        by (intro copy_front_full) (simp add: len)
      have got: "take (unat m) (drop (unat (dk_offset dk)) (block_of ?c (unat ?i))) =
          take (unat m) (drop (dpos dk) ?c)"
        using block_slice [OF le] by (simp add: dpos_def)
      have fits: "dpos dk + unat m \<le> length ?c"
        using le rng(1) by (simp add: dpos_def)
      have put: "copy_front buf (take (unat m) (drop (dpos dk) ?c)) =
          take (unat m) (drop (dpos dk) ?c) @ drop (unat m) buf"
        using copy_front_short [of "take (unat m) (drop (dpos dk) ?c)" buf] cnt(1)
        unfolding slice_length [OF fits] by simp
      have "(r, dk') = (Ok (m, take (unat m) (drop (dpos dk) ?c) @ drop (unat m) buf),
          advance (dk\<lparr>dk_dev := d'\<rparr>) m)"
        using assms(5) False le unfolding read_one_def
        by (simp add: 1 data got put cnt(2,3) Let_def flip: m_def)
      moreover have "m \<noteq> 0"
        using cnt(1) u assms(3) by (metis diff_is_0_eq length_0_conv min_def not_le unat_0)
      moreover have "unat m \<le> length buf" using cnt(1) by simp
      moreover have "dpos (advance (dk\<lparr>dk_dev := d'\<rparr>) m) = dpos dk + unat m"
        "dk_offset (advance (dk\<lparr>dk_dev := d'\<rparr>) m) < 512"
        "content (dk_dev (advance (dk\<lparr>dk_dev := d'\<rparr>) m)) = ?c"
        using advance_dpos [of "dk\<lparr>dk_dev := d'\<rparr>" m] le rng(2) by (simp_all add: 1(3) dpos_def)
      ultimately show ?thesis using fits by blast
    qed
  next
    case (2 e d')
    then show ?thesis using assms(2,5) by (auto simp: read_one_def Let_def split: if_splits)
  qed
  then show "dk_offset dk' < 512 \<and> content (dk_dev dk') = ?c \<and> r \<noteq> Panic"
    and "r = Ok (n, out) \<Longrightarrow> n \<noteq> 0 \<and> unat n \<le> length buf \<and> dpos dk' = dpos dk + unat n \<and>
      dpos dk + unat n \<le> length ?c \<and> out = take (unat n) (drop (dpos dk) ?c) @ drop (unat n) buf"
    by blast+
qed

lemma read_one_ok:
  assumes "documented_device B content" and "faultless_device B" and "dpos dk < length (content (dk_dev dk))"
  shows "\<nexists>e. fst (read_one B dk buf) = Err e"
proof -
  have "dk_block_id dk < blk_num_blocks B (dk_dev dk)"
    using assms(3) device_size(1) [OF assms(1), of "dk_dev dk"] by (simp add: dpos_def word_less_nat_alt)
  then have "is_ok (fst (blk_read B (dk_dev dk) (dk_block_id dk)))"
    using assms(2) unfolding faultless_device_def by blast
  then show ?thesis
    by (cases "blk_read B (dk_dev dk) (dk_block_id dk)"; cases "fst (blk_read B (dk_dev dk) (dk_block_id dk))")
      (auto simp: read_one_def Let_def)
qed

lemma disk_read_spec:
  assumes "documented_device B content" and "dk_offset dk < 512" and "length buf < 2 ^ 64"
    and "disk_read B dk buf = (r, dk')"
  shows "r \<noteq> Panic \<and> dk_offset dk' < 512 \<and> content (dk_dev dk') = content (dk_dev dk) \<and>
    (\<forall>n out. r = Ok (n, out) \<longrightarrow> unat n = length buf \<and> dpos dk' = dpos dk + length buf \<and>
       (buf \<noteq> [] \<longrightarrow> dpos dk + length buf \<le> length (content (dk_dev dk))) \<and>
       out = take (length buf) (drop (dpos dk) (content (dk_dev dk))))"
  using assms(2-4)
proof (induction "length buf" arbitrary: buf dk r dk' rule: less_induct)
  case less
  note doc = assms(1)
  let ?c = "content (dk_dev dk)"
  show ?case
  proof (cases "buf = []")
    case True
    then show ?thesis using less.prems by (auto simp: disk_read.simps [of B dk])
  next
    case False
    obtain r1 dk1 where one: "read_one B dk buf = (r1, dk1)" by fastforce
    note spec = read_one_spec [OF doc less.prems(1) False less.prems(2) one]
    show ?thesis
    proof (cases r1)
      case (Ok p)
      obtain n out where p: "p = (n, out)" by fastforce
      have s: "n \<noteq> 0" "unat n \<le> length buf" "dpos dk1 = dpos dk + unat n" "dpos dk + unat n \<le> length ?c"
        and out: "take (unat n) out = take (unat n) (drop (dpos dk) ?c)"
        using spec(2) [OF Ok [unfolded p]] by auto
      have len: "length (drop (unat n) out) = length buf - unat n"
        using read_one_length one Ok p by (metis length_drop)
      obtain r2 dk2 where two: "disk_read B dk1 (drop (unat n) out) = (r2, dk2)" by fastforce
      have shorter: "length (drop (unat n) out) < length buf"
        using s(1,2) False unfolding len by (simp add: unat_gt_0)
      have c1: "dk_offset dk1 < 512" "content (dk_dev dk1) = ?c" and lt: "length (drop (unat n) out) < 2 ^ 64"
        using spec(1) shorter less.prems(2) by simp_all
      note h = less.hyps [OF shorter c1(1) lt two, unfolded len s(3) c1(2)]
      have ih: "r2 \<noteq> Panic" "dk_offset dk2 < 512" "content (dk_dev dk2) = ?c" using h by blast+
      have ih4: "unat m = length buf - unat n \<and> dpos dk2 = dpos dk + length buf \<and>
           rest = take (length buf - unat n) (drop (dpos dk + unat n) ?c) \<and>
           dpos dk + length buf \<le> length ?c" if "r2 = Ok (m, rest)" for m rest
      proof -
        have h4: "unat m = length buf - unat n" "dpos dk2 = dpos dk + unat n + (length buf - unat n)"
          "drop (unat n) out \<noteq> [] \<longrightarrow> dpos dk + unat n + (length buf - unat n) \<le> length ?c"
          "rest = take (length buf - unat n) (drop (dpos dk + unat n) ?c)"
          using h that by blast+
        show ?thesis using h4(1,2,4) h4(3) [folded length_0_conv, unfolded len] s(2,4) by linarith
      qed
      have res: "(r, dk') = (case r2 of Ok (m, rest) \<Rightarrow> Ok (n + m, take (unat n) out @ rest)
            | Err e \<Rightarrow> Err e | Panic \<Rightarrow> Panic, dk2)"
        using less.prems(3) s(1,2) False read_one_length [OF one [unfolded Ok p]]
        by (cases r2) (auto simp: disk_read.simps [of B dk] one Ok p two split: prod.splits)
      show ?thesis
      proof (cases r2)
        case (Ok q)
        obtain m rest where q: "q = (m, rest)" by fastforce
        note ih4 = ih4 [OF Ok [unfolded q]]
        have "unat (n + m) = length buf"
          using ih4 s(2) less.prems(2) by (simp add: unat_add_usize)
        moreover have "take (unat n) out @ rest = take (length buf) (drop (dpos dk) ?c)"
          using ih4 s(2) take_add [of "unat n" "length buf - unat n" "drop (dpos dk) ?c"]
          by (simp add: add.commute out)
        ultimately show ?thesis using res Ok q ih(2,3) ih4 by simp
      qed (use res ih in auto)
    qed (use spec(1) less.prems(3) False one in \<open>auto simp: disk_read.simps [of B dk]\<close>)
  qed
qed

lemma disk_read_ok:
  assumes "documented_device B content" and "faultless_device B" and "dk_offset dk < 512"
    and "length buf < 2 ^ 64" and "dpos dk + length buf \<le> length (content (dk_dev dk))"
  shows "is_ok (fst (disk_read B dk buf))"
  using assms(3-5)
proof (induction "length buf" arbitrary: buf dk rule: less_induct)
  case less
  show ?case
  proof (cases "buf = []")
    case False
    obtain r1 dk1 where one: "read_one B dk buf = (r1, dk1)" by fastforce
    note spec = read_one_spec [OF assms(1) less.prems(1) False less.prems(2) one]
    have "dpos dk < length (content (dk_dev dk))"
      using less.prems(3) False by (cases buf) auto
    from read_one_ok [OF assms(1,2) this, of buf] spec(1) obtain n out where r1: "r1 = Ok (n, out)"
      by (cases r1) (auto simp: one)
    note s = spec(2) [OF r1]
    have len: "length out = length buf" using read_one_length one r1 by blast
    have "0 < unat n" "0 < length buf" using s False by (simp_all add: unat_gt_0)
    with s spec(1) less.prems len have "length (drop (unat n) out) < length buf" "dk_offset dk1 < 512"
        "length (drop (unat n) out) < 2 ^ 64"
        "dpos dk1 + length (drop (unat n) out) \<le> length (content (dk_dev dk1))"
      unfolding length_drop len by simp_all
    then have "is_ok (fst (disk_read B dk1 (drop (unat n) out)))" by (rule less.hyps)
    then show ?thesis
      using s False len
      by (cases "disk_read B dk1 (drop (unat n) out)"; cases "fst (disk_read B dk1 (drop (unat n) out))")
        (auto simp: disk_read.simps [of B dk] one r1)
  qed (simp add: disk_read.simps [of B dk])
qed

section \<open>Writing\<close>

definition splice :: "u8 list \<Rightarrow> nat \<Rightarrow> u8 list \<Rightarrow> u8 list" where
  "splice c p bs = take p c @ bs @ drop (p + length bs) c"

lemma length_splice: "p + length bs \<le> length c \<Longrightarrow> length (splice c p bs) = length c"
  by (simp add: splice_def)

lemma splice_splice:
  assumes "p + length a + length b \<le> length c"
  shows "splice (splice c p a) (p + length a) b = splice c p (a @ b)"
  using assms by (simp add: splice_def ac_simps)

lemma with_block_whole: "length bs = 512 \<Longrightarrow> with_block c i bs = splice c (512 * i) bs"
  by (simp add: with_block_def splice_def)

lemma with_block_part:
  assumes "s + length bs \<le> 512" and "512 * i + 512 \<le> length c"
  shows "with_block c i (take s (block_of c i) @ bs @ drop (s + length bs) (block_of c i)) =
    splice c (512 * i + s) bs"
proof -
  have a: "take (512 * i) c @ take s (block_of c i) = take (512 * i + s) c"
    using assms by (simp add: block_of_def take_add min_absorb1)
  have b: "drop (s + length bs) (block_of c i) @ drop (512 * i + 512) c = drop (512 * i + s + length bs) c"
  proof -
    have "drop (512 * i + 512) c = drop (512 - (s + length bs)) (drop (512 * i + (s + length bs)) c)"
      using assms(1) by (simp add: ac_simps)
    moreover have "drop (s + length bs) (block_of c i) =
        take (512 - (s + length bs)) (drop (512 * i + (s + length bs)) c)"
      by (simp add: block_of_def drop_take add.commute)
    ultimately have "drop (s + length bs) (block_of c i) @ drop (512 * i + 512) c = drop (512 * i + (s + length bs)) c"
      by (simp only: append_take_drop_id)
    then show ?thesis by (simp add: add.assoc)
  qed
  show ?thesis unfolding with_block_def splice_def a [symmetric] b [symmetric] append_assoc ..
qed

lemma write_one_spec:
  assumes "documented_device B content" and "dk_offset dk < 512" and "buf \<noteq> []" and "length buf < 2 ^ 64"
    and "write_one B dk buf = (r, dk')"
  shows "dk_offset dk' < 512 \<and> r \<noteq> Panic"
    and "r = Ok n \<Longrightarrow> n \<noteq> 0 \<and> unat n \<le> length buf \<and> dpos dk' = dpos dk + unat n \<and>
      dpos dk + unat n \<le> length (content (dk_dev dk)) \<and>
      content (dk_dev dk') = splice (content (dk_dev dk)) (dpos dk) (take (unat n) buf)"
proof -
  let ?c = "content (dk_dev dk)" and ?i = "dk_block_id dk"
  define m where "m = min (of_nat (length buf)) (BLOCK_SIZE - dk_offset dk)"
  note cnt = partial_count [OF assms(2) m_def assms(4)]
  have u: "unat (dk_offset dk) < 512" using assms(2) by (simp add: word_less_nat_alt)
  let ?goal = "dk_offset dk' < 512 \<and> r \<noteq> Panic \<and>
     (r = Ok n \<longrightarrow> n \<noteq> 0 \<and> unat n \<le> length buf \<and> dpos dk' = dpos dk + unat n \<and>
        dpos dk + unat n \<le> length ?c \<and> content (dk_dev dk') = splice ?c (dpos dk) (take (unat n) buf))"
  have ?goal
  proof (cases "dk_offset dk = 0 \<and> 512 \<le> length buf")
    case True
    then have "length (take 512 buf) = 512" by simp
    from device_write [OF assms(1) this, of "dk_dev dk" ?i] show ?thesis
    proof cases
      case (1 d')
      note rng = block_in_range [OF assms(1) 1(2)]
      have "unat (?i + 1) = unat ?i + 1" using rng(2) unat_add_usize [of ?i 1] by simp
      then show ?thesis
        using assms(5) True rng(1) with_block_whole [of "take 512 buf" ?c "unat ?i"]
        by (auto simp: write_one_def 1 dpos_def BLOCK_SIZE_def)
    next
      case (2 e d')
      then show ?thesis using assms(2,5) True by (auto simp: write_one_def)
    qed
  next
    case False
    show ?thesis
    proof (cases rule: device_read [OF assms(1), of "dk_dev dk" ?i])
      case (1 d1)
      note rng = block_in_range [OF assms(1) 1(2)]
      note len = length_block_of [OF rng(1)]
      have data: "copy_front (replicate 512 0) (block_of ?c (unat ?i)) = block_of ?c (unat ?i)"
        by (intro copy_front_full) (simp add: len)
      define data2 where "data2 = take (unat (dk_offset dk)) (block_of ?c (unat ?i)) @ take (unat m) buf @
        drop (unat (dk_offset dk) + unat m) (block_of ?c (unat ?i))"
      have le: "unat (dk_offset dk) + unat m \<le> 512" and mb: "unat m \<le> length buf" using cnt(1) u by simp_all
      then have len2: "length data2 = 512" using len by (simp add: data2_def min_absorb2 min_absorb1)
      have one: "write_one B dk buf = (case blk_write B d1 ?i data2 of
           (Ok _, dev') \<Rightarrow> (Ok m, advance (dk\<lparr>dk_dev := dev'\<rparr>) m)
         | (Err e, dev') \<Rightarrow> (Err e, dk\<lparr>dk_dev := dev'\<rparr>)
         | (Panic, dev') \<Rightarrow> (Panic, dk\<lparr>dk_dev := dev'\<rparr>))"
        using le unfolding write_one_def BLOCK_SIZE_unat if_not_P [OF False]
        by (simp add: 1 data cnt(2,3) Let_def data2_def flip: m_def)
      from device_write [OF assms(1) len2, of d1 ?i] show ?thesis
      proof cases
        case w: (1 d')
        have "with_block ?c (unat ?i) data2 = splice ?c (dpos dk) (take (unat m) buf)"
          using with_block_part [of "unat (dk_offset dk)" "take (unat m) buf" "unat ?i" ?c] le mb rng(1)
          by (simp add: data2_def dpos_def min_absorb2)
        then have "content d' = splice ?c (dpos dk) (take (unat m) buf)" using w(3) 1(3) by simp
        moreover have "(r, dk') = (Ok m, advance (dk\<lparr>dk_dev := d'\<rparr>) m)" using assms(5) one w(1) by simp
        moreover have "m \<noteq> 0"
          using cnt(1) u assms(3) by (metis diff_is_0_eq length_0_conv min_def not_le unat_0)
        moreover have "dpos (advance (dk\<lparr>dk_dev := d'\<rparr>) m) = dpos dk + unat m"
          "dk_offset (advance (dk\<lparr>dk_dev := d'\<rparr>) m) < 512" "dk_dev (advance (dk\<lparr>dk_dev := d'\<rparr>) m) = d'"
          using advance_dpos [of "dk\<lparr>dk_dev := d'\<rparr>" m] le rng(2) by (simp_all add: dpos_def)
        moreover have "dpos dk + unat m \<le> length ?c" using le rng(1) by (simp add: dpos_def)
        ultimately show ?thesis using mb by auto
      next
        case (2 e d')
        then show ?thesis using assms(2,5) one by auto
      qed
    next
      case (2 e d1)
      then show ?thesis using assms(2,5) False by (auto simp: write_one_def Let_def)
    qed
  qed
  then show "dk_offset dk' < 512 \<and> r \<noteq> Panic"
    and "r = Ok n \<Longrightarrow> n \<noteq> 0 \<and> unat n \<le> length buf \<and> dpos dk' = dpos dk + unat n \<and>
      dpos dk + unat n \<le> length ?c \<and> content (dk_dev dk') = splice ?c (dpos dk) (take (unat n) buf)"
    by blast+
qed

lemma disk_write_spec:
  assumes "documented_device B content" and "dk_offset dk < 512" and "length buf < 2 ^ 64"
    and "disk_write B dk buf = (r, dk')"
  shows "r \<noteq> Panic \<and> dk_offset dk' < 512 \<and>
    (\<forall>n. r = Ok n \<longrightarrow> unat n = length buf \<and> dpos dk' = dpos dk + length buf \<and>
       (buf \<noteq> [] \<longrightarrow> dpos dk + length buf \<le> length (content (dk_dev dk))) \<and>
       content (dk_dev dk') = splice (content (dk_dev dk)) (dpos dk) buf)"
  using assms(2-4)
proof (induction "length buf" arbitrary: buf dk r dk' rule: less_induct)
  case less
  let ?c = "content (dk_dev dk)"
  show ?case
  proof (cases "buf = []")
    case True
    then show ?thesis using less.prems by (auto simp: disk_write.simps [of B dk] splice_def)
  next
    case False
    obtain r1 dk1 where one: "write_one B dk buf = (r1, dk1)" by fastforce
    note spec = write_one_spec [OF assms(1) less.prems(1) False less.prems(2) one]
    show ?thesis
    proof (cases r1)
      case (Ok n)
      note s = spec(2) [OF Ok, THEN conjunct1] spec(2) [OF Ok, THEN conjunct2, THEN conjunct1]
        spec(2) [OF Ok, THEN conjunct2, THEN conjunct2]
      obtain r2 dk2 where two: "disk_write B dk1 (drop (unat n) buf) = (r2, dk2)" by fastforce
      have shorter: "length (drop (unat n) buf) < length buf" and lt: "length (drop (unat n) buf) < 2 ^ 64"
        using s(1,2) False less.prems(2) by (simp_all add: unat_gt_0)
      have off: "dk_offset dk1 < 512" and pos: "dpos dk1 = dpos dk + unat n"
        and c1: "content (dk_dev dk1) = splice ?c (dpos dk) (take (unat n) buf)"
        and fit: "dpos dk + unat n \<le> length ?c" using spec(1) s(3) by simp_all
      have lc: "length (splice ?c (dpos dk) (take (unat n) buf)) = length ?c"
        using fit s(2) by (intro length_splice) (simp add: min_absorb2)
      note h = less.hyps [OF shorter off lt two, unfolded pos c1 lc]
      have res: "(r, dk') = (case r2 of Ok m \<Rightarrow> Ok (n + m) | Err e \<Rightarrow> Err e | Panic \<Rightarrow> Panic, dk2)"
        using less.prems(3) s(1,2) False
        by (cases r2) (auto simp: disk_write.simps [of B dk] one Ok two)
      show ?thesis
      proof (cases r2)
        case (Ok m)
        have h4: "unat m = length buf - unat n" "dpos dk2 = dpos dk + unat n + (length buf - unat n)"
          "length buf - unat n \<noteq> 0 \<longrightarrow> dpos dk + unat n + (length buf - unat n) \<le> length ?c"
          "content (dk_dev dk2) = splice (splice ?c (dpos dk) (take (unat n) buf)) (dpos dk + unat n) (drop (unat n) buf)"
          using h Ok unfolding length_drop length_0_conv [symmetric] by blast+
        then have le: "dpos dk + length buf \<le> length ?c" using fit s(2) by linarith
        have "content (dk_dev dk2) = splice ?c (dpos dk) buf"
          using splice_splice [of "dpos dk" "take (unat n) buf" "drop (unat n) buf" ?c] h4(4) le s(2)
          by (simp add: min_absorb2)
        moreover have "unat (n + m) = length buf"
          using h4(1) s(2) less.prems(2) by (simp add: unat_add_usize)
        ultimately show ?thesis using res Ok h le h4(2) s(2) by simp
      qed (use res h in auto)
    qed (use spec(1) less.prems(3) False one in \<open>auto simp: disk_write.simps [of B dk]\<close>)
  qed
qed

lemma write_one_ok:
  assumes "documented_device B content" and "faultless_device B" and "dk_offset dk < 512"
    and "dpos dk < length (content (dk_dev dk))" and "buf \<noteq> []" and "length buf < 2 ^ 64"
  shows "\<nexists>e. fst (write_one B dk buf) = Err e"
proof -
  let ?i = "dk_block_id dk"
  have i: "?i < blk_num_blocks B (dk_dev dk)"
    using assms(4) device_size(1) [OF assms(1), of "dk_dev dk"] by (simp add: dpos_def word_less_nat_alt)
  obtain d1 where rd: "blk_read B (dk_dev dk) ?i = (Ok (block_of (content (dk_dev dk)) (unat ?i)), d1)"
    and c1: "content d1 = content (dk_dev dk)"
  proof (cases rule: device_read [OF assms(1), of "dk_dev dk" ?i])
    case (2 e d')
    then show ?thesis using assms(2) i unfolding faultless_device_def by (metis fst_conv is_ok.simps(2))
  qed (use that in auto)
  have i1: "?i < blk_num_blocks B d1" using i device_num_blocks [OF assms(1), of d1 "dk_dev dk"] c1 by simp
  have ok: "is_ok (fst (blk_write B d ?i bs))" if "length bs = 512" "?i < blk_num_blocks B d" for d bs
    using assms(2) that unfolding faultless_device_def by blast
  define m where "m = min (of_nat (length buf)) (BLOCK_SIZE - dk_offset dk)"
  note cnt = partial_count [OF assms(3) m_def assms(6)]
  let ?blk = "block_of (content (dk_dev dk)) (unat ?i)"
  have len: "length ?blk = 512" using block_in_range(1) [OF assms(1) i] by (rule length_block_of)
  have u: "unat (dk_offset dk) + unat m \<le> 512" "unat m \<le> length buf"
    using cnt(1) assms(3) by (auto simp: word_less_nat_alt)
  have data: "copy_front (replicate 512 0) ?blk = ?blk" by (intro copy_front_full) (simp add: len)
  show ?thesis
  proof (cases "dk_offset dk = 0 \<and> 512 \<le> length buf")
    case True
    then have "is_ok (fst (blk_write B (dk_dev dk) ?i (take 512 buf)))" by (intro ok i) simp
    then show ?thesis using True
      by (cases "blk_write B (dk_dev dk) ?i (take 512 buf)"; cases "fst (blk_write B (dk_dev dk) ?i (take 512 buf))")
        (auto simp: write_one_def)
  next
    case False
    define data2 where "data2 = take (unat (dk_offset dk)) ?blk @ take (unat m) buf @
      drop (unat (dk_offset dk) + unat m) ?blk"
    have "length data2 = 512" using u len by (simp add: data2_def min_absorb1 min_absorb2)
    then have "is_ok (fst (blk_write B d1 ?i data2))" by (intro ok i1)
    then show ?thesis
      unfolding write_one_def BLOCK_SIZE_unat if_not_P [OF False]
      by (cases "blk_write B d1 ?i data2"; cases "fst (blk_write B d1 ?i data2)")
        (auto simp: rd data cnt(2,3) Let_def data2_def simp flip: m_def)
  qed
qed

lemma disk_write_ok:
  assumes "documented_device B content" and "faultless_device B" and "dk_offset dk < 512"
    and "length buf < 2 ^ 64" and "dpos dk + length buf \<le> length (content (dk_dev dk))"
  shows "is_ok (fst (disk_write B dk buf))"
  using assms(3-5)
proof (induction "length buf" arbitrary: buf dk rule: less_induct)
  case less
  show ?case
  proof (cases "buf = []")
    case False
    obtain r1 dk1 where one: "write_one B dk buf = (r1, dk1)" by fastforce
    note spec = write_one_spec [OF assms(1) less.prems(1) False less.prems(2) one]
    have "dpos dk < length (content (dk_dev dk))"
      using less.prems(3) False by (cases buf) auto
    from write_one_ok [OF assms(1,2) less.prems(1) this False less.prems(2)] spec(1)
    obtain n where r1: "r1 = Ok n" by (cases r1) (auto simp: one)
    have s: "n \<noteq> 0" "unat n \<le> length buf" "dpos dk1 = dpos dk + unat n"
        "content (dk_dev dk1) = splice (content (dk_dev dk)) (dpos dk) (take (unat n) buf)"
      using spec(2) [OF r1] by blast+
    have "length (content (dk_dev dk1)) = length (content (dk_dev dk))"
      unfolding s(4) using s(2) less.prems(3) by (intro length_splice) simp
    then have "length (drop (unat n) buf) < length buf" "dk_offset dk1 < 512" "length (drop (unat n) buf) < 2 ^ 64"
        "dpos dk1 + length (drop (unat n) buf) \<le> length (content (dk_dev dk1))"
      using s(1-3) spec(1) less.prems False by (simp_all add: unat_gt_0)
    then have "is_ok (fst (disk_write B dk1 (drop (unat n) buf)))" by (rule less.hyps)
    then show ?thesis
      using s(1,2) False
      by (cases "disk_write B dk1 (drop (unat n) buf)"; cases "fst (disk_write B dk1 (drop (unat n) buf))")
        (auto simp: disk_write.simps [of B dk] one r1)
  qed (simp add: disk_write.simps [of B dk])
qed

section \<open>The byte stream\<close>

lemma set_position_dpos: "dpos (disk_set_position dk p) = unat p" "dk_offset (disk_set_position dk p) < 512"
proof -
  have "unat (p div BLOCK_SIZE) = unat p div 512" "unat (p mod BLOCK_SIZE) = unat p mod 512"
    by (simp_all add: BLOCK_SIZE_def unat_div unat_mod)
  then show "dpos (disk_set_position dk p) = unat p" "dk_offset (disk_set_position dk p) < 512"
    by (simp_all add: dpos_def disk_set_position_def word_less_nat_alt)
qed

lemma disk_position_dpos: "disk_position dk = of_nat (dpos dk)"
  by (simp add: disk_position_def dpos_def BLOCK_SIZE_def mult.commute)

lemma disk_size_content: "documented_device B content \<Longrightarrow> unat (disk_size B dk) = length (content (dk_dev dk))"
  using device_size [of B content "dk_dev dk"] by (simp add: disk_size_def unat_mult_usize mult.commute)

text \<open>
  C5. The disk is a flat array of bytes with a cursor. A read or write that succeeds transfers exactly
  the bytes from the cursor on, across block boundaries and whatever the alignment, and moves the
  cursor behind them; a read never changes the disk; a transfer that would go past the end does not
  succeed; neither ever panics; and on a device without faults a transfer inside the disk succeeds.
\<close>

theorem disk_stream_refines:
  assumes "documented_device B content" and "dk_offset dk < 512" and "length buf < 2 ^ 64"
    and "disk_read B dk buf = (r, dk1)" and "disk_write B dk buf = (w, dk2)" and "c = content (dk_dev dk)"
  shows "r \<noteq> Panic \<and> content (dk_dev dk1) = c \<and>
    (\<forall>n out. r = Ok (n, out) \<longrightarrow> unat n = length buf \<and> out = take (length buf) (drop (dpos dk) c) \<and>
       dpos dk1 = dpos dk + length buf) \<and>
    w \<noteq> Panic \<and>
    (\<forall>n. w = Ok n \<longrightarrow> unat n = length buf \<and>
       content (dk_dev dk2) = take (dpos dk) c @ buf @ drop (dpos dk + length buf) c \<and>
       dpos dk2 = dpos dk + length buf) \<and>
    (length c < dpos dk + length buf \<and> buf \<noteq> [] \<longrightarrow> r = Err () \<and> w = Err ()) \<and>
    (faultless_device B \<and> dpos dk + length buf \<le> length c \<longrightarrow> is_ok r \<and> is_ok w)"
  using disk_read_spec [OF assms(1-4)] disk_write_spec [OF assms(1-3,5)]
    disk_read_ok [OF assms(1) _ assms(2,3)] disk_write_ok [OF assms(1) _ assms(2,3)]
  unfolding assms(4-6) splice_def fst_conv
  by (cases r; cases w; cases "dpos dk + length buf \<le> length (content (dk_dev dk))") auto

definition ram_content :: "u8 list \<Rightarrow> u8 list" where
  "ram_content d = take 1024 (d @ replicate 1024 0)"

definition ram_disk :: "(u8 list, unit) block_ops" where
  "ram_disk = \<lparr>blk_num_blocks = (\<lambda>_. 2), blk_block_size = (\<lambda>_. 512),
     blk_read = (\<lambda>d i. if i < 2 then (Ok (block_of (ram_content d) (unat i)), d) else (Err (), d)),
     blk_write = (\<lambda>d i bs. if i < 2 then (Ok (), with_block (ram_content d) (unat i) bs)
        else (Err (), d))\<rparr>"

lemma ram_disk_documented:
  "documented_device ram_disk ram_content" "faultless_device ram_disk"
proof -
  have l: "length (ram_content d) = 1024" for d by (simp add: ram_content_def)
  have "ram_content (with_block (ram_content d) (unat i) bs) = with_block (ram_content d) (unat i) bs"
    if "i < 2" "length bs = 512" for d bs and i :: u64
    unfolding ram_content_def [of "with_block _ _ _"] using that l
    by (simp add: with_block_def word_less_nat_alt)
  then show "documented_device ram_disk ram_content"
    unfolding documented_device_def ram_disk_def by (simp add: l)
  show "faultless_device ram_disk"
    unfolding faultless_device_def ram_disk_def by simp
qed

theorem disk_stream_refines_witness:
  "let dk = \<lparr>dk_block_id = 0, dk_offset = 510, dk_dev = []\<rparr>; c = replicate 1024 0; buf = [1, 2, 3, 4] in
   (\<exists>dk1 dk2. disk_read ram_disk dk buf = (Ok (4, [0, 0, 0, 0]), dk1) \<and> disk_write ram_disk dk buf = (Ok 4, dk2) \<and>
     ram_content (dk_dev dk2) = take 510 c @ buf @ drop 514 c \<and> dpos dk2 = 514)"
proof -
  define dk :: "u8 list disk" where "dk = \<lparr>dk_block_id = 0, dk_offset = 510, dk_dev = []\<rparr>"
  define buf :: "u8 list" where "buf = [1, 2, 3, 4]"
  obtain r dk1 where rd: "disk_read ram_disk dk buf = (r, dk1)" by fastforce
  obtain w dk2 where wr: "disk_write ram_disk dk buf = (w, dk2)" by fastforce
  have off: "dk_offset dk < 512" and len: "length buf < 2 ^ 64" and pos: "dpos dk = 510" and lb: "length buf = 4"
    by (simp_all add: dk_def buf_def dpos_def)
  have c: "ram_content (dk_dev dk) = replicate 1024 0" by (simp add: dk_def ram_content_def)
  note t = disk_stream_refines [OF ram_disk_documented(1) off len rd wr refl, unfolded c pos lb]
  have "is_ok r" "is_ok w" using t ram_disk_documented(2) by auto
  then obtain n out m where "r = Ok (n, out)" "w = Ok m" by (cases r; cases w) auto
  moreover have "n = 4 \<longleftrightarrow> unat n = 4" "m = 4 \<longleftrightarrow> unat m = 4" for n m :: usize
    by (simp_all add: word_unat_eq_iff)
  ultimately show ?thesis
    using t rd wr unfolding Let_def dk_def buf_def by (auto simp: eval_nat_numeral)
qed

end
