(* ===== verification/Pipe.thy ===== *)
theory Pipe
  imports Prelude
begin

text \<open>
  Pipes, \<^verbatim>\<open>arceos_posix_api/src/imp/pipe.rs\<close>: the ring buffer, the two ends, and reading and writing as
  the loops of the code, whose iterations hold the lock of the buffer and yield in between. The ring
  buffer refines a bounded byte queue (\<open>bounded_queue\<close>). The main results: in every interleaving of
  readers and writers the bytes come out in the order they went in, none lost or repeated, and no
  index is out of range; and when exactly a read or a write returns.
\<close>

section \<open>Ring buffer\<close>

datatype ring_status = StatusFull | StatusEmpty | StatusNormal

definition RING_BUFFER_SIZE :: usize where
  "RING_BUFFER_SIZE = 256"

record ring =
  rb_arr :: "u8 list"
  rb_head :: usize
  rb_tail :: usize
  rb_status :: ring_status

definition ring_new :: ring where
  "ring_new = \<lparr>rb_arr = replicate (unat RING_BUFFER_SIZE) 0, rb_head = 0, rb_tail = 0, rb_status = StatusEmpty\<rparr>"

definition write_byte :: "ring \<Rightarrow> u8 \<Rightarrow> (linux_error, ring) outcome" where
  "write_byte rb byte =
    (let rb1 = rb\<lparr>rb_status := StatusNormal\<rparr> in
     if length (rb_arr rb1) \<le> unat (rb_tail rb1) then Panic
     else (let rb2 = rb1\<lparr>rb_arr := (rb_arr rb1)[unat (rb_tail rb1) := byte],
                         rb_tail := (rb_tail rb1 + 1) mod RING_BUFFER_SIZE\<rparr> in
       Ok (if rb_tail rb2 = rb_head rb2 then rb2\<lparr>rb_status := StatusFull\<rparr> else rb2)))"

definition read_byte :: "ring \<Rightarrow> (linux_error, u8 \<times> ring) outcome" where
  "read_byte rb =
    (let rb1 = rb\<lparr>rb_status := StatusNormal\<rparr> in
     if length (rb_arr rb1) \<le> unat (rb_head rb1) then Panic
     else (let c = rb_arr rb1 ! unat (rb_head rb1);
               rb2 = rb1\<lparr>rb_head := (rb_head rb1 + 1) mod RING_BUFFER_SIZE\<rparr> in
       Ok (c, if rb_head rb2 = rb_tail rb2 then rb2\<lparr>rb_status := StatusEmpty\<rparr> else rb2)))"

definition available_read :: "ring \<Rightarrow> usize" where
  "available_read rb =
    (if rb_status rb = StatusEmpty then 0
     else if rb_head rb < rb_tail rb then rb_tail rb - rb_head rb
     else rb_tail rb + RING_BUFFER_SIZE - rb_head rb)"

definition available_write :: "ring \<Rightarrow> usize" where
  "available_write rb =
    (if rb_status rb = StatusFull then 0 else RING_BUFFER_SIZE - available_read rb)"

section \<open>Pipe ends\<close>

text \<open>
  The two ends share the buffer through an \<^verbatim>\<open>Arc\<close>, whose strong count is the number of ends that are
  alive; an end is the flag \<open>readable\<close>.
\<close>

record pipe_buffer =
  pb_ring :: ring
  pb_strong :: nat

definition pipe_new :: "bool \<times> bool \<times> pipe_buffer" where
  "pipe_new = (True, False, \<lparr>pb_ring = ring_new, pb_strong = 2\<rparr>)"

definition pipe_drop :: "pipe_buffer \<Rightarrow> pipe_buffer" where
  "pipe_drop pb = pb\<lparr>pb_strong := pb_strong pb - 1\<rparr>"

definition pipe_readable :: "bool \<Rightarrow> bool" where
  "pipe_readable readable = readable"

definition pipe_writable :: "bool \<Rightarrow> bool" where
  "pipe_writable readable = (\<not> readable)"

definition write_end_close :: "pipe_buffer \<Rightarrow> bool" where
  "write_end_close pb = (pb_strong pb = 1)"

text \<open>
  One iteration of the loop of \<open>read\<close> and \<open>write\<close>: it ends the call with a value, or the call goes on
  with what it has transferred. The first two definitions are the inner \<^verbatim>\<open>for\<close> loops.
\<close>

datatype ('a, 'b) iteration = Return 'a | Again 'b

fun read_for ::
    "nat \<Rightarrow> ring \<Rightarrow> usize \<Rightarrow> u8 list \<Rightarrow> (linux_error, (usize, usize) iteration \<times> u8 list \<times> ring) outcome" where
  "read_for 0 rb read_size buf = Ok (Again read_size, buf, rb)"
| "read_for (Suc k) rb read_size buf =
    (if read_size = of_nat (length buf) then Ok (Return read_size, buf, rb)
     else and_then (read_byte rb) (\<lambda>(c, rb').
       if length buf \<le> unat read_size then Panic
       else read_for k rb' (read_size + 1) (buf[unat read_size := c])))"

fun write_for ::
    "nat \<Rightarrow> ring \<Rightarrow> usize \<Rightarrow> u8 list \<Rightarrow> (linux_error, (usize, usize) iteration \<times> ring) outcome" where
  "write_for 0 rb write_size buf = Ok (Again write_size, rb)"
| "write_for (Suc k) rb write_size buf =
    (if write_size = of_nat (length buf) then Ok (Return write_size, rb)
     else if length buf \<le> unat write_size then Panic
     else and_then (write_byte rb (buf ! unat write_size)) (\<lambda>rb'.
       write_for k rb' (write_size + 1) buf))"

definition pipe_read_iter ::
    "pipe_buffer \<Rightarrow> usize \<Rightarrow> u8 list \<Rightarrow> (linux_error, (usize, usize) iteration \<times> u8 list \<times> pipe_buffer) outcome" where
  "pipe_read_iter pb read_size buf =
    (let loop_read = available_read (pb_ring pb) in
     if loop_read = 0
     then Ok (if write_end_close pb then Return read_size else Again read_size, buf, pb)
     else and_then (read_for (unat loop_read) (pb_ring pb) read_size buf) (\<lambda>(it, buf', rb').
       Ok (it, buf', pb\<lparr>pb_ring := rb'\<rparr>)))"

definition pipe_write_iter ::
    "pipe_buffer \<Rightarrow> usize \<Rightarrow> u8 list \<Rightarrow> (linux_error, (usize, usize) iteration \<times> pipe_buffer) outcome" where
  "pipe_write_iter pb write_size buf =
    (let loop_write = available_write (pb_ring pb) in
     if loop_write = 0 then Ok (Again write_size, pb)
     else and_then (write_for (unat loop_write) (pb_ring pb) write_size buf) (\<lambda>(it, rb').
       Ok (it, pb\<lparr>pb_ring := rb'\<rparr>)))"

text \<open>
  The whole calls, in a run in which nobody else uses the pipe while they last; a call that does not
  return is the value \<open>None\<close>.
\<close>

partial_function (option) pipe_read_loop ::
    "pipe_buffer \<Rightarrow> usize \<Rightarrow> u8 list \<Rightarrow> ((linux_error, usize) outcome \<times> u8 list \<times> pipe_buffer) option" where
  "pipe_read_loop pb read_size buf =
    (case pipe_read_iter pb read_size buf of
       Ok (Return n, buf', pb') \<Rightarrow> Some (Ok n, buf', pb')
     | Ok (Again n, buf', pb') \<Rightarrow> pipe_read_loop pb' n buf'
     | Err e \<Rightarrow> Some (Err e, buf, pb)
     | Panic \<Rightarrow> Some (Panic, buf, pb))"

definition pipe_read ::
    "bool \<Rightarrow> pipe_buffer \<Rightarrow> u8 list \<Rightarrow> ((linux_error, usize) outcome \<times> u8 list \<times> pipe_buffer) option" where
  "pipe_read readable pb buf =
    (if \<not> pipe_readable readable then Some (Err EPERM, buf, pb) else pipe_read_loop pb 0 buf)"

partial_function (option) pipe_write_loop ::
    "pipe_buffer \<Rightarrow> usize \<Rightarrow> u8 list \<Rightarrow> ((linux_error, usize) outcome \<times> pipe_buffer) option" where
  "pipe_write_loop pb write_size buf =
    (case pipe_write_iter pb write_size buf of
       Ok (Return n, pb') \<Rightarrow> Some (Ok n, pb')
     | Ok (Again n, pb') \<Rightarrow> pipe_write_loop pb' n buf
     | Err e \<Rightarrow> Some (Err e, pb)
     | Panic \<Rightarrow> Some (Panic, pb))"

definition pipe_write ::
    "bool \<Rightarrow> pipe_buffer \<Rightarrow> u8 list \<Rightarrow> ((linux_error, usize) outcome \<times> pipe_buffer) option" where
  "pipe_write readable pb buf =
    (if \<not> pipe_writable readable then Some (Err EPERM, pb) else pipe_write_loop pb 0 buf)"

record poll_state =
  poll_readable :: bool
  poll_writable :: bool

definition pipe_poll :: "bool \<Rightarrow> pipe_buffer \<Rightarrow> (linux_error, poll_state) outcome" where
  "pipe_poll readable pb = Ok
    \<lparr>poll_readable = (pipe_readable readable \<and> 0 < available_read (pb_ring pb)),
     poll_writable = (pipe_writable readable \<and> 0 < available_write (pb_ring pb))\<rparr>"

section \<open>The queue contract\<close>

text \<open>
  What the loops rely on: a queue of at most \<open>cap\<close> elements, whose \<open>used\<close> and \<open>free\<close> counts are exact,
  and whose \<open>put\<close> and \<open>get\<close> do not panic when there is room or an element. Repeated \<open>put\<close> and \<open>get\<close>
  append and take whole lists.
\<close>

fun put_many :: "('q \<Rightarrow> 'a \<Rightarrow> ('e, 'q) outcome) \<Rightarrow> 'a list \<Rightarrow> 'q \<Rightarrow> ('e, 'q) outcome" where
  "put_many put [] q = Ok q"
| "put_many put (x # xs) q = and_then (put q x) (put_many put xs)"

fun get_many :: "('q \<Rightarrow> ('e, 'a \<times> 'q) outcome) \<Rightarrow> nat \<Rightarrow> 'q \<Rightarrow> ('e, 'a list \<times> 'q) outcome" where
  "get_many get 0 q = Ok ([], q)"
| "get_many get (Suc k) q = and_then (get q) (\<lambda>(x, q'). and_then (get_many get k q') (\<lambda>(xs, q''). Ok (x # xs, q'')))"

locale bounded_queue =
  fixes cap :: nat and new :: 'q
    and put :: "'q \<Rightarrow> 'a \<Rightarrow> ('e, 'q) outcome" and get :: "'q \<Rightarrow> ('e, 'a \<times> 'q) outcome"
    and used :: "'q \<Rightarrow> usize" and free :: "'q \<Rightarrow> usize"
    and contents :: "'q \<Rightarrow> 'a list" and qinv :: "'q \<Rightarrow> bool"
  assumes new_empty: "qinv new" "contents new = []"
    and bounded: "qinv q \<Longrightarrow> length (contents q) \<le> cap"
    and put_appends: "qinv q \<Longrightarrow> length (contents q) < cap \<Longrightarrow>
      \<exists>q'. put q x = Ok q' \<and> qinv q' \<and> contents q' = contents q @ [x]"
    and get_takes: "qinv q \<Longrightarrow> contents q = x # xs \<Longrightarrow> \<exists>q'. get q = Ok (x, q') \<and> qinv q' \<and> contents q' = xs"
    and used_exact: "qinv q \<Longrightarrow> unat (used q) = length (contents q)"
    and free_exact: "qinv q \<Longrightarrow> unat (free q) = cap - length (contents q)"
begin

lemma put_many_appends:
  assumes "qinv q" and "length (contents q) + length xs \<le> cap"
  shows "\<exists>q'. put_many put xs q = Ok q' \<and> qinv q' \<and> contents q' = contents q @ xs"
  using assms
proof (induction xs arbitrary: q)
  case (Cons x xs)
  then obtain q1 where q1: "put q x = Ok q1" "qinv q1" "contents q1 = contents q @ [x]"
    using put_appends [of q x] by auto
  with Cons.IH [of q1] Cons.prems show ?case by auto
qed simp

lemma get_many_takes:
  assumes "qinv q" and "k \<le> length (contents q)"
  shows "\<exists>q'. get_many get k q = Ok (take k (contents q), q') \<and> qinv q' \<and> contents q' = drop k (contents q)"
  using assms
proof (induction k arbitrary: q)
  case (Suc k)
  then obtain x xs where c: "contents q = x # xs" by (cases "contents q") auto
  then obtain q1 where "get q = Ok (x, q1)" "qinv q1" "contents q1 = xs"
    using get_takes Suc.prems(1) by blast
  with Suc.IH [of q1] Suc.prems c show ?case by auto
qed simp

end

section \<open>The ring buffer is a queue\<close>

definition ring_used :: "ring \<Rightarrow> nat" where
  "ring_used rb = (if rb_status rb = StatusEmpty then 0
     else if rb_head rb < rb_tail rb then unat (rb_tail rb) - unat (rb_head rb)
     else unat (rb_tail rb) + 256 - unat (rb_head rb))"

definition ring_contents :: "ring \<Rightarrow> u8 list" where
  "ring_contents rb = map (\<lambda>i. rb_arr rb ! ((unat (rb_head rb) + i) mod 256)) [0..<ring_used rb]"

definition ring_inv :: "ring \<Rightarrow> bool" where
  "ring_inv rb \<longleftrightarrow> length (rb_arr rb) = 256 \<and> rb_head rb < 256 \<and> rb_tail rb < 256 \<and>
    (rb_status rb = StatusNormal \<longleftrightarrow> rb_head rb \<noteq> rb_tail rb)"

lemma length_ring_contents [simp]: "length (ring_contents rb) = ring_used rb"
  by (simp add: ring_contents_def)

lemma ring_invD:
  assumes "ring_inv rb"
  shows "length (rb_arr rb) = 256" "unat (rb_head rb) < 256" "unat (rb_tail rb) < 256"
    "rb_status rb = StatusNormal \<longleftrightarrow> unat (rb_head rb) \<noteq> unat (rb_tail rb)"
  using assms by (simp_all add: ring_inv_def word_less_nat_alt word_unat_eq_iff)

lemma ring_used_le: "ring_inv rb \<Longrightarrow> ring_used rb \<le> 256"
  using ring_invD [of rb] by (auto simp: ring_used_def word_less_nat_alt)

lemma available_read_used: "ring_inv rb \<Longrightarrow> unat (available_read rb) = ring_used rb"
proof -
  assume inv: "ring_inv rb"
  have "unat (rb_tail rb + 256) = unat (rb_tail rb) + 256"
    using ring_invD(3) [OF inv] unat_add_usize [of "rb_tail rb" 256] by simp
  then show ?thesis
    using ring_invD [OF inv]
    by (auto simp: available_read_def ring_used_def RING_BUFFER_SIZE_def word_less_nat_alt word_le_nat_alt
        unat_sub_usize)
qed

lemma ring_used_full: "ring_inv rb \<Longrightarrow> rb_status rb = StatusFull \<longleftrightarrow> ring_used rb = 256"
  using ring_invD [of rb] by (cases "rb_status rb") (auto simp: ring_used_def word_less_nat_alt)

lemma ring_used_empty: "ring_inv rb \<Longrightarrow> rb_status rb = StatusEmpty \<longleftrightarrow> ring_used rb = 0"
  using ring_invD [of rb] by (cases "rb_status rb") (auto simp: ring_used_def word_less_nat_alt)

lemma available_write_free: "ring_inv rb \<Longrightarrow> unat (available_write rb) = 256 - ring_used rb"
  using available_read_used [of rb] ring_used_le [of rb] ring_used_full [of rb]
  by (auto simp: available_write_def RING_BUFFER_SIZE_def unat_sub_usize word_le_nat_alt)

lemma step_index: "unat (x :: usize) < 256 \<Longrightarrow> unat ((x + 1) mod RING_BUFFER_SIZE) = (unat x + 1) mod 256"
  using unat_add_usize [of x 1] by (simp add: RING_BUFFER_SIZE_def unat_mod)

lemma ring_tail: "ring_inv rb \<Longrightarrow> unat (rb_tail rb) = (unat (rb_head rb) + ring_used rb) mod 256"
  using ring_invD [of rb] by (auto simp: ring_used_def word_less_nat_alt)

lemma write_byte_appends:
  assumes "ring_inv rb" and "ring_used rb < 256"
  shows "\<exists>rb'. write_byte rb b = Ok rb' \<and> ring_inv rb' \<and> ring_contents rb' = ring_contents rb @ [b]"
proof -
  note d = ring_invD [OF assms(1)]
  define rb' where "rb' = (let rb2 = rb\<lparr>rb_status := StatusNormal, rb_arr := (rb_arr rb)[unat (rb_tail rb) := b],
      rb_tail := (rb_tail rb + 1) mod RING_BUFFER_SIZE\<rparr> in
      if rb_tail rb2 = rb_head rb2 then rb2\<lparr>rb_status := StatusFull\<rparr> else rb2)"
  have ok: "write_byte rb b = Ok rb'"
    using d by (simp add: write_byte_def rb'_def Let_def)
  note t = step_index [OF d(3)]
  have sel: "rb_head rb' = rb_head rb" "unat (rb_tail rb') = (unat (rb_tail rb) + 1) mod 256"
    "rb_arr rb' = (rb_arr rb)[unat (rb_tail rb) := b]"
    "rb_status rb' = (if unat (rb_tail rb') = unat (rb_head rb) then StatusFull else StatusNormal)"
    using t by (simp_all add: rb'_def Let_def word_unat_eq_iff)
  have inv: "ring_inv rb'"
    using d sel by (simp add: ring_inv_def word_less_nat_alt word_unat_eq_iff)
  have used: "ring_used rb' = ring_used rb + 1"
    using d(2,3,4) sel(1,2,4) assms(2) ring_used_full [OF assms(1)]
    by (cases "unat (rb_tail rb) = 255"; cases "rb_status rb")
      (auto simp: ring_used_def word_less_nat_alt split: if_splits)
  have "ring_contents rb' = ring_contents rb @ [b]"
  proof -
    have "(rb_arr rb)[unat (rb_tail rb) := b] ! ((unat (rb_head rb) + i) mod 256) =
        rb_arr rb ! ((unat (rb_head rb) + i) mod 256)" if "i < ring_used rb" for i
    proof -
      have "(unat (rb_head rb) + i) mod 256 \<noteq> unat (rb_tail rb)"
        using that assms(2) d(2) unfolding ring_tail [OF assms(1)] by (auto simp: mod_if)
      then show ?thesis by simp
    qed
    then show ?thesis
      using d(1,3) ring_tail [OF assms(1)] by (simp add: ring_contents_def used sel)
  qed
  with ok inv show ?thesis by blast
qed

lemma read_byte_takes:
  assumes "ring_inv rb" and "ring_contents rb = b # bs"
  shows "\<exists>rb'. read_byte rb = Ok (b, rb') \<and> ring_inv rb' \<and> ring_contents rb' = bs"
proof -
  note d = ring_invD [OF assms(1)]
  define rb' where "rb' = (let rb2 = rb\<lparr>rb_status := StatusNormal, rb_head := (rb_head rb + 1) mod RING_BUFFER_SIZE\<rparr> in
      if rb_head rb2 = rb_tail rb2 then rb2\<lparr>rb_status := StatusEmpty\<rparr> else rb2)"
  have pos: "0 < ring_used rb" using assms(2) by (metis length_ring_contents length_greater_0_conv list.distinct(1))
  have ok: "read_byte rb = Ok (rb_arr rb ! unat (rb_head rb), rb')"
    using d by (simp add: read_byte_def rb'_def Let_def)
  have sel: "rb_tail rb' = rb_tail rb" "unat (rb_head rb') = (unat (rb_head rb) + 1) mod 256"
    "rb_arr rb' = rb_arr rb"
    "rb_status rb' = (if unat (rb_head rb') = unat (rb_tail rb) then StatusEmpty else StatusNormal)"
    using step_index [OF d(2)] by (simp_all add: rb'_def Let_def word_unat_eq_iff)
  have inv: "ring_inv rb'"
    using d sel by (simp add: ring_inv_def word_less_nat_alt word_unat_eq_iff)
  have used: "ring_used rb = ring_used rb' + 1"
    using d(2,3,4) sel(1,2,4) pos ring_used_empty [OF assms(1)]
    by (cases "unat (rb_head rb) = 255"; cases "rb_status rb")
      (auto simp: ring_used_def word_less_nat_alt split: if_splits)
  have "ring_contents rb = rb_arr rb ! unat (rb_head rb) # ring_contents rb'"
  proof -
    have "(unat (rb_head rb) + Suc i) mod 256 = (unat (rb_head rb') + i) mod 256" for i
      by (simp add: sel(2) mod_simps)
    then show ?thesis
      using d(2) unfolding ring_contents_def used Suc_eq_plus1 [symmetric] map_upt_Suc sel(3) by simp
  qed
  then have "b = rb_arr rb ! unat (rb_head rb)" "ring_contents rb' = bs" using assms(2) by simp_all
  with ok inv show ?thesis by blast
qed

interpretation ring: bounded_queue 256 ring_new write_byte read_byte available_read available_write
  ring_contents ring_inv
proof
  show "ring_inv ring_new" by (simp add: ring_new_def ring_inv_def RING_BUFFER_SIZE_def)
  show "ring_contents ring_new = []" by (simp add: ring_new_def ring_contents_def ring_used_def)
qed (simp_all add: ring_used_le write_byte_appends read_byte_takes available_read_used available_write_free)

section \<open>Iterations\<close>

lemma usize_len: "length (buf :: u8 list) < 2 ^ 64 \<Longrightarrow> unat (rs :: usize) = length buf \<longleftrightarrow> rs = of_nat (length buf)"
  using of_nat_unat_usize [of rs "length buf"] by (auto simp: unat_of_nat)

lemma usize_next: "unat (rs :: usize) < length (buf :: u8 list) \<Longrightarrow> length buf < 2 ^ 64 \<Longrightarrow> unat (rs + 1) = unat rs + 1"
  using unat_add_usize [of rs 1] by simp

lemma read_for_eq:
  assumes "unat rs \<le> length buf" and "length buf < 2 ^ 64"
  shows "read_for k rb rs buf = and_then (get_many read_byte (min k (length buf - unat rs)) rb) (\<lambda>(bs, rb').
    Ok (if length buf - unat rs < k then Return (of_nat (length buf)) else Again (rs + of_nat k),
      take (unat rs) buf @ bs @ drop (unat rs + length bs) buf, rb'))"
  using assms
proof (induction k arbitrary: rb rs buf)
  case (Suc k)
  show ?case
  proof (cases "unat rs = length buf")
    case True
    then have "rs = of_nat (length buf)" using usize_len Suc.prems(2) by blast
    then show ?thesis using True by simp
  next
    case False
    then have lt: "unat rs < length buf" and ne: "rs \<noteq> of_nat (length buf)"
      using Suc.prems(1) usize_len [OF Suc.prems(2), of rs] by (simp_all only: le_neq_implies_less simp_thms)
    note nx = usize_next [OF lt Suc.prems(2)]
    have m: "min (Suc k) (length buf - unat rs) = Suc (min k (length buf - (unat rs + 1)))"
      using lt by simp
    have c: "length buf - (unat rs + 1) < k \<longleftrightarrow> length buf - unat rs < Suc k" using lt by auto
    show ?thesis
    proof (cases "read_byte rb")
      case (Ok p)
      obtain b rb1 where p: "p = (b, rb1)" by fastforce
      let ?buf = "buf[unat rs := b]"
      have buf: "take (unat rs + 1) ?buf @ bs @ drop (unat rs + 1 + length bs) ?buf =
          take (unat rs) buf @ (b # bs) @ drop (unat rs + length (b # bs)) buf" for bs
        using lt by (simp add: take_Suc_conv_app_nth)
      have "read_for (Suc k) rb rs buf = read_for k rb1 (rs + 1) ?buf"
        using lt ne Ok p by simp
      also have "\<dots> = and_then (get_many read_byte (min k (length buf - (unat rs + 1))) rb1) (\<lambda>(bs, rb').
          Ok (if length buf - unat rs < Suc k then Return (of_nat (length buf)) else Again (rs + of_nat (Suc k)),
            take (unat rs) buf @ (b # bs) @ drop (unat rs + length (b # bs)) buf, rb'))"
        using Suc.IH [of "rs + 1" ?buf rb1] lt Suc.prems(2) unfolding nx length_list_update c buf
        by (simp add: ac_simps)
      finally show ?thesis
        unfolding m get_many.simps Ok p by (simp add: and_then_assoc split_def)
    qed (use lt ne m in auto)
  qed
qed simp

lemma write_for_eq:
  assumes "unat ws \<le> length buf" and "length buf < 2 ^ 64"
  shows "write_for k rb ws buf = and_then (put_many write_byte (take k (drop (unat ws) buf)) rb) (\<lambda>rb'.
    Ok (if length buf - unat ws < k then Return (of_nat (length buf)) else Again (ws + of_nat k), rb'))"
  using assms
proof (induction k arbitrary: rb ws)
  case (Suc k)
  show ?case
  proof (cases "unat ws = length buf")
    case True
    then have "ws = of_nat (length buf)" using usize_len Suc.prems(2) by blast
    then show ?thesis using True by simp
  next
    case False
    then have lt: "unat ws < length buf" and ne: "ws \<noteq> of_nat (length buf)"
      using Suc.prems(1) usize_len [OF Suc.prems(2), of ws] by (simp_all only: le_neq_implies_less simp_thms)
    note nx = usize_next [OF lt Suc.prems(2)]
    have c: "length buf - (unat ws + 1) < k \<longleftrightarrow> length buf - unat ws < Suc k" using lt by auto
    have t: "take (Suc k) (drop (unat ws) buf) = buf ! unat ws # take k (drop (unat ws + 1) buf)"
      using lt by (simp flip: Cons_nth_drop_Suc)
    have ih: "write_for k rb1 (ws + 1) buf = and_then (put_many write_byte (take k (drop (unat ws + 1) buf)) rb1) (\<lambda>rb'.
        Ok (if length buf - unat ws < Suc k then Return (of_nat (length buf)) else Again (ws + of_nat (Suc k)), rb'))" for rb1
      using Suc.IH [of "ws + 1" rb1] lt Suc.prems(2) unfolding nx c by (simp add: ac_simps)
    show ?thesis
      using lt ne unfolding t put_many.simps write_for.simps and_then_assoc ih by simp
  qed
qed simp

text \<open>
  What one iteration does, in terms of the queued bytes \<open>q\<close>: a read moves as many as fit into the rest
  of the buffer, and ends the call when more were queued than fit, or when nothing was queued and the
  write end is closed; a write moves as many as there is room for, and ends the call when there was
  more room than needed.
\<close>

lemma read_iter_spec:
  assumes "ring_inv (pb_ring pb)" and "unat rs \<le> length buf" and "length buf < 2 ^ 64"
    and "q = ring_contents (pb_ring pb)" and "k = min (length q) (length buf - unat rs)"
  shows "\<exists>rb'. pipe_read_iter pb rs buf = Ok
      (if q = [] \<and> write_end_close pb then Return rs
         else if length buf - unat rs < length q then Return (of_nat (length buf)) else Again (rs + of_nat k),
       take (unat rs) buf @ take k q @ drop (unat rs + k) buf, pb\<lparr>pb_ring := rb'\<rparr>) \<and>
    ring_inv rb' \<and> ring_contents rb' = drop k q"
proof -
  have av: "unat (available_read (pb_ring pb)) = length q"
    using ring.used_exact [OF assms(1)] assms(4) by simp
  show ?thesis
  proof (cases "q = []")
    case True
    then have "available_read (pb_ring pb) = 0" using av by (simp add: word_unat_eq_iff)
    then show ?thesis
      using True assms by (intro exI [of _ "pb_ring pb"]) (simp add: pipe_read_iter_def)
  next
    case False
    then have nz: "available_read (pb_ring pb) \<noteq> 0" using av by (simp add: word_unat_eq_iff)
    obtain rb' where rb': "get_many read_byte k (pb_ring pb) = Ok (take k q, rb')" "ring_inv rb'"
        "ring_contents rb' = drop k q"
      using ring.get_many_takes [OF assms(1), of k] assms(4,5) by auto
    have "min (length q) (length buf - unat rs) = k" and "length (take k q) = k"
      using assms(5) by simp_all
    moreover have "k = length q" if "\<not> length buf - unat rs < length q" using that assms(5) by simp
    ultimately show ?thesis
      using False nz rb' unfolding pipe_read_iter_def Let_def av read_for_eq [OF assms(2,3)]
      by (intro exI [of _ rb']) simp
  qed
qed

lemma write_iter_spec:
  assumes "ring_inv (pb_ring pb)" and "unat ws \<le> length buf" and "length buf < 2 ^ 64"
    and "q = ring_contents (pb_ring pb)" and "k = min (256 - length q) (length buf - unat ws)"
  shows "\<exists>rb'. pipe_write_iter pb ws buf = Ok
      (if length buf - unat ws < 256 - length q then Return (of_nat (length buf)) else Again (ws + of_nat k),
       pb\<lparr>pb_ring := rb'\<rparr>) \<and>
    ring_inv rb' \<and> ring_contents rb' = q @ take k (drop (unat ws) buf)"
proof -
  have av: "unat (available_write (pb_ring pb)) = 256 - length q"
    using ring.free_exact [OF assms(1)] assms(4) by simp
  show ?thesis
  proof (cases "256 - length q = 0")
    case True
    then have "available_write (pb_ring pb) = 0" using av by (simp add: word_unat_eq_iff)
    then show ?thesis
      using True assms by (intro exI [of _ "pb_ring pb"]) (simp add: pipe_write_iter_def)
  next
    case False
    then have nz: "available_write (pb_ring pb) \<noteq> 0" using av by (simp add: word_unat_eq_iff)
    have t: "take (256 - length q) (drop (unat ws) buf) = take k (drop (unat ws) buf)"
      unfolding assms(5) by (simp add: min_def)
    have "length (ring_contents (pb_ring pb)) + length (take k (drop (unat ws) buf)) \<le> 256"
      using assms(5) False unfolding assms(4) by simp
    then obtain rb' where rb': "put_many write_byte (take k (drop (unat ws) buf)) (pb_ring pb) = Ok rb'" "ring_inv rb'"
        "ring_contents rb' = q @ take k (drop (unat ws) buf)"
      using ring.put_many_appends [OF assms(1)] assms(4) by blast
    have "k = 256 - length q" if "\<not> length buf - unat ws < 256 - length q" using that assms(5) by simp
    then show ?thesis
      using nz rb' unfolding pipe_write_iter_def Let_def av write_for_eq [OF assms(2,3)] t
      by (intro exI [of _ rb']) simp
  qed
qed

section \<open>Calls\<close>

lemma read_loop_blocks:
  assumes "pipe_read_loop pb rs buf = Some y" and "ring_inv (pb_ring pb)" and "unat rs \<le> length buf"
    and "length buf < 2 ^ 64" and "length (ring_contents (pb_ring pb)) \<le> length buf - unat rs" and "\<not> write_end_close pb"
  shows False
proof -
  have "ring_inv (pb_ring pb) \<longrightarrow> unat rs \<le> length buf \<longrightarrow> length buf < 2 ^ 64 \<longrightarrow>
      length (ring_contents (pb_ring pb)) \<le> length buf - unat rs \<longrightarrow> write_end_close pb"
  proof (rule pipe_read_loop.raw_induct [OF _ assms(1)], intro impI)
    fix f pb rs buf y
    assume ih: "\<And>pb rs buf y. f pb rs buf = Some y \<Longrightarrow> ring_inv (pb_ring pb) \<longrightarrow> unat rs \<le> length buf \<longrightarrow>
        length buf < 2 ^ 64 \<longrightarrow> length (ring_contents (pb_ring pb)) \<le> length buf - unat rs \<longrightarrow> write_end_close pb"
      and body: "(case pipe_read_iter pb rs buf of
         Ok (Return n, buf', pb') \<Rightarrow> Some (Ok n, buf', pb') | Ok (Again n, buf', pb') \<Rightarrow> f pb' n buf'
       | Err e \<Rightarrow> Some (Err e, buf, pb) | Panic \<Rightarrow> Some (Panic, buf, pb)) = Some y"
      and inv: "ring_inv (pb_ring pb)" and le: "unat rs \<le> length buf" and len: "length buf < 2 ^ 64"
      and fits: "length (ring_contents (pb_ring pb)) \<le> length buf - unat rs"
    let ?q = "ring_contents (pb_ring pb)"
    have k: "length ?q = min (length ?q) (length buf - unat rs)" using fits by simp
    obtain rb' where it: "pipe_read_iter pb rs buf = Ok
        (if ?q = [] \<and> write_end_close pb then Return rs
         else if length buf - unat rs < length ?q then Return (of_nat (length buf)) else Again (rs + of_nat (length ?q)),
         take (unat rs) buf @ take (length ?q) ?q @ drop (unat rs + length ?q) buf, pb\<lparr>pb_ring := rb'\<rparr>)"
        and rb': "ring_inv rb'" "ring_contents rb' = drop (length ?q) ?q"
      using read_iter_spec [OF inv le len refl k] by blast
    have "unat (rs + of_nat (length ?q)) = unat rs + length ?q"
      using fits le len by (simp add: unat_add_usize unat_of_nat)
    then show "write_end_close pb"
      using body ih [of "pb\<lparr>pb_ring := rb'\<rparr>" "rs + of_nat (length ?q)" "take (unat rs) buf @ ?q @ drop (unat rs + length ?q) buf" y]
        it rb' fits le len
      by (auto simp: write_end_close_def split: if_splits)
  qed
  with assms(2-6) show False by blast
qed

lemma write_loop_blocks:
  assumes "pipe_write_loop pb ws buf = Some y" and "ring_inv (pb_ring pb)" and "unat ws \<le> length buf"
    and "length buf < 2 ^ 64" and "256 - length (ring_contents (pb_ring pb)) \<le> length buf - unat ws"
  shows False
proof -
  have "ring_inv (pb_ring pb) \<longrightarrow> unat ws \<le> length buf \<longrightarrow> length buf < 2 ^ 64 \<longrightarrow>
      \<not> 256 - length (ring_contents (pb_ring pb)) \<le> length buf - unat ws"
  proof (rule pipe_write_loop.raw_induct [OF _ assms(1)], intro impI notI)
    fix f pb ws buf y
    assume ih: "\<And>pb ws buf y. f pb ws buf = Some y \<Longrightarrow> ring_inv (pb_ring pb) \<longrightarrow> unat ws \<le> length buf \<longrightarrow>
        length buf < 2 ^ 64 \<longrightarrow> \<not> 256 - length (ring_contents (pb_ring pb)) \<le> length buf - unat ws"
      and body: "(case pipe_write_iter pb ws buf of
         Ok (Return n, pb') \<Rightarrow> Some (Ok n, pb') | Ok (Again n, pb') \<Rightarrow> f pb' n buf
       | Err e \<Rightarrow> Some (Err e, pb) | Panic \<Rightarrow> Some (Panic, pb)) = Some y"
      and inv: "ring_inv (pb_ring pb)" and le: "unat ws \<le> length buf" and len: "length buf < 2 ^ 64"
      and fits: "256 - length (ring_contents (pb_ring pb)) \<le> length buf - unat ws"
    define k where "k = 256 - length (ring_contents (pb_ring pb))"
    let ?q = "ring_contents (pb_ring pb)"
    have k: "k = min (256 - length ?q) (length buf - unat ws)" using fits k_def by simp
    obtain rb' where it: "pipe_write_iter pb ws buf = Ok
        (if length buf - unat ws < 256 - length ?q then Return (of_nat (length buf)) else Again (ws + of_nat k),
         pb\<lparr>pb_ring := rb'\<rparr>)" and rb': "ring_inv rb'" "ring_contents rb' = ?q @ take k (drop (unat ws) buf)"
      using write_iter_spec [OF inv le len refl k] by blast
    have "unat (ws + of_nat k) = unat ws + k"
      using fits le len k_def by (simp add: unat_add_usize unat_of_nat)
    moreover have "256 - length (ring_contents rb') = 0"
      using fits k_def ring.bounded [OF inv] unfolding rb'(2) by simp
    moreover have "f (pb\<lparr>pb_ring := rb'\<rparr>) (ws + of_nat k) buf = Some y"
      using body it fits by auto
    ultimately show False
      using ih [of "pb\<lparr>pb_ring := rb'\<rparr>" "ws + of_nat k" buf y] rb' fits le len k_def by simp
  qed
  with assms(2-5) show False by blast
qed

lemma read_loop_full:
  assumes "ring_inv (pb_ring pb)" and "length buf < 2 ^ 64" and "q = ring_contents (pb_ring pb)" and "length buf < length q"
  shows "\<exists>rb'. pipe_read_loop pb 0 buf = Some (Ok (of_nat (length buf)), take (length buf) q, pb\<lparr>pb_ring := rb'\<rparr>) \<and>
    ring_inv rb' \<and> ring_contents rb' = drop (length buf) q"
proof -
  have "length buf = min (length q) (length buf - unat (0 :: usize))" using assms(4) by simp
  from read_iter_spec [OF assms(1) _ assms(2,3) this] assms(4) show ?thesis
    by (auto simp: pipe_read_loop.simps [of pb])
qed

lemma read_loop_eof:
  assumes "ring_inv (pb_ring pb)" and "length buf < 2 ^ 64" and "q = ring_contents (pb_ring pb)"
    and "length q \<le> length buf" and "write_end_close pb"
  shows "\<exists>rb'. pipe_read_loop pb 0 buf = Some (Ok (of_nat (length q)), q @ drop (length q) buf, pb\<lparr>pb_ring := rb'\<rparr>) \<and>
    ring_inv rb' \<and> ring_contents rb' = []"
proof (cases "q = []")
  case True
  have "0 = min (length q) (length buf - unat (0 :: usize))" using True by simp
  from read_iter_spec [OF assms(1) _ assms(2,3) this] True assms(5) show ?thesis
    by (auto simp: pipe_read_loop.simps [of pb])
next
  case False
  have "length q = min (length q) (length buf - unat (0 :: usize))" using assms(4) by simp
  from read_iter_spec [OF assms(1) _ assms(2,3) this] False assms(4)
  obtain rb1 where one: "pipe_read_iter pb 0 buf = Ok (Again (of_nat (length q)), q @ drop (length q) buf, pb\<lparr>pb_ring := rb1\<rparr>)"
    and rb1: "ring_inv rb1" "ring_contents rb1 = []" by auto
  let ?pb = "pb\<lparr>pb_ring := rb1\<rparr>" and ?buf = "q @ drop (length q) buf"
  have u: "unat (of_nat (length q) :: usize) = length q" using assms(2,4) by (simp add: unat_of_nat)
  have "length ?buf < 2 ^ 64" using assms(2,4) by simp
  with read_iter_spec [of ?pb "of_nat (length q)" ?buf "[]" 0, unfolded u] rb1 assms(5)
  obtain rb2 where "pipe_read_iter ?pb (of_nat (length q)) ?buf = Ok (Return (of_nat (length q)), ?buf, ?pb\<lparr>pb_ring := rb2\<rparr>)"
    "ring_inv rb2" "ring_contents rb2 = []"
    by (auto simp: write_end_close_def)
  with one show ?thesis
    by (auto simp: pipe_read_loop.simps [of pb] pipe_read_loop.simps [of ?pb])
qed

lemma write_loop_room:
  assumes "ring_inv (pb_ring pb)" and "length buf < 2 ^ 64" and "q = ring_contents (pb_ring pb)"
    and "length buf < 256 - length q"
  shows "\<exists>rb'. pipe_write_loop pb 0 buf = Some (Ok (of_nat (length buf)), pb\<lparr>pb_ring := rb'\<rparr>) \<and>
    ring_inv rb' \<and> ring_contents rb' = q @ buf"
proof -
  have "length buf = min (256 - length q) (length buf - unat (0 :: usize))" using assms(4) by simp
  from write_iter_spec [OF assms(1) _ assms(2,3) this] assms(4) show ?thesis
    by (auto simp: pipe_write_loop.simps [of pb])
qed

text \<open>
  C23. When a call returns, if nobody else uses the pipe while it lasts. A read returns as soon as more
  bytes are queued than it asks for, with exactly those; otherwise, once the write end is closed, with
  all that are queued; and otherwise it never returns, even when exactly as many bytes are queued as
  it asks for. A write returns, with all its bytes queued, exactly when there is more room than it
  needs. Through the wrong end both are refused.
\<close>

theorem pipe_calls_exact:
  assumes "ring_inv (pb_ring pb)" and "length buf < 2 ^ 64" and "q = ring_contents (pb_ring pb)"
  shows "(if length buf < length q then
       \<exists>rb'. pipe_read True pb buf = Some (Ok (of_nat (length buf)), take (length buf) q, pb\<lparr>pb_ring := rb'\<rparr>) \<and>
         ring_contents rb' = drop (length buf) q
     else if write_end_close pb then
       \<exists>rb'. pipe_read True pb buf = Some (Ok (of_nat (length q)), q @ drop (length q) buf, pb\<lparr>pb_ring := rb'\<rparr>) \<and>
         ring_contents rb' = []
     else pipe_read True pb buf = None) \<and>
    (if length buf < 256 - length q then
       \<exists>rb'. pipe_write False pb buf = Some (Ok (of_nat (length buf)), pb\<lparr>pb_ring := rb'\<rparr>) \<and> ring_contents rb' = q @ buf
     else pipe_write False pb buf = None) \<and>
    pipe_read False pb buf = Some (Err EPERM, buf, pb) \<and> pipe_write True pb buf = Some (Err EPERM, pb)"
proof -
  have "pipe_read_loop pb 0 buf = None" if "length q \<le> length buf" "\<not> write_end_close pb"
    using read_loop_blocks [of pb 0 buf] assms that by (cases "pipe_read_loop pb 0 buf") auto
  moreover have "pipe_write_loop pb 0 buf = None" if "256 - length q \<le> length buf"
    using write_loop_blocks [of pb 0 buf] assms that by (cases "pipe_write_loop pb 0 buf") auto
  ultimately show ?thesis
    using read_loop_full [OF assms] read_loop_eof [OF assms] write_loop_room [OF assms]
    by (auto simp: pipe_read_def pipe_write_def pipe_readable_def pipe_writable_def not_less)
qed

theorem pipe_calls_exact_witness:
  "ring_inv ring_new \<and>
   (\<exists>rb. pipe_write False \<lparr>pb_ring = ring_new, pb_strong = 2\<rparr> [1, 2, 3] = Some (Ok 3, \<lparr>pb_ring = rb, pb_strong = 2\<rparr>) \<and>
      ring_contents rb = [1, 2, 3]) \<and>
   pipe_read True \<lparr>pb_ring = ring_new, pb_strong = 2\<rparr> [] = None"
  using pipe_calls_exact [of "\<lparr>pb_ring = ring_new, pb_strong = 2\<rparr>" "[1, 2, 3]"]
    pipe_calls_exact [of "\<lparr>pb_ring = ring_new, pb_strong = 2\<rparr>" "[]"] ring.new_empty
  by (simp add: write_end_close_def)

section \<open>Concurrent readers and writers\<close>

text \<open>
  The pipe as its users drive it: calls in progress at both ends, each iteration a step of its own, and
  the ends closed when no call holds them. \<open>py_sent\<close> and \<open>py_got\<close> record the bytes the iterations put
  in and took out.
\<close>

record pipe_sys =
  py_pipe :: pipe_buffer
  py_read_end :: bool
  py_write_end :: bool
  py_reads :: "(usize \<times> u8 list) list"
  py_writes :: "(usize \<times> u8 list) list"
  py_sent :: "u8 list"
  py_got :: "u8 list"

definition pipe_sys_new :: pipe_sys where
  "pipe_sys_new = \<lparr>py_pipe = snd (snd pipe_new), py_read_end = True, py_write_end = True, py_reads = [], py_writes = [],
     py_sent = [], py_got = []\<rparr>"

definition moved :: "usize \<Rightarrow> usize \<Rightarrow> u8 list \<Rightarrow> u8 list" where
  "moved n m buf = take (unat m - unat n) (drop (unat n) buf)"

inductive pipe_step :: "pipe_sys \<Rightarrow> pipe_sys \<Rightarrow> bool" where
  start_read: "py_read_end s \<Longrightarrow> length buf < 2 ^ 64 \<Longrightarrow> pipe_step s (s\<lparr>py_reads := (0, buf) # py_reads s\<rparr>)"
| read_returns: "py_reads s = pre @ (n, buf) # post \<Longrightarrow>
    pipe_read_iter (py_pipe s) n buf = Ok (Return m, buf', pb') \<Longrightarrow>
    pipe_step s (s\<lparr>py_pipe := pb', py_reads := pre @ post, py_got := py_got s @ moved n m buf'\<rparr>)"
| read_goes_on: "py_reads s = pre @ (n, buf) # post \<Longrightarrow>
    pipe_read_iter (py_pipe s) n buf = Ok (Again m, buf', pb') \<Longrightarrow>
    pipe_step s (s\<lparr>py_pipe := pb', py_reads := pre @ (m, buf') # post, py_got := py_got s @ moved n m buf'\<rparr>)"
| start_write: "py_write_end s \<Longrightarrow> length buf < 2 ^ 64 \<Longrightarrow> pipe_step s (s\<lparr>py_writes := (0, buf) # py_writes s\<rparr>)"
| write_returns: "py_writes s = pre @ (n, buf) # post \<Longrightarrow>
    pipe_write_iter (py_pipe s) n buf = Ok (Return m, pb') \<Longrightarrow>
    pipe_step s (s\<lparr>py_pipe := pb', py_writes := pre @ post, py_sent := py_sent s @ moved n m buf\<rparr>)"
| write_goes_on: "py_writes s = pre @ (n, buf) # post \<Longrightarrow>
    pipe_write_iter (py_pipe s) n buf = Ok (Again m, pb') \<Longrightarrow>
    pipe_step s (s\<lparr>py_pipe := pb', py_writes := pre @ (m, buf) # post, py_sent := py_sent s @ moved n m buf\<rparr>)"
| close_read: "py_read_end s \<Longrightarrow> py_reads s = [] \<Longrightarrow>
    pipe_step s (s\<lparr>py_read_end := False, py_pipe := pipe_drop (py_pipe s)\<rparr>)"
| close_write: "py_write_end s \<Longrightarrow> py_writes s = [] \<Longrightarrow>
    pipe_step s (s\<lparr>py_write_end := False, py_pipe := pipe_drop (py_pipe s)\<rparr>)"

inductive pipe_reachable :: "pipe_sys \<Rightarrow> bool" where
  init: "pipe_reachable pipe_sys_new"
| step: "pipe_reachable s \<Longrightarrow> pipe_step s s' \<Longrightarrow> pipe_reachable s'"

definition call_ok :: "usize \<times> u8 list \<Rightarrow> bool" where
  "call_ok c \<longleftrightarrow> unat (fst c) \<le> length (snd c) \<and> length (snd c) < 2 ^ 64"

definition pipe_inv :: "pipe_sys \<Rightarrow> bool" where
  "pipe_inv s \<longleftrightarrow> ring_inv (pb_ring (py_pipe s)) \<and> py_sent s = py_got s @ ring_contents (pb_ring (py_pipe s)) \<and>
    (\<forall>c \<in> set (py_reads s) \<union> set (py_writes s). call_ok c) \<and>
    (py_reads s \<noteq> [] \<longrightarrow> py_read_end s) \<and> (py_writes s \<noteq> [] \<longrightarrow> py_write_end s) \<and>
    pb_strong (py_pipe s) = of_bool (py_read_end s) + of_bool (py_write_end s)"

lemma read_iter_effect:
  assumes "ring_inv (pb_ring pb)" and "call_ok (n, buf)"
    and "pipe_read_iter pb n buf = Ok (it, buf', pb')" and "it = Return m \<or> it = Again m"
  shows "ring_inv (pb_ring pb') \<and> pb_strong pb' = pb_strong pb \<and> call_ok (m, buf') \<and>
    ring_contents (pb_ring pb) = moved n m buf' @ ring_contents (pb_ring pb')"
proof -
  let ?q = "ring_contents (pb_ring pb)"
  define k where "k = min (length ?q) (length buf - unat n)"
  have ok: "unat n \<le> length buf" "length buf < 2 ^ 64" using assms(2) by (simp_all add: call_ok_def)
  obtain rb' where it: "pipe_read_iter pb n buf = Ok
      (if ?q = [] \<and> write_end_close pb then Return n
         else if length buf - unat n < length ?q then Return (of_nat (length buf)) else Again (n + of_nat k),
       take (unat n) buf @ take k ?q @ drop (unat n + k) buf, pb\<lparr>pb_ring := rb'\<rparr>)"
    and rb': "ring_inv rb'" "ring_contents rb' = drop k ?q"
    using read_iter_spec [OF assms(1) ok refl k_def] by blast
  have lk: "k \<le> length ?q" "unat n + k \<le> length buf" using ok k_def by simp_all
  have "unat (n + of_nat k) = unat n + k"
    using lk ok by (simp add: unat_add_usize unat_of_nat)
  moreover have "unat (of_nat (length buf) :: usize) = length buf" using ok by (simp add: unat_of_nat)
  moreover have "unat n + k = unat n" if "?q = []" using that unfolding k_def that by simp
  moreover have "unat n + k = length buf" if "length buf - unat n < length ?q" using that ok(1) unfolding k_def by simp
  ultimately have m: "unat m = unat n + k"
    using it assms(3,4) by (auto split: if_splits)
  have "moved n m (take (unat n) buf @ take k ?q @ drop (unat n + k) buf) = take k ?q"
    using ok(1) lk(1) by (simp add: moved_def m min_absorb2)
  then show ?thesis
    using it assms(3) rb' m lk ok by (auto simp: call_ok_def min_absorb2)
qed

lemma write_iter_effect:
  assumes "ring_inv (pb_ring pb)" and "call_ok (n, buf)"
    and "pipe_write_iter pb n buf = Ok (it, pb')" and "it = Return m \<or> it = Again m"
  shows "ring_inv (pb_ring pb') \<and> pb_strong pb' = pb_strong pb \<and> call_ok (m, buf) \<and>
    ring_contents (pb_ring pb') = ring_contents (pb_ring pb) @ moved n m buf"
proof -
  let ?q = "ring_contents (pb_ring pb)"
  define k where "k = min (256 - length ?q) (length buf - unat n)"
  have ok: "unat n \<le> length buf" "length buf < 2 ^ 64" using assms(2) by (simp_all add: call_ok_def)
  obtain rb' where it: "pipe_write_iter pb n buf = Ok
      (if length buf - unat n < 256 - length ?q then Return (of_nat (length buf)) else Again (n + of_nat k),
       pb\<lparr>pb_ring := rb'\<rparr>)"
    and rb': "ring_inv rb'" "ring_contents rb' = ?q @ take k (drop (unat n) buf)"
    using write_iter_spec [OF assms(1) ok refl k_def] by blast
  have lk: "unat n + k \<le> length buf" using ok k_def by simp
  have "unat (n + of_nat k) = unat n + k"
    using lk ok by (simp add: unat_add_usize unat_of_nat)
  moreover have "unat (of_nat (length buf) :: usize) = length buf" using ok by (simp add: unat_of_nat)
  ultimately have m: "unat m = unat n + k"
    using it assms(3,4) ok k_def by (auto split: if_splits)
  then show ?thesis
    using it assms(3) rb' lk ok by (auto simp: call_ok_def moved_def)
qed

lemma pipe_step_inv: "pipe_step s s' \<Longrightarrow> pipe_inv s \<Longrightarrow> pipe_inv s'"
proof (induction rule: pipe_step.induct)
  case (read_returns s pre n buf post m buf' pb')
  then have "call_ok (n, buf)" by (auto simp: pipe_inv_def)
  with read_iter_effect [OF _ this read_returns(2), of m] read_returns show ?case by (auto simp: pipe_inv_def)
next
  case (read_goes_on s pre n buf post m buf' pb')
  then have "call_ok (n, buf)" by (auto simp: pipe_inv_def)
  with read_iter_effect [OF _ this read_goes_on(2), of m] read_goes_on show ?case by (auto simp: pipe_inv_def)
next
  case (write_returns s pre n buf post m pb')
  then have "call_ok (n, buf)" by (auto simp: pipe_inv_def)
  with write_iter_effect [OF _ this write_returns(2), of m] write_returns show ?case by (auto simp: pipe_inv_def)
next
  case (write_goes_on s pre n buf post m pb')
  then have "call_ok (n, buf)" by (auto simp: pipe_inv_def)
  with write_iter_effect [OF _ this write_goes_on(2), of m] write_goes_on show ?case by (auto simp: pipe_inv_def)
qed (auto simp: pipe_inv_def call_ok_def pipe_drop_def)

lemma pipe_reachable_inv: "pipe_reachable s \<Longrightarrow> pipe_inv s"
proof (induction rule: pipe_reachable.induct)
  case init
  show ?case using ring.new_empty by (simp add: pipe_inv_def pipe_sys_new_def pipe_new_def)
qed (rule pipe_step_inv)

text \<open>
  C4. Whatever the interleaving of any number of readers and writers: the bytes taken out so far are the
  first of the bytes put in, in order, and what is queued is the rest, at most 256 of them. No
  iteration of a call in progress panics, and the reader finds the write end closed exactly when it is.
\<close>

theorem pipe_fifo:
  assumes "pipe_reachable s"
  shows "py_sent s = py_got s @ ring_contents (pb_ring (py_pipe s)) \<and>
    length (ring_contents (pb_ring (py_pipe s))) \<le> 256 \<and>
    (\<forall>c \<in> set (py_reads s). is_ok (pipe_read_iter (py_pipe s) (fst c) (snd c))) \<and>
    (\<forall>c \<in> set (py_writes s). is_ok (pipe_write_iter (py_pipe s) (fst c) (snd c))) \<and>
    (py_read_end s \<longrightarrow> (write_end_close (py_pipe s) \<longleftrightarrow> \<not> py_write_end s))"
proof -
  have inv: "pipe_inv s" using assms by (rule pipe_reachable_inv)
  then have ring: "ring_inv (pb_ring (py_pipe s))" by (simp add: pipe_inv_def)
  have "is_ok (pipe_read_iter (py_pipe s) n buf)" "is_ok (pipe_write_iter (py_pipe s) n buf)" if "call_ok (n, buf)" for n buf
    using read_iter_spec [OF ring _ _ refl refl, of n buf] write_iter_spec [OF ring _ _ refl refl, of n buf] that
    by (auto simp: call_ok_def)
  then show ?thesis
    using inv ring.bounded [OF ring] by (auto simp: pipe_inv_def write_end_close_def)
qed

lemma example_pipe_reachable:
  "\<exists>rb. pipe_reachable \<lparr>py_pipe = \<lparr>pb_ring = rb, pb_strong = 2\<rparr>, py_read_end = True, py_write_end = True,
     py_reads = [(0, [0])], py_writes = [], py_sent = [7, 8], py_got = []\<rparr>"
proof -
  let ?pb = "\<lparr>pb_ring = ring_new, pb_strong = 2\<rparr>"
  have p: "ring_inv (pb_ring ?pb)" "[] = ring_contents (pb_ring ?pb)" using ring.new_empty by simp_all
  have l: "unat (0 :: usize) \<le> length [7 :: u8, 8]" "length [7 :: u8, 8] < 2 ^ 64" by simp_all
  from write_iter_spec [OF p(1) l p(2) refl] obtain rb where
    w: "pipe_write_iter ?pb 0 [7, 8] = Ok (Return 2, \<lparr>pb_ring = rb, pb_strong = 2\<rparr>)" by auto
  have "pipe_reachable (pipe_sys_new\<lparr>py_writes := [(0, [7, 8])]\<rparr>)"
    by (rule pipe_reachable.step [OF init]) (use start_write [of pipe_sys_new "[7, 8]"] in \<open>simp add: pipe_sys_new_def\<close>)
  from pipe_reachable.step [OF this write_returns [of _ "[]" 0 "[7, 8]" "[]" 2]] w
  have "pipe_reachable (pipe_sys_new\<lparr>py_pipe := \<lparr>pb_ring = rb, pb_strong = 2\<rparr>, py_sent := [7, 8]\<rparr>)"
    by (simp add: pipe_sys_new_def pipe_new_def moved_def)
  from pipe_reachable.step [OF this start_read [of _ "[0]"]] show ?thesis
    by (auto simp: pipe_sys_new_def)
qed

theorem pipe_fifo_witness:
  "\<exists>rb. ring_contents rb = [7, 8] \<and> is_ok (pipe_read_iter \<lparr>pb_ring = rb, pb_strong = 2\<rparr> 0 [0])"
proof -
  obtain rb where "pipe_reachable \<lparr>py_pipe = \<lparr>pb_ring = rb, pb_strong = 2\<rparr>, py_read_end = True, py_write_end = True,
     py_reads = [(0, [0])], py_writes = [], py_sent = [7, 8], py_got = []\<rparr>"
    using example_pipe_reachable by blast
  from pipe_fifo [OF this] show ?thesis by auto
qed

end
