(* ===== verification/Posix_Fd.thy ===== *)
theory Posix_Fd
  imports File_Ops Pipe
begin

text \<open>
  The POSIX layer of \<^verbatim>\<open>arceos_posix_api/src/imp\<close>: the file descriptor table (\<^verbatim>\<open>fd_ops.rs\<close>), files behind
  descriptors (\<^verbatim>\<open>fs.rs\<close>), pipes (\<^verbatim>\<open>sys_pipe\<close>), the standard streams (\<^verbatim>\<open>stdio.rs\<close>) and reading and writing
  through a descriptor (\<^verbatim>\<open>io.rs\<close>). A descriptor names a shared object (an \<^verbatim>\<open>Arc\<close>), which lives as long as
  a descriptor names it. A system call is modelled with the result its body computes; the macro
  \<^verbatim>\<open>syscall_body!\<close> (\<open>syscall_ret\<close>) turns it into the returned integer. A call that may wait for ever
  has an optional result.

  Parameters: the table crate \<^verbatim>\<open>flatten_objects\<close> (\<open>documented_flatten\<close>), the console, the error numbers
  and the conversion of errors of \<^verbatim>\<open>axerrno\<close>, and the file systems.
\<close>

type_synonym c_int = "32 word"

section \<open>Environment and state\<close>

record 't flatten_ops =
  fl_get :: "'t \<Rightarrow> usize \<Rightarrow> nat option"
  fl_add :: "'t \<Rightarrow> nat \<Rightarrow> usize option \<times> 't"
  fl_add_at :: "'t \<Rightarrow> usize \<Rightarrow> nat \<Rightarrow> usize option \<times> 't"
  fl_remove :: "'t \<Rightarrow> usize \<Rightarrow> nat option \<times> 't"

record ('s, 'n, 'f, 't, 'c) posix_env =
  pe_vfs :: "('s, 'n, 'f) vfs_ops"
  pe_fl :: "'t flatten_ops"
  pe_stdin :: "'c \<Rightarrow> u8 list \<Rightarrow> (ax_error, usize \<times> u8 list) outcome \<times> 'c"
  pe_stdout :: "'c \<Rightarrow> u8 list \<Rightarrow> 'c"
  pe_lx :: "ax_error \<Rightarrow> linux_error"
  pe_code :: "linux_error \<Rightarrow> c_int"
  pe_type_code :: "vfs_node_type \<Rightarrow> 8 word"
  pe_perm_bits :: "vfs_perm \<Rightarrow> 16 word"

definition AX_FILE_LIMIT :: usize where
  "AX_FILE_LIMIT = 1024"

datatype 'n file_like = FileObj "'n open_file" | PipeObj bool nat | StdinObj | StdoutObj

record ('s, 'n, 'f, 't, 'c) posix =
  px_vfs :: "('s, 'n, 'f) vfs"
  px_fds :: 't
  px_objs :: "nat \<Rightarrow> 'n file_like option"
  px_pipes :: "nat \<Rightarrow> pipe_buffer option"
  px_next :: nat
  px_console :: 'c

definition syscall_ret :: "(linux_error \<Rightarrow> c_int) \<Rightarrow> (linux_error, c_int) outcome \<Rightarrow> (linux_error, c_int) outcome" where
  "syscall_ret code r = (case r of Ok v \<Rightarrow> Ok v | Err e \<Rightarrow> Ok (- code e) | Panic \<Rightarrow> Panic)"

definition as_usize :: "c_int \<Rightarrow> usize" where
  "as_usize fd = signed fd"

definition as_c_int :: "usize \<Rightarrow> c_int" where
  "as_c_int i = unsigned i"

text \<open>A new object, and what happens to one when a reference is given up.\<close>

definition new_object :: "('s, 'n, 'f, 't, 'c) posix \<Rightarrow> 'n file_like \<Rightarrow> nat \<times> ('s, 'n, 'f, 't, 'c) posix" where
  "new_object w f = (px_next w, w\<lparr>px_objs := (px_objs w)(px_next w := Some f), px_next := px_next w + 1\<rparr>)"

definition referenced :: "('s, 'n, 'f, 't, 'c) posix_env \<Rightarrow> ('s, 'n, 'f, 't, 'c) posix \<Rightarrow> nat \<Rightarrow> bool" where
  "referenced E w obj = (\<exists>i < unat AX_FILE_LIMIT. fl_get (pe_fl E) (px_fds w) (of_nat i) = Some obj)"

definition drop_ref ::
    "('s, 'n, 'f, 't, 'c) posix_env \<Rightarrow> ('s, 'n, 'f, 't, 'c) posix \<Rightarrow> nat \<Rightarrow> ('s, 'n, 'f, 't, 'c) posix" where
  "drop_ref E w obj =
    (if referenced E w obj then w
     else let w' = w\<lparr>px_objs := (px_objs w)(obj := None)\<rparr> in
       case px_objs w obj of
         Some (FileObj f) \<Rightarrow>
           w'\<lparr>px_vfs := (px_vfs w)\<lparr>vfs_nodes := fops_drop (pe_vfs E) (vfs_nodes (px_vfs w)) f\<rparr>\<rparr>
       | Some (PipeObj _ b) \<Rightarrow> w'\<lparr>px_pipes := (px_pipes w)(b := map_option pipe_drop (px_pipes w b))\<rparr>
       | _ \<Rightarrow> w')"

section \<open>Descriptors\<close>

definition get_file_like ::
    "('s, 'n, 'f, 't, 'c) posix_env \<Rightarrow> ('s, 'n, 'f, 't, 'c) posix \<Rightarrow> c_int \<Rightarrow> (linux_error, nat) outcome" where
  "get_file_like E w fd = ok_or EBADF (fl_get (pe_fl E) (px_fds w) (as_usize fd))"

definition add_file_like ::
    "('s, 'n, 'f, 't, 'c) posix_env \<Rightarrow> ('s, 'n, 'f, 't, 'c) posix \<Rightarrow> nat
     \<Rightarrow> (linux_error, c_int) outcome \<times> ('s, 'n, 'f, 't, 'c) posix" where
  "add_file_like E w obj =
    (case fl_add (pe_fl E) (px_fds w) obj of
       (Some i, t) \<Rightarrow> (Ok (as_c_int i), w\<lparr>px_fds := t\<rparr>)
     | (None, t) \<Rightarrow> (Err EMFILE, drop_ref E (w\<lparr>px_fds := t\<rparr>) obj))"

definition close_file_like ::
    "('s, 'n, 'f, 't, 'c) posix_env \<Rightarrow> ('s, 'n, 'f, 't, 'c) posix \<Rightarrow> c_int
     \<Rightarrow> (linux_error, unit) outcome \<times> ('s, 'n, 'f, 't, 'c) posix" where
  "close_file_like E w fd =
    (case fl_remove (pe_fl E) (px_fds w) (as_usize fd) of
       (Some obj, t) \<Rightarrow> (Ok (), drop_ref E (w\<lparr>px_fds := t\<rparr>) obj)
     | (None, t) \<Rightarrow> (Err EBADF, w\<lparr>px_fds := t\<rparr>))"

definition sys_close ::
    "('s, 'n, 'f, 't, 'c) posix_env \<Rightarrow> ('s, 'n, 'f, 't, 'c) posix \<Rightarrow> c_int
     \<Rightarrow> (linux_error, c_int) outcome \<times> ('s, 'n, 'f, 't, 'c) posix" where
  "sys_close E w fd =
    (if fd \<in> {0, 1, 2} then (Ok 0, w)
     else and_then_st (close_file_like E w fd) (\<lambda>_ w. (Ok 0, w)))"

definition dup_fd ::
    "('s, 'n, 'f, 't, 'c) posix_env \<Rightarrow> ('s, 'n, 'f, 't, 'c) posix \<Rightarrow> c_int
     \<Rightarrow> (linux_error, c_int) outcome \<times> ('s, 'n, 'f, 't, 'c) posix" where
  "dup_fd E w old_fd = and_then_st (get_file_like E w old_fd, w) (\<lambda>f w. add_file_like E w f)"

definition sys_dup ::
    "('s, 'n, 'f, 't, 'c) posix_env \<Rightarrow> ('s, 'n, 'f, 't, 'c) posix \<Rightarrow> c_int
     \<Rightarrow> (linux_error, c_int) outcome \<times> ('s, 'n, 'f, 't, 'c) posix" where
  "sys_dup E w old_fd = dup_fd E w old_fd"

text \<open>The commands of \<^verbatim>\<open>fcntl\<close> as \<^verbatim>\<open>ulib/axlibc/include/fcntl.h\<close> numbers them; no file object reacts to \<^verbatim>\<open>set_nonblocking\<close>.\<close>

definition F_DUPFD :: c_int where "F_DUPFD = 0"
definition F_GETFD :: c_int where "F_GETFD = 1"
definition F_SETFL :: c_int where "F_SETFL = 4"
definition F_DUPFD_CLOEXEC :: c_int where "F_DUPFD_CLOEXEC = 1030"

definition sys_fcntl ::
    "('s, 'n, 'f, 't, 'c) posix_env \<Rightarrow> ('s, 'n, 'f, 't, 'c) posix \<Rightarrow> c_int \<Rightarrow> c_int \<Rightarrow> usize
     \<Rightarrow> (linux_error, c_int) outcome \<times> ('s, 'n, 'f, 't, 'c) posix" where
  "sys_fcntl E w fd cmd arg =
    (if cmd = F_DUPFD then dup_fd E w fd
     else if cmd = F_DUPFD_CLOEXEC then dup_fd E w fd
     else if cmd = F_SETFL then
       (if fd = 0 \<or> fd = 1 \<or> fd = 2 then (Ok 0, w)
        else and_then_st (get_file_like E w fd, w) (\<lambda>_ w. (Ok 0, w)))
     else (Ok 0, w))"

definition sys_dup2 ::
    "('s, 'n, 'f, 't, 'c) posix_env \<Rightarrow> ('s, 'n, 'f, 't, 'c) posix \<Rightarrow> c_int \<Rightarrow> c_int
     \<Rightarrow> (linux_error, c_int) outcome \<times> ('s, 'n, 'f, 't, 'c) posix" where
  "sys_dup2 E w old_fd new_fd =
    (if old_fd = new_fd then
       (case sys_fcntl E w old_fd F_GETFD 0 of
          (r, w) \<Rightarrow> and_then_st (syscall_ret (pe_code E) r, w) (\<lambda>r w.
            if 0 \<le> sint r then (Ok old_fd, w) else (Ok r, w)))
     else if AX_FILE_LIMIT \<le> as_usize new_fd then (Err EBADF, w)
     else and_then_st (get_file_like E w old_fd, w) (\<lambda>f w.
       case fl_add_at (pe_fl E) (px_fds w) (as_usize new_fd) f of
         (Some _, t) \<Rightarrow> (Ok new_fd, w\<lparr>px_fds := t\<rparr>)
       | (None, t) \<Rightarrow> (Err EMFILE, drop_ref E (w\<lparr>px_fds := t\<rparr>) f)))"

text \<open>Creating a pipe; the array it fills is given and returned.\<close>

definition sys_pipe ::
    "('s, 'n, 'f, 't, 'c) posix_env \<Rightarrow> ('s, 'n, 'f, 't, 'c) posix \<Rightarrow> c_int list
     \<Rightarrow> (linux_error, c_int \<times> c_int list) outcome \<times> ('s, 'n, 'f, 't, 'c) posix" where
  "sys_pipe E w fds =
    (if length fds \<noteq> 2 then (Err EFAULT, w)
     else
       (let (read_end, write_end, buffer) = pipe_new;
            b = px_next w; w1 = w\<lparr>px_pipes := (px_pipes w)(b := Some buffer), px_next := b + 1\<rparr>;
            (r, w2) = new_object w1 (PipeObj read_end b);
            (v, w3) = new_object w2 (PipeObj write_end b) in
        case add_file_like E w3 r of
          (Ok read_fd, w4) \<Rightarrow>
            (case add_file_like E w4 v of
               (Ok write_fd, w5) \<Rightarrow> (Ok (0, [read_fd, write_fd]), w5)
             | (Err e, w5) \<Rightarrow> (Err e, snd (close_file_like E w5 read_fd))
             | (Panic, w5) \<Rightarrow> (Panic, w5))
        | (Err e, w4) \<Rightarrow> (Err e, drop_ref E w4 v)
        | (Panic, w4) \<Rightarrow> (Panic, w4)))"

section \<open>Reading and writing\<close>

text \<open>\<^verbatim>\<open>Stdin::read_blocked\<close>: a first read, then again until something comes.\<close>

partial_function (option) stdin_retry ::
    "('c \<Rightarrow> u8 list \<Rightarrow> (ax_error, usize \<times> u8 list) outcome \<times> 'c) \<Rightarrow> 'c \<Rightarrow> u8 list
     \<Rightarrow> ((ax_error, usize \<times> u8 list) outcome \<times> 'c) option" where
  "stdin_retry rd c buf =
    (case rd c buf of
       (Ok (n, buf'), c') \<Rightarrow> if 0 < n then Some (Ok (n, buf'), c') else stdin_retry rd c' buf'
     | (Err e, c') \<Rightarrow> Some (Err e, c')
     | (Panic, c') \<Rightarrow> Some (Panic, c'))"

definition read_blocked ::
    "('c \<Rightarrow> u8 list \<Rightarrow> (ax_error, usize \<times> u8 list) outcome \<times> 'c) \<Rightarrow> 'c \<Rightarrow> u8 list
     \<Rightarrow> ((ax_error, usize \<times> u8 list) outcome \<times> 'c) option" where
  "read_blocked rd c buf =
    (case rd c buf of
       (Ok (n, buf'), c') \<Rightarrow> if buf = [] \<or> 0 < n then Some (Ok (n, buf'), c') else stdin_retry rd c' buf'
     | (Err e, c') \<Rightarrow> Some (Err e, c')
     | (Panic, c') \<Rightarrow> Some (Panic, c'))"

definition with_file ::
    "('s, 'n, 'f, 't, 'c) posix \<Rightarrow> nat \<Rightarrow> 'n open_file \<Rightarrow> 's \<Rightarrow> ('s, 'n, 'f, 't, 'c) posix" where
  "with_file w obj f s = w\<lparr>px_objs := (px_objs w)(obj := Some (FileObj f)), px_vfs := (px_vfs w)\<lparr>vfs_nodes := s\<rparr>\<rparr>"

definition file_like_read ::
    "('s, 'n, 'f, 't, 'c) posix_env \<Rightarrow> ('s, 'n, 'f, 't, 'c) posix \<Rightarrow> nat \<Rightarrow> u8 list
     \<Rightarrow> ((linux_error, usize \<times> u8 list) outcome \<times> ('s, 'n, 'f, 't, 'c) posix) option" where
  "file_like_read E w obj buf =
    (case px_objs w obj of
       Some (FileObj f) \<Rightarrow>
         (case fops_read (pe_vfs E) (vfs_nodes (px_vfs w)) f buf of
            (r, f', s) \<Rightarrow> Some (map_err (pe_lx E) r, with_file w obj f' s))
     | Some (PipeObj readable b) \<Rightarrow>
         (case px_pipes w b of
            Some pb \<Rightarrow> map_option (\<lambda>(r, buf', pb'). (and_then r (\<lambda>n. Ok (n, buf')), w\<lparr>px_pipes := (px_pipes w)(b \<mapsto> pb')\<rparr>))
              (pipe_read readable pb buf)
          | None \<Rightarrow> Some (Panic, w))
     | Some StdinObj \<Rightarrow>
         map_option (\<lambda>(r, c). (map_err (pe_lx E) r, w\<lparr>px_console := c\<rparr>)) (read_blocked (pe_stdin E) (px_console w) buf)
     | Some StdoutObj \<Rightarrow> Some (Err EPERM, w)
     | None \<Rightarrow> Some (Panic, w))"

definition file_like_write ::
    "('s, 'n, 'f, 't, 'c) posix_env \<Rightarrow> ('s, 'n, 'f, 't, 'c) posix \<Rightarrow> nat \<Rightarrow> u8 list
     \<Rightarrow> ((linux_error, usize) outcome \<times> ('s, 'n, 'f, 't, 'c) posix) option" where
  "file_like_write E w obj buf =
    (case px_objs w obj of
       Some (FileObj f) \<Rightarrow>
         (case fops_write (pe_vfs E) (vfs_nodes (px_vfs w)) f buf of
            (r, f', s) \<Rightarrow> Some (map_err (pe_lx E) r, with_file w obj f' s))
     | Some (PipeObj readable b) \<Rightarrow>
         (case px_pipes w b of
            Some pb \<Rightarrow> map_option (\<lambda>(r, pb'). (r, w\<lparr>px_pipes := (px_pipes w)(b \<mapsto> pb')\<rparr>)) (pipe_write readable pb buf)
          | None \<Rightarrow> Some (Panic, w))
     | Some StdinObj \<Rightarrow> Some (Err EPERM, w)
     | Some StdoutObj \<Rightarrow>
         Some (Ok (of_nat (length buf)), w\<lparr>px_console := pe_stdout E (px_console w) buf\<rparr>)
     | None \<Rightarrow> Some (Panic, w))"

text \<open>The buffer of a call is \<open>None\<close> for a null pointer, and otherwise the bytes it points to.\<close>

definition sys_read ::
    "('s, 'n, 'f, 't, 'c) posix_env \<Rightarrow> ('s, 'n, 'f, 't, 'c) posix \<Rightarrow> c_int \<Rightarrow> u8 list option
     \<Rightarrow> ((linux_error, usize \<times> u8 list) outcome \<times> ('s, 'n, 'f, 't, 'c) posix) option" where
  "sys_read E w fd buf =
    (case buf of None \<Rightarrow> Some (Err EFAULT, w)
     | Some dst \<Rightarrow>
        (case get_file_like E w fd of
           Ok obj \<Rightarrow> file_like_read E w obj dst | Err e \<Rightarrow> Some (Err e, w) | Panic \<Rightarrow> Some (Panic, w)))"

definition sys_write ::
    "('s, 'n, 'f, 't, 'c) posix_env \<Rightarrow> ('s, 'n, 'f, 't, 'c) posix \<Rightarrow> c_int \<Rightarrow> u8 list option
     \<Rightarrow> ((linux_error, usize) outcome \<times> ('s, 'n, 'f, 't, 'c) posix) option" where
  "sys_write E w fd buf =
    (case buf of None \<Rightarrow> Some (Err EFAULT, w)
     | Some src \<Rightarrow>
        (case get_file_like E w fd of
           Ok obj \<Rightarrow> file_like_write E w obj src | Err e \<Rightarrow> Some (Err e, w) | Panic \<Rightarrow> Some (Panic, w)))"

text \<open>\<^verbatim>\<open>sys_writev\<close> adds up what the single writes return, their negative error numbers included.\<close>

definition write_ret :: "('s, 'n, 'f, 't, 'c) posix_env \<Rightarrow> (linux_error, usize) outcome \<Rightarrow> (linux_error, 64 word) outcome" where
  "write_ret E r = (case r of Ok n \<Rightarrow> Ok n | Err e \<Rightarrow> Ok (signed (- pe_code E e)) | Panic \<Rightarrow> Panic)"

fun writev_loop ::
    "('s, 'n, 'f, 't, 'c) posix_env \<Rightarrow> c_int \<Rightarrow> u8 list option list \<Rightarrow> 64 word \<Rightarrow> ('s, 'n, 'f, 't, 'c) posix
     \<Rightarrow> ((linux_error, 64 word) outcome \<times> ('s, 'n, 'f, 't, 'c) posix) option" where
  "writev_loop E fd [] ret w = Some (Ok ret, w)"
| "writev_loop E fd (iov # iovs) ret w =
    (case sys_write E w fd iov of
       None \<Rightarrow> None
     | Some (r, w') \<Rightarrow>
        (case write_ret E r of
           Ok n \<Rightarrow> writev_loop E fd iovs (ret + n) w' | Err e \<Rightarrow> Some (Err e, w') | Panic \<Rightarrow> Some (Panic, w')))"

definition sys_writev ::
    "('s, 'n, 'f, 't, 'c) posix_env \<Rightarrow> ('s, 'n, 'f, 't, 'c) posix \<Rightarrow> c_int \<Rightarrow> u8 list option list \<Rightarrow> c_int
     \<Rightarrow> ((linux_error, 64 word) outcome \<times> ('s, 'n, 'f, 't, 'c) posix) option" where
  "sys_writev E w fd iovs iocnt =
    (if \<not> (0 \<le> sint iocnt \<and> sint iocnt \<le> 1024) then Some (Err EINVAL, w)
     else writev_loop E fd (take (unat iocnt) iovs) 0 w)"

section \<open>Files\<close>

definition O_WRONLY :: "32 word" where "O_WRONLY = 1"
definition O_CREAT :: "32 word" where "O_CREAT = 64"
definition O_TRUNC :: "32 word" where "O_TRUNC = 512"
definition O_APPEND :: "32 word" where "O_APPEND = 1024"
definition O_EXEC :: "32 word" where "O_EXEC = 2097152"

definition flags_to_options :: "c_int \<Rightarrow> open_options" where
  "flags_to_options flags =
    (let o0 = open_options_new;
         o1 = (if flags AND 3 = 0 then o0\<lparr>opt_read := True\<rparr>
               else if flags AND 3 = O_WRONLY then o0\<lparr>opt_write := True\<rparr>
               else o0\<lparr>opt_read := True, opt_write := True\<rparr>);
         o2 = (if flags AND O_APPEND \<noteq> 0 then o1\<lparr>opt_append := True\<rparr> else o1);
         o3 = (if flags AND O_TRUNC \<noteq> 0 then o2\<lparr>opt_truncate := True\<rparr> else o2);
         o4 = (if flags AND O_CREAT \<noteq> 0 then o3\<lparr>opt_create := True\<rparr> else o3) in
     if flags AND O_EXEC \<noteq> 0 then o4\<lparr>opt_create_new := True\<rparr> else o4)"

text \<open>A path argument is the result of \<^verbatim>\<open>char_ptr_to_str\<close>: a string or the error of a bad pointer.\<close>

definition with_vfs :: "('s, 'n, 'f, 't, 'c) posix \<Rightarrow> ('s, 'n, 'f) vfs \<Rightarrow> ('s, 'n, 'f, 't, 'c) posix" where
  "with_vfs w v = w\<lparr>px_vfs := v\<rparr>"

definition sys_open ::
    "('s, 'n, 'f, 't, 'c) posix_env \<Rightarrow> ('s, 'n, 'f, 't, 'c) posix \<Rightarrow> (linux_error, string) outcome \<Rightarrow> c_int
     \<Rightarrow> (linux_error, c_int) outcome \<times> ('s, 'n, 'f, 't, 'c) posix" where
  "sys_open E w filename flags =
    and_then_st (filename, w) (\<lambda>path w.
      case fops_open (pe_vfs E) (px_vfs w) path (flags_to_options flags) of
        (Ok f, v) \<Rightarrow> (case new_object (with_vfs w v) (FileObj f) of (obj, w') \<Rightarrow> add_file_like E w' obj)
      | (Err e, v) \<Rightarrow> (Err (pe_lx E e), with_vfs w v)
      | (Panic, v) \<Rightarrow> (Panic, with_vfs w v))"

definition from_fd ::
    "('s, 'n, 'f, 't, 'c) posix_env \<Rightarrow> ('s, 'n, 'f, 't, 'c) posix \<Rightarrow> c_int \<Rightarrow> (linux_error, nat \<times> 'n open_file) outcome" where
  "from_fd E w fd = and_then (get_file_like E w fd) (\<lambda>obj.
     case px_objs w obj of Some (FileObj f) \<Rightarrow> Ok (obj, f) | _ \<Rightarrow> Err EINVAL)"

definition sys_lseek ::
    "('s, 'n, 'f, 't, 'c) posix_env \<Rightarrow> ('s, 'n, 'f, 't, 'c) posix \<Rightarrow> c_int \<Rightarrow> 64 word \<Rightarrow> c_int
     \<Rightarrow> (linux_error, u64) outcome \<times> ('s, 'n, 'f, 't, 'c) posix" where
  "sys_lseek E w fd offset whence =
    (case (if whence = 0 then Some (SeekStart offset) else if whence = 1 then Some (SeekCurrent offset)
           else if whence = 2 then Some (SeekEnd offset) else None) of
       None \<Rightarrow> (Err EINVAL, w)
     | Some pos \<Rightarrow> and_then_st (from_fd E w fd, w) (\<lambda>(obj, f) w.
         case fops_seek (pe_vfs E) (vfs_nodes (px_vfs w)) f pos of
           (r, f') \<Rightarrow> (map_err (pe_lx E) r, with_file w obj f' (vfs_nodes (px_vfs w)))))"

record stat =
  st_mode :: "32 word"
  st_uid :: nat
  st_gid :: nat
  st_size :: u64
  st_blocks :: u64
  st_blksize :: nat

definition file_stat ::
    "('s, 'n, 'f, 't, 'c) posix_env \<Rightarrow> 's \<Rightarrow> 'n open_file \<Rightarrow> (linux_error, stat) outcome" where
  "file_stat E s f = and_then (map_err (pe_lx E) (fops_get_attr (pe_vfs E) s f)) (\<lambda>attr.
     Ok \<lparr>st_mode = push_bit 12 (unsigned (pe_type_code E (attr_type attr))) OR unsigned (pe_perm_bits E (attr_perm attr)),
         st_uid = 1000, st_gid = 1000, st_size = attr_size attr, st_blocks = attr_blocks attr, st_blksize = 512\<rparr>)"

definition pipe_stat :: stat where
  "pipe_stat = \<lparr>st_mode = 4096 OR 384, st_uid = 1000, st_gid = 1000, st_size = 0, st_blocks = 0, st_blksize = 4096\<rparr>"

definition stdin_stat :: stat where
  "stdin_stat = \<lparr>st_mode = 8192 OR 288, st_uid = 0, st_gid = 0, st_size = 0, st_blocks = 0, st_blksize = 0\<rparr>"

definition stdout_stat :: stat where
  "stdout_stat = \<lparr>st_mode = 8192 OR 144, st_uid = 0, st_gid = 0, st_size = 0, st_blocks = 0, st_blksize = 0\<rparr>"

definition file_like_stat ::
    "('s, 'n, 'f, 't, 'c) posix_env \<Rightarrow> ('s, 'n, 'f, 't, 'c) posix \<Rightarrow> nat \<Rightarrow> (linux_error, stat) outcome" where
  "file_like_stat E w obj =
    (case px_objs w obj of
       Some (FileObj f) \<Rightarrow> file_stat E (vfs_nodes (px_vfs w)) f
     | Some (PipeObj _ _) \<Rightarrow> Ok pipe_stat | Some StdinObj \<Rightarrow> Ok stdin_stat | Some StdoutObj \<Rightarrow> Ok stdout_stat
     | None \<Rightarrow> Panic)"

text \<open>The stat calls take whether their buffer is a null pointer and return what they put into it.\<close>

definition sys_stat ::
    "('s, 'n, 'f, 't, 'c) posix_env \<Rightarrow> ('s, 'n, 'f, 't, 'c) posix \<Rightarrow> (linux_error, string) outcome \<Rightarrow> bool
     \<Rightarrow> (linux_error, stat) outcome \<times> ('s, 'n, 'f, 't, 'c) posix" where
  "sys_stat E w path buf_null =
    (if buf_null then (Err EFAULT, w)
     else and_then_st (path, w) (\<lambda>path w.
       case fops_open (pe_vfs E) (px_vfs w) path (open_options_new\<lparr>opt_read := True\<rparr>) of
         (Ok f, v) \<Rightarrow> (file_stat E (vfs_nodes v) f, with_vfs w (v\<lparr>vfs_nodes := fops_drop (pe_vfs E) (vfs_nodes v) f\<rparr>))
       | (Err e, v) \<Rightarrow> (Err (pe_lx E e), with_vfs w v)
       | (Panic, v) \<Rightarrow> (Panic, with_vfs w v)))"

definition sys_fstat ::
    "('s, 'n, 'f, 't, 'c) posix_env \<Rightarrow> ('s, 'n, 'f, 't, 'c) posix \<Rightarrow> c_int \<Rightarrow> bool \<Rightarrow> (linux_error, stat) outcome" where
  "sys_fstat E w fd buf_null =
    (if buf_null then Err EFAULT else and_then (get_file_like E w fd) (file_like_stat E w))"

definition sys_getcwd ::
    "('s, 'n, 'f, 't, 'c) posix_env \<Rightarrow> ('s, 'n, 'f, 't, 'c) posix \<Rightarrow> u8 list option \<Rightarrow> (linux_error, u8 list option) outcome" where
  "sys_getcwd E w buf =
    (case buf of None \<Rightarrow> Ok None
     | Some dst \<Rightarrow> and_then (map_err (pe_lx E) (vfs_current_dir (px_vfs w))) (\<lambda>cwd.
         if length cwd < length dst
         then Ok (Some (map (\<lambda>c. of_nat (of_char c)) cwd @ [0] @ drop (length cwd + 1) dst))
         else Err ERANGE))"

definition sys_rename ::
    "('s, 'n, 'f, 't, 'c) posix_env \<Rightarrow> ('s, 'n, 'f, 't, 'c) posix \<Rightarrow> (linux_error, string) outcome
     \<Rightarrow> (linux_error, string) outcome \<Rightarrow> (linux_error, c_int) outcome \<times> ('s, 'n, 'f, 't, 'c) posix" where
  "sys_rename E w old new =
    and_then_st (old, w) (\<lambda>old_path w. and_then_st (new, w) (\<lambda>new_path w.
      case vfs_rename (pe_vfs E) (px_vfs w) old_path new_path of
        (r, v) \<Rightarrow> (and_then (map_err (pe_lx E) r) (\<lambda>_. Ok 0), with_vfs w v)))"

definition file_like_poll ::
    "('s, 'n, 'f, 't, 'c) posix \<Rightarrow> nat \<Rightarrow> (linux_error, poll_state) outcome" where
  "file_like_poll w obj =
    (case px_objs w obj of
       Some (PipeObj readable b) \<Rightarrow> (case px_pipes w b of Some pb \<Rightarrow> pipe_poll readable pb | None \<Rightarrow> Panic)
     | Some _ \<Rightarrow> Ok \<lparr>poll_readable = True, poll_writable = True\<rparr>
     | None \<Rightarrow> Panic)"

section \<open>The table\<close>

text \<open>
  What the table crate documents, for a capacity of \<^verbatim>\<open>AX_FILE_LIMIT\<close>: identifiers are below the
  capacity, \<open>add\<close> takes a free one and fails only on a full table, \<open>add_at\<close> fails exactly when its
  identifier is taken or out of range, \<open>remove\<close> returns and frees.
\<close>

definition documented_flatten :: "'t flatten_ops \<Rightarrow> bool" where
  "documented_flatten F \<longleftrightarrow>
    (\<forall>t i. fl_get F t i \<noteq> None \<longrightarrow> i < AX_FILE_LIMIT) \<and>
    (\<forall>t x. case fl_add F t x of
        (Some i, t') \<Rightarrow> i < AX_FILE_LIMIT \<and> fl_get F t i = None \<and> fl_get F t' = (fl_get F t)(i \<mapsto> x)
      | (None, t') \<Rightarrow> fl_get F t' = fl_get F t \<and> (\<forall>i < AX_FILE_LIMIT. fl_get F t i \<noteq> None)) \<and>
    (\<forall>t i x. if i < AX_FILE_LIMIT \<and> fl_get F t i = None
      then fst (fl_add_at F t i x) = Some i \<and> fl_get F (snd (fl_add_at F t i x)) = (fl_get F t)(i \<mapsto> x)
      else fst (fl_add_at F t i x) = None \<and> fl_get F (snd (fl_add_at F t i x)) = fl_get F t) \<and>
    (\<forall>t i. fst (fl_remove F t i) = fl_get F t i \<and> fl_get F (snd (fl_remove F t i)) = (fl_get F t)(i := None))"

abbreviation fd_map :: "('s, 'n, 'f, 't, 'c) posix_env \<Rightarrow> ('s, 'n, 'f, 't, 'c) posix \<Rightarrow> usize \<Rightarrow> nat option" where
  "fd_map E w \<equiv> fl_get (pe_fl E) (px_fds w)"

text \<open>The objects named by descriptors are allocated, and nothing is allocated beyond the next identifier.\<close>

definition posix_wf :: "('s, 'n, 'f, 't, 'c) posix_env \<Rightarrow> ('s, 'n, 'f, 't, 'c) posix \<Rightarrow> bool" where
  "posix_wf E w \<longleftrightarrow> (\<forall>i obj. fd_map E w i = Some obj \<longrightarrow> obj < px_next w) \<and>
    (\<forall>obj. px_next w \<le> obj \<longrightarrow> px_objs w obj = None)"

lemma flatten_add:
  assumes "documented_flatten F"
  obtains i t' where "fl_add F t x = (Some i, t')" "i < AX_FILE_LIMIT" "fl_get F t i = None" "fl_get F t' = (fl_get F t)(i \<mapsto> x)"
  | t' where "fl_add F t x = (None, t')" "fl_get F t' = fl_get F t" "\<And>i. i < AX_FILE_LIMIT \<Longrightarrow> fl_get F t i \<noteq> None"
proof -
  have "case fl_add F t x of
        (Some i, t') \<Rightarrow> i < AX_FILE_LIMIT \<and> fl_get F t i = None \<and> fl_get F t' = (fl_get F t)(i \<mapsto> x)
      | (None, t') \<Rightarrow> fl_get F t' = fl_get F t \<and> (\<forall>i < AX_FILE_LIMIT. fl_get F t i \<noteq> None)"
    using assms [unfolded documented_flatten_def, THEN conjunct2, THEN conjunct1, THEN spec, THEN spec] .
  note law = this
  obtain r t' where e: "fl_add F t x = (r, t')" by fastforce
  show thesis
  proof (cases r)
    case None
    then show thesis using law e by (intro that(2) [of t']) simp_all
  next
    case (Some i)
    then show thesis using law e by (intro that(1) [of i t']) simp_all
  qed
qed

lemma flatten_remove:
  assumes "documented_flatten F"
  shows "fst (fl_remove F t i) = fl_get F t i" "fl_get F (snd (fl_remove F t i)) = (fl_get F t)(i := None)"
  using assms unfolding documented_flatten_def by blast+

lemma flatten_add_at:
  assumes "documented_flatten F"
  shows "if i < AX_FILE_LIMIT \<and> fl_get F t i = None
      then fst (fl_add_at F t i x) = Some i \<and> fl_get F (snd (fl_add_at F t i x)) = (fl_get F t)(i \<mapsto> x)
      else fst (fl_add_at F t i x) = None \<and> fl_get F (snd (fl_add_at F t i x)) = fl_get F t"
  using assms [unfolded documented_flatten_def, THEN conjunct2, THEN conjunct2, THEN conjunct1,
    THEN spec, THEN spec, THEN spec] .

lemma flatten_range: "documented_flatten F \<Longrightarrow> fl_get F t i = Some x \<Longrightarrow> i < AX_FILE_LIMIT"
  unfolding documented_flatten_def by blast

lemma c_int_round: "i < AX_FILE_LIMIT \<Longrightarrow> as_usize (as_c_int i) = i"
proof -
  assume "i < AX_FILE_LIMIT"
  then have "uint i < 1024" by (simp add: AX_FILE_LIMIT_def word_less_def)
  moreover have "sint (as_c_int i) = signed_take_bit 31 (uint i)"
    by (simp add: as_c_int_def signed_ucast_eq)
  moreover have "0 \<le> uint i" by simp
  then have "- (2 ^ 31) \<le> uint i" by (rule order_trans [rotated]) simp
  ultimately have "sint (as_c_int i) = uint i"
    using signed_take_bit_int_eq_self [of 31 "uint i"] by simp
  then show ?thesis by (simp add: as_usize_def scast_eq)
qed

lemma referencedI:
  assumes "documented_flatten (pe_fl E)" and "fd_map E w i = Some obj"
  shows "referenced E w obj"
proof -
  have "i < AX_FILE_LIMIT" using flatten_range [OF assms] .
  then show ?thesis
    using assms(2) unfolding referenced_def by (intro exI [of _ "unat i"]) (simp add: word_less_nat_alt)
qed

lemma referencedD: "referenced E w obj \<Longrightarrow> \<exists>i. fd_map E w i = Some obj"
  unfolding referenced_def by blast

lemma drop_ref_fds [simp]: "px_fds (drop_ref E w obj) = px_fds w" "px_next (drop_ref E w obj) = px_next w"
  by (simp_all add: drop_ref_def Let_def split: option.split file_like.split)

lemma drop_ref_objs:
  "px_objs (drop_ref E w obj) = (if referenced E w obj then px_objs w else (px_objs w)(obj := None))"
  by (simp add: drop_ref_def Let_def split: option.split file_like.split)

lemma drop_ref_pipe:
  assumes "px_objs w obj = Some (PipeObj r b)" and "\<not> referenced E w obj"
  shows "px_pipes (drop_ref E w obj) = (px_pipes w)(b := map_option pipe_drop (px_pipes w b))"
  using assms by (simp add: drop_ref_def Let_def)

lemma not_referenced_fresh: "posix_wf E w \<Longrightarrow> fd_map E w' = fd_map E w \<Longrightarrow> px_next w \<le> obj \<Longrightarrow> \<not> referenced E w' obj"
  by (metis posix_wf_def referencedD not_less)

lemma sys_pipe_ends:
  assumes "length fds = 2"
  shows "sys_pipe E w fds =
    (let b = px_next w;
         w3 = w\<lparr>px_pipes := (px_pipes w)(b \<mapsto> \<lparr>pb_ring = ring_new, pb_strong = 2\<rparr>),
           px_objs := (px_objs w)(b + 1 \<mapsto> PipeObj True b, b + 2 \<mapsto> PipeObj False b), px_next := b + 3\<rparr> in
     case add_file_like E w3 (b + 1) of
       (Ok read_fd, w4) \<Rightarrow>
         (case add_file_like E w4 (b + 2) of
            (Ok write_fd, w5) \<Rightarrow> (Ok (0, [read_fd, write_fd]), w5)
          | (Err e, w5) \<Rightarrow> (Err e, snd (close_file_like E w5 read_fd))
          | (Panic, w5) \<Rightarrow> (Panic, w5))
     | (Err e, w4) \<Rightarrow> (Err e, drop_ref E w4 (b + 2))
     | (Panic, w4) \<Rightarrow> (Panic, w4))"
  using assms by (simp add: sys_pipe_def pipe_new_def new_object_def Let_def numeral_2_eq_2 numeral_3_eq_3
      split: prod.split outcome.split)

text \<open>
  C21. Creating a pipe is all or nothing. On success two free descriptors name the read and the write end
  of one new, empty buffer held by exactly these two, and every other descriptor, object and buffer is
  as before. Otherwise the error is \<open>EMFILE\<close>, fewer than two descriptors were free, the table, all
  objects and the buffers of all other pipes are as before, and the new buffer is held by nobody: its
  count of holders is 0.
\<close>

theorem sys_pipe_exact:
  assumes "documented_flatten (pe_fl E)" and "posix_wf E w" and "length fds = 2"
    and "sys_pipe E w fds = (res, w')" and "b = px_next w"
  shows "(\<exists>i j. res = Ok (0, [as_c_int i, as_c_int j]) \<and> i \<noteq> j \<and> fd_map E w i = None \<and> fd_map E w j = None \<and>
      fd_map E w' = (fd_map E w)(i \<mapsto> b + 1, j \<mapsto> b + 2) \<and>
      px_objs w' = (px_objs w)(b + 1 \<mapsto> PipeObj True b, b + 2 \<mapsto> PipeObj False b) \<and>
      px_pipes w' = (px_pipes w)(b \<mapsto> \<lparr>pb_ring = ring_new, pb_strong = 2\<rparr>)) \<or>
    (res = Err EMFILE \<and> (\<exists>i. \<forall>j. j < AX_FILE_LIMIT \<and> j \<noteq> i \<longrightarrow> fd_map E w j \<noteq> None) \<and>
      fd_map E w' = fd_map E w \<and> px_objs w' = px_objs w \<and>
      px_pipes w' = (px_pipes w)(b \<mapsto> \<lparr>pb_ring = ring_new, pb_strong = 0\<rparr>))"
proof -
  note F = assms(1)
  define w3 where "w3 = w\<lparr>px_pipes := (px_pipes w)(b \<mapsto> \<lparr>pb_ring = ring_new, pb_strong = 2\<rparr>),
    px_objs := (px_objs w)(b + 1 \<mapsto> PipeObj True b, b + 2 \<mapsto> PipeObj False b), px_next := b + 3\<rparr>"
  have fds3: "px_fds w3 = px_fds w" by (simp add: w3_def)
  have lt: "obj < b" if "fd_map E w k = Some obj" for k obj
    using that assms(2,5) unfolding posix_wf_def by blast
  have restore: "(px_objs w)(b + 1 := None, b + 2 := None) = px_objs w"
    using assms(2,5) by (auto simp: posix_wf_def)
  note body = assms(4) [unfolded sys_pipe_ends [OF assms(3)] Let_def, folded assms(5), folded w3_def]
  show ?thesis
  proof (cases rule: flatten_add [OF F, of "px_fds w" "b + 1"])
    case (2 t')
    have nr: "\<not> referenced E (w3\<lparr>px_fds := t'\<rparr>) (b + 1)" "\<not> referenced E (drop_ref E (w3\<lparr>px_fds := t'\<rparr>) (b + 1)) (b + 2)"
      using not_referenced_fresh [OF assms(2), of "w3\<lparr>px_fds := t'\<rparr>" "b + 1"]
        not_referenced_fresh [OF assms(2), of "drop_ref E (w3\<lparr>px_fds := t'\<rparr>) (b + 1)" "b + 2"] 2(2) assms(5)
      by simp_all
    have "res = Err EMFILE" "w' = drop_ref E (drop_ref E (w3\<lparr>px_fds := t'\<rparr>) (b + 1)) (b + 2)"
      using body 2(1) by (simp_all add: add_file_like_def fds3)
    then show ?thesis
      using 2 nr restore
      by (simp add: drop_ref_objs drop_ref_pipe [where r = True] drop_ref_pipe [where r = False] w3_def pipe_drop_def)
  next
    case (1 i t')
    define w4 where "w4 = w3\<lparr>px_fds := t'\<rparr>"
    have add: "add_file_like E w3 (b + 1) = (Ok (as_c_int i), w4)"
      using 1(1) by (simp add: add_file_like_def fds3 w4_def)
    show ?thesis
    proof (cases rule: flatten_add [OF F, of t' "b + 2"])
      case two: (1 j t2)
      then have "(res, w') = (Ok (0, [as_c_int i, as_c_int j]), w4\<lparr>px_fds := t2\<rparr>)"
        using body [unfolded add] by (simp add: add_file_like_def w4_def)
      moreover have "i \<noteq> j" "fd_map E w j = None" using two(3) 1(4) by (auto split: if_splits)
      ultimately show ?thesis using 1 two by (auto simp: w4_def w3_def)
    next
      case (2 t2)
      define w5 where "w5 = drop_ref E (w4\<lparr>px_fds := t2\<rparr>) (b + 2)"
      have "(res, w') = (Err EMFILE, snd (close_file_like E w5 (as_c_int i)))"
        using body [unfolded add] 2(1) by (simp add: add_file_like_def w4_def w5_def)
      moreover obtain t3 where t3: "fl_remove (pe_fl E) t2 i = (Some (b + 1), t3)" "fl_get (pe_fl E) t3 = fd_map E w"
        using flatten_remove [OF F, of t2 i] 2(2) 1(3,4) by (cases "fl_remove (pe_fl E) t2 i") (auto simp: fun_upd_idem)
      ultimately have res: "res = Err EMFILE" "w' = drop_ref E (w5\<lparr>px_fds := t3\<rparr>) (b + 1)"
        by (simp_all add: close_file_like_def c_int_round [OF 1(2)] w5_def)
      have "\<not> referenced E (w4\<lparr>px_fds := t2\<rparr>) (b + 2)"
      proof
        assume "referenced E (w4\<lparr>px_fds := t2\<rparr>) (b + 2)"
        then obtain k where "((fd_map E w)(i \<mapsto> b + 1)) k = Some (b + 2)"
          using referencedD [of E "w4\<lparr>px_fds := t2\<rparr>" "b + 2"] 2(2) 1(4) by auto
        then show False using lt [of k "b + 2"] by (simp split: if_splits)
      qed
      moreover have "\<not> referenced E (w5\<lparr>px_fds := t3\<rparr>) (b + 1)"
        using not_referenced_fresh [OF assms(2), of "w5\<lparr>px_fds := t3\<rparr>" "b + 1"] t3(2) assms(5) by simp
      moreover have "\<forall>j. j < AX_FILE_LIMIT \<and> j \<noteq> i \<longrightarrow> fd_map E w j \<noteq> None"
        using 2(3) 1(4) by (metis fun_upd_other)
      ultimately show ?thesis
        using t3 restore res
        by (auto simp: drop_ref_objs drop_ref_pipe [where r = True] drop_ref_pipe [where r = False]
            w3_def w4_def w5_def pipe_drop_def fun_upd_twist)
    qed
  qed
qed

lemma sys_dup_cases:
  assumes "documented_flatten (pe_fl E)" and "sys_dup E w fd = (r, w')"
  obtains "r = Err EBADF" "w' = w" "get_file_like E w fd = Err EBADF"
  | obj where "r = Err EMFILE" "get_file_like E w fd = Ok obj" "fd_map E w' = fd_map E w" "px_objs w' = px_objs w"
      "\<And>i. i < AX_FILE_LIMIT \<Longrightarrow> fd_map E w i \<noteq> None"
  | obj i where "r = Ok (as_c_int i)" "get_file_like E w fd = Ok obj" "i < AX_FILE_LIMIT" "fd_map E w i = None"
      "fd_map E w' = (fd_map E w)(i \<mapsto> obj)" "px_objs w' = px_objs w"
proof (cases "get_file_like E w fd")
  case (Ok obj)
  have obj: "fd_map E w (as_usize fd) = Some obj" using Ok by (simp add: get_file_like_def)
  show ?thesis
  proof (cases rule: flatten_add [OF assms(1), of "px_fds w" obj])
    case (1 i t')
    with assms(2) Ok that(3) [of i obj] show ?thesis by (auto simp: sys_dup_def dup_fd_def add_file_like_def)
  next
    case (2 t')
    have "referenced E (w\<lparr>px_fds := t'\<rparr>) obj"
      using referencedI [OF assms(1), of "w\<lparr>px_fds := t'\<rparr>" "as_usize fd" obj] obj 2(2) by simp
    then have "r = Err EMFILE" "w' = w\<lparr>px_fds := t'\<rparr>"
      using assms(2) Ok 2(1) by (simp_all add: sys_dup_def dup_fd_def add_file_like_def drop_ref_def)
    then show ?thesis using 2 Ok by (intro that(2) [of obj]) simp_all
  qed
next
  case (Err e)
  then have "e = EBADF" by (simp add: get_file_like_def ok_or_def split: option.splits)
  then show ?thesis using Err assms(2) that(1) by (simp add: sys_dup_def dup_fd_def)
qed (simp add: get_file_like_def)

text \<open>
  C22. Duplicating a descriptor gives a free one for the same object, so that reading and writing through
  either is the same thing, and so is moving the cursor; it fails with \<open>EBADF\<close> exactly when the old one is not open
  and with \<open>EMFILE\<close> exactly when the table is full. Closing one of the two leaves the other and its
  object untouched.
\<close>

theorem dup_shares:
  assumes "documented_flatten (pe_fl E)" and "sys_dup E w fd = (r, w1)"
  shows "(r = Err EBADF \<longleftrightarrow> get_file_like E w fd = Err EBADF) \<and>
    (r = Err EMFILE \<longleftrightarrow> is_ok (get_file_like E w fd) \<and> (\<forall>i < AX_FILE_LIMIT. fd_map E w i \<noteq> None)) \<and>
    (r = Err EBADF \<or> r = Err EMFILE \<longrightarrow> fd_map E w1 = fd_map E w \<and> px_objs w1 = px_objs w) \<and>
    (\<forall>fd'. r = Ok fd' \<longrightarrow> (\<exists>obj. get_file_like E w fd = Ok obj \<and> get_file_like E w fd' = Err EBADF \<and>
       fd_map E w1 = (fd_map E w)(as_usize fd' \<mapsto> obj) \<and> px_objs w1 = px_objs w \<and>
       (\<forall>v buf. px_fds v = px_fds w1 \<longrightarrow>
          sys_read E v fd' buf = sys_read E v fd buf \<and> sys_write E v fd' buf = sys_write E v fd buf) \<and>
       (\<forall>v off whence. px_fds v = px_fds w1 \<longrightarrow> sys_lseek E v fd' off whence = sys_lseek E v fd off whence) \<and>
       (\<forall>w2. fd \<notin> {0, 1, 2} \<and> sys_close E w1 fd = (Ok 0, w2) \<longrightarrow>
          get_file_like E w2 fd = Err EBADF \<and> get_file_like E w2 fd' = Ok obj \<and> px_objs w2 = px_objs w)))"
  using assms(1,2)
proof (cases rule: sys_dup_cases)
  case (3 obj i)
  let ?fd = "as_c_int i"
  have fd: "as_usize ?fd = i" using 3(3) by (rule c_int_round)
  have ne: "as_usize fd \<noteq> i" using 3(2,4) by (auto simp: get_file_like_def)
  have same: "get_file_like E v ?fd = get_file_like E v fd" if "px_fds v = px_fds w1" for v
    using 3(2,5) fd ne that by (simp add: get_file_like_def)
  have close: "get_file_like E w2 fd = Err EBADF \<and> get_file_like E w2 ?fd = Ok obj \<and> px_objs w2 = px_objs w"
    if c: "fd \<notin> {0, 1, 2}" "sys_close E w1 fd = (Ok 0, w2)" for w2
  proof -
    obtain t where t: "fl_remove (pe_fl E) (px_fds w1) (as_usize fd) = (Some obj, t)"
      "fl_get (pe_fl E) t = (fd_map E w1)(as_usize fd := None)"
      using flatten_remove [OF assms(1), of "px_fds w1" "as_usize fd"] 3(2,5) ne
      by (cases "fl_remove (pe_fl E) (px_fds w1) (as_usize fd)") (auto simp: get_file_like_def)
    have "referenced E (w1\<lparr>px_fds := t\<rparr>) obj"
      using referencedI [OF assms(1), of "w1\<lparr>px_fds := t\<rparr>" i obj] t(2) 3(5) ne by simp
    then have "w2 = w1\<lparr>px_fds := t\<rparr>"
      using c t(1) by (simp add: sys_close_def close_file_like_def drop_ref_def)
    then show ?thesis using t(2) 3(5,6) ne fd by (simp add: get_file_like_def)
  qed
  have bad: "get_file_like E w ?fd = Err EBADF" using 3(4) fd by (simp add: get_file_like_def)
  have io: "sys_read E v ?fd buf = sys_read E v fd buf" "sys_write E v ?fd buf = sys_write E v fd buf"
    if "px_fds v = px_fds w1" for v buf unfolding sys_read_def sys_write_def same [OF that] by (rule refl)+
  have seek: "sys_lseek E v ?fd off whence = sys_lseek E v fd off whence"
    if "px_fds v = px_fds w1" for v off whence unfolding sys_lseek_def from_fd_def same [OF that] by (rule refl)
  have upd: "fd_map E w1 = (fd_map E w)(as_usize ?fd \<mapsto> obj)" using 3(5) by (simp add: fd)
  have io_all: "\<forall>v buf. px_fds v = px_fds w1 \<longrightarrow>
          sys_read E v ?fd buf = sys_read E v fd buf \<and> sys_write E v ?fd buf = sys_write E v fd buf"
    by (intro allI impI conjI io)
  have seek_all: "\<forall>v off whence. px_fds v = px_fds w1 \<longrightarrow> sys_lseek E v ?fd off whence = sys_lseek E v fd off whence"
    by (intro allI impI seek)
  have close_all: "\<forall>w2. fd \<notin> {0, 1, 2} \<and> sys_close E w1 fd = (Ok 0, w2) \<longrightarrow>
          get_file_like E w2 fd = Err EBADF \<and> get_file_like E w2 ?fd = Ok obj \<and> px_objs w2 = px_objs w"
    by (intro allI impI) (rule close; elim conjE; assumption)
  have "\<exists>obj. get_file_like E w fd = Ok obj \<and> get_file_like E w ?fd = Err EBADF \<and>
       fd_map E w1 = (fd_map E w)(as_usize ?fd \<mapsto> obj) \<and> px_objs w1 = px_objs w \<and>
       (\<forall>v buf. px_fds v = px_fds w1 \<longrightarrow>
          sys_read E v ?fd buf = sys_read E v fd buf \<and> sys_write E v ?fd buf = sys_write E v fd buf) \<and>
       (\<forall>v off whence. px_fds v = px_fds w1 \<longrightarrow> sys_lseek E v ?fd off whence = sys_lseek E v fd off whence) \<and>
       (\<forall>w2. fd \<notin> {0, 1, 2} \<and> sys_close E w1 fd = (Ok 0, w2) \<longrightarrow>
          get_file_like E w2 fd = Err EBADF \<and> get_file_like E w2 ?fd = Ok obj \<and> px_objs w2 = px_objs w)"
    using 3(2) bad upd 3(6) io_all seek_all close_all by (intro exI [of _ obj] conjI)
  moreover have "\<not> (\<forall>i < AX_FILE_LIMIT. fd_map E w i \<noteq> None)" using 3(3,4) by blast
  ultimately show ?thesis unfolding 3(1) 3(2) by simp
next
  case 1
  then show ?thesis by simp
next
  case (2 obj)
  then show ?thesis by simp
qed

lemma dup2_same: "sys_dup2 E w fd fd = (Ok fd, w)"
  by (simp add: sys_dup2_def sys_fcntl_def F_DUPFD_def F_GETFD_def F_SETFL_def F_DUPFD_CLOEXEC_def syscall_ret_def)

lemma dup2_open_fails:
  assumes "documented_flatten (pe_fl E)" and "old \<noteq> new" and "is_ok (get_file_like E w new)" and "is_ok (get_file_like E w old)"
  shows "fst (sys_dup2 E w old new) = Err EMFILE"
proof -
  obtain x y where xy: "fd_map E w (as_usize new) = Some y" "fd_map E w (as_usize old) = Some x"
    using assms(3,4) by (auto simp: get_file_like_def ok_or_def split: option.splits)
  then have "as_usize new < AX_FILE_LIMIT" using flatten_range [OF assms(1)] by blast
  then show ?thesis
    using flatten_add_at [OF assms(1), where i = "as_usize new" and t = "px_fds w" and x = x] xy assms(2)
    by (cases "fl_add_at (pe_fl E) (px_fds w) (as_usize new) x") (simp add: sys_dup2_def get_file_like_def)
qed

end
