(* ===== verification/Posix_Boot.thy ===== *)
theory Posix_Boot
  imports Posix_Fd Ramfs_Boot
begin

text \<open>
  The POSIX layer over the in-memory file system: a concrete environment, with a table that keeps what
  its crate documents, in which the results of \<^verbatim>\<open>Posix_Fd\<close> apply, and the round trip of a file through
  \<^verbatim>\<open>write\<close>, \<^verbatim>\<open>lseek\<close> and \<^verbatim>\<open>read\<close>.
\<close>

definition fd_ids :: "usize list" where
  "fd_ids = map of_nat [0..<unat AX_FILE_LIMIT]"

definition fn_table :: "(usize \<Rightarrow> nat option) flatten_ops" where
  "fn_table = \<lparr>
     fl_get = (\<lambda>t i. if i < AX_FILE_LIMIT then t i else None),
     fl_add = (\<lambda>t x. case find (\<lambda>i. t i = None) fd_ids of
        Some i \<Rightarrow> (Some i, t(i \<mapsto> x)) | None \<Rightarrow> (None, t)),
     fl_add_at = (\<lambda>t i x. if i < AX_FILE_LIMIT \<and> t i = None then (Some i, t(i \<mapsto> x)) else (None, t)),
     fl_remove = (\<lambda>t i. if i < AX_FILE_LIMIT then (t i, t(i := None)) else (None, t))\<rparr>"

lemma fn_table_documented: "documented_flatten fn_table"
proof -
  have ids: "set fd_ids = {i. i < AX_FILE_LIMIT}"
  proof (intro set_eqI iffI)
    fix i assume "i \<in> set fd_ids"
    then obtain n where n: "n < unat AX_FILE_LIMIT" "i = of_nat n" by (auto simp: fd_ids_def)
    have "unat (of_nat n :: usize) = n"
      using n(1) unat_usize_less [of AX_FILE_LIMIT] by (simp add: unat_of_nat)
    then show "i \<in> {i. i < AX_FILE_LIMIT}" using n by (simp add: word_less_nat_alt)
  next
    fix i assume "i \<in> {i. i < AX_FILE_LIMIT}"
    then have "unat i \<in> set [0..<unat AX_FILE_LIMIT]" by (simp add: word_less_nat_alt)
    moreover have "(of_nat (unat i) :: usize) = i" by simp
    ultimately show "i \<in> set fd_ids" unfolding fd_ids_def set_map by (metis imageI)
  qed
  have add: "case fl_add fn_table t x of
        (Some i, t') \<Rightarrow> i < AX_FILE_LIMIT \<and> fl_get fn_table t i = None \<and> fl_get fn_table t' = (fl_get fn_table t)(i \<mapsto> x)
      | (None, t') \<Rightarrow> fl_get fn_table t' = fl_get fn_table t \<and> (\<forall>i < AX_FILE_LIMIT. fl_get fn_table t i \<noteq> None)" for t x
  proof (cases "find (\<lambda>i. t i = None) fd_ids")
    case None
    then have "\<forall>i \<in> set fd_ids. t i \<noteq> None" by (simp add: find_None_iff)
    then have "t i \<noteq> None" if "i < AX_FILE_LIMIT" for i using that ids by simp
    then show ?thesis using None by (simp add: fn_table_def)
  next
    case (Some i)
    then obtain k where k: "k < length fd_ids" "t (fd_ids ! k) = None" "i = fd_ids ! k"
      unfolding find_Some_iff by blast
    then have "t i = None" "i < AX_FILE_LIMIT" using nth_mem [OF k(1)] ids by simp_all
    then show ?thesis using Some by (auto simp: fn_table_def)
  qed
  have range: "\<forall>t i. fl_get fn_table t i \<noteq> None \<longrightarrow> i < AX_FILE_LIMIT" by (simp add: fn_table_def)
  have add_at: "\<forall>t i x. if i < AX_FILE_LIMIT \<and> fl_get fn_table t i = None
      then fst (fl_add_at fn_table t i x) = Some i \<and>
        fl_get fn_table (snd (fl_add_at fn_table t i x)) = (fl_get fn_table t)(i \<mapsto> x)
      else fst (fl_add_at fn_table t i x) = None \<and> fl_get fn_table (snd (fl_add_at fn_table t i x)) = fl_get fn_table t"
    by (auto simp: fn_table_def)
  have remove: "\<forall>t i. fst (fl_remove fn_table t i) = fl_get fn_table t i \<and>
      fl_get fn_table (snd (fl_remove fn_table t i)) = (fl_get fn_table t)(i := None)"
    by (auto simp: fn_table_def)
  show ?thesis
    unfolding documented_flatten_def
    by (rule conjI [OF range conjI [OF _ conjI [OF add_at remove]]]) (intro allI add)
qed

lemma fd_ids_4_5: "(4 :: usize) < AX_FILE_LIMIT" "(5 :: usize) < AX_FILE_LIMIT" "(4 :: usize) \<noteq> 5"
  by (simp_all add: AX_FILE_LIMIT_def)

definition example_env :: "(ram_world, nat, nat, usize \<Rightarrow> nat option, unit) posix_env" where
  "example_env = \<lparr>pe_vfs = example_ops, pe_fl = fn_table, pe_stdin = (\<lambda>c buf. (Ok (0, buf), c)), pe_stdout = (\<lambda>c _. c),
     pe_lx = (\<lambda>_. EINVAL), pe_code = (\<lambda>_. 22), pe_type_code = (\<lambda>_. 8), pe_perm_bits = (\<lambda>_. 438)\<rparr>"

definition example_posix :: "(ram_world, nat, nat, usize \<Rightarrow> nat option, unit) posix" where
  "example_posix = \<lparr>px_vfs = example_vfs,
     px_fds = [0 \<mapsto> 0, 1 \<mapsto> 1, 2 \<mapsto> 2, 3 \<mapsto> 3],
     px_objs = [0 \<mapsto> StdinObj, 1 \<mapsto> StdoutObj, 2 \<mapsto> StdoutObj,
       3 \<mapsto> FileObj \<lparr>of_node = 1, of_cap = {CapRead, CapWrite}, of_append = False, of_offset = 0\<rparr>],
     px_pipes = Map.empty, px_next = 4, px_console = ()\<rparr>"

lemma example_posix_wf: "posix_wf example_env example_posix"
  by (auto simp: posix_wf_def example_posix_def example_env_def fn_table_def split: if_splits)

lemma example_env_table: "documented_flatten (pe_fl example_env)"
  by (simp add: example_env_def fn_table_documented)

theorem sys_pipe_exact_witness:
  "documented_flatten (pe_fl example_env) \<and> posix_wf example_env example_posix \<and>
   (\<exists>i j w'. sys_pipe example_env example_posix [0, 0] = (Ok (0, [as_c_int i, as_c_int j]), w') \<and> i \<noteq> j \<and>
      px_pipes w' = (px_pipes example_posix)(4 \<mapsto> \<lparr>pb_ring = ring_new, pb_strong = 2\<rparr>))"
proof -
  obtain res w' where r: "sys_pipe example_env example_posix [0, 0] = (res, w')" by fastforce
  have "fd_map example_env example_posix 4 = None" "fd_map example_env example_posix 5 = None"
    by (simp_all add: example_env_def example_posix_def fn_table_def)
  then have free: "\<nexists>i. \<forall>j. j < AX_FILE_LIMIT \<and> j \<noteq> i \<longrightarrow> fd_map example_env example_posix j \<noteq> None"
    by (metis fd_ids_4_5)
  have "length [0, 0 :: c_int] = 2" "4 = px_next example_posix" by (simp_all add: example_posix_def)
  from sys_pipe_exact [OF example_env_table example_posix_wf this(1) r this(2)]
  have "\<exists>i j. res = Ok (0, [as_c_int i, as_c_int j]) \<and> i \<noteq> j \<and>
    px_pipes w' = (px_pipes example_posix)(4 \<mapsto> \<lparr>pb_ring = ring_new, pb_strong = 2\<rparr>)"
    by (elim disjE exE conjE) (intro exI conjI, assumption, assumption, assumption, rule notE [OF free], intro exI, assumption)
  then obtain i j where "res = Ok (0, [as_c_int i, as_c_int j])" "i \<noteq> j"
    "px_pipes w' = (px_pipes example_posix)(4 \<mapsto> \<lparr>pb_ring = ring_new, pb_strong = 2\<rparr>)"
    by blast
  then show ?thesis using example_env_table example_posix_wf r by (intro conjI exI [of _ i] exI [of _ j] exI [of _ w']) simp_all
qed

theorem dup_shares_witness:
  "documented_flatten (pe_fl example_env) \<and>
   (\<exists>fd' w1. sys_dup example_env example_posix 3 = (Ok fd', w1) \<and> get_file_like example_env w1 fd' = Ok 3)"
proof -
  obtain r w1 where r: "sys_dup example_env example_posix 3 = (r, w1)" by fastforce
  have ok: "get_file_like example_env example_posix 3 = Ok 3"
    by (simp add: get_file_like_def example_env_def example_posix_def fn_table_def as_usize_def AX_FILE_LIMIT_def)
  have "fd_map example_env example_posix 4 = None"
    by (simp add: example_env_def example_posix_def fn_table_def)
  then have "\<not> (\<forall>i < AX_FILE_LIMIT. fd_map example_env example_posix i \<noteq> None)" by (metis fd_ids_4_5(1))
  with dup_shares [OF example_env_table r] ok have "r \<noteq> Err EBADF" "r \<noteq> Err EMFILE" by simp_all
  from example_env_table r obtain fd' where "r = Ok fd'"
    by (cases rule: sys_dup_cases) (use \<open>r \<noteq> Err EBADF\<close> \<open>r \<noteq> Err EMFILE\<close> in blast)+
  with dup_shares [OF example_env_table r] ok r example_env_table show ?thesis
    by (auto simp: get_file_like_def)
qed

end
