(* ===== verification/Task_Kernel.thy ===== *)
theory Task_Kernel
  imports Prelude "HOL-Library.Multiset"
begin

text \<open>
  Tasks, the run queue, wait queues and timers: \<^verbatim>\<open>axtask/src\<close> (\<^verbatim>\<open>task.rs\<close>, \<^verbatim>\<open>run_queue.rs\<close>,
  \<^verbatim>\<open>wait_queue.rs\<close>, \<^verbatim>\<open>timers.rs\<close>, \<^verbatim>\<open>api.rs\<close>) on one processor, with the features \<^verbatim>\<open>multitask\<close> and \<^verbatim>\<open>irq\<close> and
  the default cooperative scheduler (no \<^verbatim>\<open>preempt\<close>). A task is named by a number (its \<^verbatim>\<open>Arc\<close>); an
  operation under the lock of the run queue is one function on the kernel state. The code after a
  context switch runs when the task is scheduled again; where the operations below switch in the
  middle, the part before the switch and the part after it are separate definitions.

  Parameters: the scheduler and the timer list (crates \<^verbatim>\<open>scheduler\<close> and \<^verbatim>\<open>timer_list\<close>), with what they
  document (\<open>documented_kernel\<close>). Reference counts are not numbers of the model: the places that hold a
  task are (\<open>still_held\<close>). Stacks, contexts and thread-local storage are not modelled.
\<close>

section \<open>State\<close>

datatype task_state = Running | Ready | Blocked | Exited

record task =
  tk_id :: u64
  tk_is_idle :: bool
  tk_is_init :: bool
  tk_state :: task_state
  tk_in_wait_queue :: bool
  tk_in_timer_list :: bool
  tk_exit_code :: "32 word"

text \<open>A wait queue: the one of the task that frees exited tasks, the one of a task's joiners, or any other.\<close>

datatype wq = WaitForExit | ExitOf nat | Other nat

record ('q, 't) kernel_ops =
  sc_add_task :: "'q \<Rightarrow> nat \<Rightarrow> 'q"
  sc_put_prev_task :: "'q \<Rightarrow> nat \<Rightarrow> bool \<Rightarrow> 'q"
  sc_pick_next_task :: "'q \<Rightarrow> nat option \<times> 'q"
  sc_task_tick :: "'q \<Rightarrow> nat \<Rightarrow> bool \<times> 'q"
  sc_set_priority :: "'q \<Rightarrow> nat \<Rightarrow> int \<Rightarrow> bool \<times> 'q"
  tl_set :: "'t \<Rightarrow> nat \<Rightarrow> nat \<Rightarrow> 't"
  tl_cancel :: "'t \<Rightarrow> (nat \<Rightarrow> bool) \<Rightarrow> 't"
  tl_expire_one :: "'t \<Rightarrow> nat \<Rightarrow> (nat \<times> nat) option \<times> 't"

record ('q, 't) kernel =
  k_task :: "nat \<Rightarrow> task option"
  k_current :: nat
  k_idle :: nat
  k_sched :: 'q
  k_wq :: "wq \<Rightarrow> nat list"
  k_timers :: 't
  k_exited :: "nat list"
  k_next :: nat
  k_id_counter :: u64
  k_now :: nat

definition the_task :: "('q, 't) kernel \<Rightarrow> nat \<Rightarrow> task" where
  "the_task k t = (case k_task k t of Some x \<Rightarrow> x
     | None \<Rightarrow> \<lparr>tk_id = 0, tk_is_idle = False, tk_is_init = False, tk_state = Exited, tk_in_wait_queue = False,
         tk_in_timer_list = False, tk_exit_code = 0\<rparr>)"

definition set_task :: "('q, 't) kernel \<Rightarrow> nat \<Rightarrow> (task \<Rightarrow> task) \<Rightarrow> ('q, 't) kernel" where
  "set_task k t f = k\<lparr>k_task := (k_task k)(t := map_option f (k_task k t))\<rparr>"

abbreviation state_of :: "('q, 't) kernel \<Rightarrow> nat \<Rightarrow> task_state" where
  "state_of k t \<equiv> tk_state (the_task k t)"

abbreviation set_state :: "('q, 't) kernel \<Rightarrow> nat \<Rightarrow> task_state \<Rightarrow> ('q, 't) kernel" where
  "set_state k t s \<equiv> set_task k t (\<lambda>x. x\<lparr>tk_state := s\<rparr>)"

abbreviation set_in_wait_queue :: "('q, 't) kernel \<Rightarrow> nat \<Rightarrow> bool \<Rightarrow> ('q, 't) kernel" where
  "set_in_wait_queue k t b \<equiv> set_task k t (\<lambda>x. x\<lparr>tk_in_wait_queue := b\<rparr>)"

abbreviation set_in_timer_list :: "('q, 't) kernel \<Rightarrow> nat \<Rightarrow> bool \<Rightarrow> ('q, 't) kernel" where
  "set_in_timer_list k t b \<equiv> set_task k t (\<lambda>x. x\<lparr>tk_in_timer_list := b\<rparr>)"

definition is_running :: "('q, 't) kernel \<Rightarrow> nat \<Rightarrow> bool" where "is_running k t = (state_of k t = Running)"
definition is_ready :: "('q, 't) kernel \<Rightarrow> nat \<Rightarrow> bool" where "is_ready k t = (state_of k t = Ready)"
definition is_blocked :: "('q, 't) kernel \<Rightarrow> nat \<Rightarrow> bool" where "is_blocked k t = (state_of k t = Blocked)"

section \<open>Tasks\<close>

text \<open>A new task; \<^verbatim>\<open>TaskId::new\<close> counts up from 1.\<close>

definition new_common :: "u64 \<Rightarrow> task" where
  "new_common tid = \<lparr>tk_id = tid, tk_is_idle = False, tk_is_init = False, tk_state = Ready, tk_in_wait_queue = False,
     tk_in_timer_list = False, tk_exit_code = 0\<rparr>"

definition task_new :: "u64 \<Rightarrow> string \<Rightarrow> task" where
  "task_new tid name = (new_common tid)\<lparr>tk_is_idle := (name = ''idle'')\<rparr>"

definition task_new_init :: "u64 \<Rightarrow> string \<Rightarrow> task" where
  "task_new_init tid name = (new_common tid)\<lparr>tk_is_init := True, tk_is_idle := (name = ''idle'')\<rparr>"

definition into_arc :: "('q, 't) kernel \<Rightarrow> (u64 \<Rightarrow> task) \<Rightarrow> nat \<times> ('q, 't) kernel" where
  "into_arc k mk = (k_next k, k\<lparr>k_task := (k_task k)(k_next k \<mapsto> mk (k_id_counter k)), k_next := k_next k + 1,
     k_id_counter := k_id_counter k + 1\<rparr>)"

section \<open>Run queue\<close>

definition rq_add_task :: "('q, 't) kernel_ops \<Rightarrow> ('q, 't) kernel \<Rightarrow> nat \<Rightarrow> (unit, unit) outcome \<times> ('q, 't) kernel" where
  "rq_add_task K k t =
    (if \<not> is_ready k t then (Panic, k) else (Ok (), k\<lparr>k_sched := sc_add_task K (k_sched k) t\<rparr>))"

text \<open>
  Switching. Its assertions count references: that the task switched from has a holder besides the
  processor's pointer to the current task (\<open>still_held\<close>, proved of every switch), and that the task
  switched to, which the caller holds, has one.
\<close>

definition switch_to :: "('q, 't) kernel \<Rightarrow> nat \<Rightarrow> ('q, 't) kernel" where
  "switch_to k next_task = (set_state k next_task Running)\<lparr>k_current := next_task\<rparr>"

text \<open>Rescheduling first puts the current task back when it was running, then picks.\<close>

definition put_back :: "('q, 't) kernel_ops \<Rightarrow> ('q, 't) kernel \<Rightarrow> bool \<Rightarrow> ('q, 't) kernel" where
  "put_back K k preempt =
    (let prev = k_current k in
     if is_running k prev
     then (let k' = set_state k prev Ready in
           if tk_is_idle (the_task k prev) then k'
           else k'\<lparr>k_sched := sc_put_prev_task K (k_sched k') prev preempt\<rparr>)
     else k)"

definition resched :: "('q, 't) kernel_ops \<Rightarrow> ('q, 't) kernel \<Rightarrow> bool \<Rightarrow> ('q, 't) kernel" where
  "resched K k preempt =
    (let k1 = put_back K k preempt; (nx, q) = sc_pick_next_task K (k_sched k1) in
     switch_to (k1\<lparr>k_sched := q\<rparr>) (case nx of Some t \<Rightarrow> t | None \<Rightarrow> k_idle k1))"

definition scheduler_timer_tick :: "('q, 't) kernel_ops \<Rightarrow> ('q, 't) kernel \<Rightarrow> ('q, 't) kernel" where
  "scheduler_timer_tick K k =
    (if \<not> tk_is_idle (the_task k (k_current k))
     then k\<lparr>k_sched := snd (sc_task_tick K (k_sched k) (k_current k))\<rparr> else k)"

definition yield_current :: "('q, 't) kernel_ops \<Rightarrow> ('q, 't) kernel \<Rightarrow> (unit, unit) outcome \<times> ('q, 't) kernel" where
  "yield_current K k = (if \<not> is_running k (k_current k) then (Panic, k) else (Ok (), resched K k False))"

definition set_current_priority :: "('q, 't) kernel_ops \<Rightarrow> ('q, 't) kernel \<Rightarrow> int \<Rightarrow> bool \<times> ('q, 't) kernel" where
  "set_current_priority K k prio =
    (case sc_set_priority K (k_sched k) (k_current k) prio of (b, q) \<Rightarrow> (b, k\<lparr>k_sched := q\<rparr>))"

definition unblock_task :: "('q, 't) kernel_ops \<Rightarrow> ('q, 't) kernel \<Rightarrow> nat \<Rightarrow> ('q, 't) kernel" where
  "unblock_task K k t =
    (if is_blocked k t
     then (let k' = set_state k t Ready in k'\<lparr>k_sched := sc_add_task K (k_sched k') t\<rparr>)
     else k)"

definition block_current ::
    "('q, 't) kernel_ops \<Rightarrow> ('q, 't) kernel \<Rightarrow> (('q, 't) kernel \<Rightarrow> nat \<Rightarrow> ('q, 't) kernel)
     \<Rightarrow> (unit, unit) outcome \<times> ('q, 't) kernel" where
  "block_current K k wait_queue_push =
    (let curr = k_current k in
     if \<not> is_running k curr then (Panic, k)
     else if tk_is_idle (the_task k curr) then (Panic, k)
     else (Ok (), resched K (wait_queue_push (set_state k curr Blocked) curr) False))"

section \<open>Timers\<close>

definition set_alarm_wakeup :: "('q, 't) kernel_ops \<Rightarrow> ('q, 't) kernel \<Rightarrow> nat \<Rightarrow> nat \<Rightarrow> ('q, 't) kernel" where
  "set_alarm_wakeup K k deadline t =
    (set_in_timer_list k t True)\<lparr>k_timers := tl_set K (k_timers k) deadline t\<rparr>"

definition cancel_alarm :: "('q, 't) kernel_ops \<Rightarrow> ('q, 't) kernel \<Rightarrow> nat \<Rightarrow> ('q, 't) kernel" where
  "cancel_alarm K k t = (set_in_timer_list k t False)\<lparr>k_timers := tl_cancel K (k_timers k) (\<lambda>t'. t' = t)\<rparr>"

definition wakeup_callback :: "('q, 't) kernel_ops \<Rightarrow> ('q, 't) kernel \<Rightarrow> nat \<Rightarrow> ('q, 't) kernel" where
  "wakeup_callback K k t = unblock_task K (set_in_timer_list k t False) t"

text \<open>One round of the loop of \<^verbatim>\<open>check_events\<close>, at the time the clock shows; \<open>None\<close> ends the loop.\<close>

definition check_event :: "('q, 't) kernel_ops \<Rightarrow> ('q, 't) kernel \<Rightarrow> ('q, 't) kernel option" where
  "check_event K k =
    (case tl_expire_one K (k_timers k) (k_now k) of
       (Some (_, t), tms) \<Rightarrow> Some (wakeup_callback K (k\<lparr>k_timers := tms\<rparr>) t)
     | (None, tms) \<Rightarrow> None)"

definition rq_sleep_until ::
    "('q, 't) kernel_ops \<Rightarrow> ('q, 't) kernel \<Rightarrow> nat \<Rightarrow> (unit, unit) outcome \<times> ('q, 't) kernel" where
  "rq_sleep_until K k deadline =
    (let curr = k_current k in
     if \<not> is_running k curr then (Panic, k)
     else if tk_is_idle (the_task k curr) then (Panic, k)
     else if k_now k < deadline
       then (Ok (), resched K (set_state (set_alarm_wakeup K k deadline curr) curr Blocked) False)
     else (Ok (), k))"

section \<open>Wait queues\<close>

definition push_waiter :: "wq \<Rightarrow> ('q, 't) kernel \<Rightarrow> nat \<Rightarrow> ('q, 't) kernel" where
  "push_waiter w k t = (set_in_wait_queue k t True)\<lparr>k_wq := (k_wq k)(w := k_wq k w @ [t])\<rparr>"

definition cancel_events :: "('q, 't) kernel_ops \<Rightarrow> ('q, 't) kernel \<Rightarrow> wq \<Rightarrow> ('q, 't) kernel" where
  "cancel_events K k w =
    (let curr = k_current k;
         k1 = (if tk_in_wait_queue (the_task k curr)
           then set_in_wait_queue (k\<lparr>k_wq := (k_wq k)(w := filter (\<lambda>t. t \<noteq> curr) (k_wq k w))\<rparr>) curr False else k) in
     if tk_in_timer_list (the_task k1 curr) then cancel_alarm K k1 curr else k1)"

text \<open>The blocking half of \<open>wait\<close>; the other half is \<open>cancel_events\<close>.\<close>

definition wait_block :: "('q, 't) kernel_ops \<Rightarrow> ('q, 't) kernel \<Rightarrow> wq \<Rightarrow> (unit, unit) outcome \<times> ('q, 't) kernel" where
  "wait_block K k w = block_current K k (push_waiter w)"

text \<open>One round of the loop of \<open>wait_until\<close>: whether the loop ends, or the current task blocks.\<close>

definition wait_until_round ::
    "('q, 't) kernel_ops \<Rightarrow> ('q, 't) kernel \<Rightarrow> wq \<Rightarrow> bool \<Rightarrow> (unit, bool) outcome \<times> ('q, 't) kernel" where
  "wait_until_round K k w condition =
    (if condition then (Ok True, cancel_events K k w)
     else (case wait_block K k w of (Ok _, k') \<Rightarrow> (Ok False, k') | (Err e, k') \<Rightarrow> (Err e, k') | (Panic, k') \<Rightarrow> (Panic, k')))"

text \<open>
  \<open>wait_timeout\<close>: it sets the alarm, then blocks, and when it runs again returns whether it is still
  queued. \<open>wait_timeout_until\<close> sets the alarm likewise and then runs its rounds.
\<close>

definition wait_timeout_start :: "('q, 't) kernel_ops \<Rightarrow> ('q, 't) kernel \<Rightarrow> nat \<Rightarrow> ('q, 't) kernel" where
  "wait_timeout_start K k dur = set_alarm_wakeup K k (k_now k + dur) (k_current k)"

definition wait_timeout_end :: "('q, 't) kernel_ops \<Rightarrow> ('q, 't) kernel \<Rightarrow> wq \<Rightarrow> bool \<times> ('q, 't) kernel" where
  "wait_timeout_end K k w = (tk_in_wait_queue (the_task k (k_current k)), cancel_events K k w)"

text \<open>
  The test of the clock, outside the lock, and the body of the loop, under it; \<open>Some\<close> ends the loop
  with that value of \<open>timeout\<close>.
\<close>

definition wait_timeout_until_test ::
    "('q, 't) kernel_ops \<Rightarrow> ('q, 't) kernel \<Rightarrow> wq \<Rightarrow> nat \<Rightarrow> bool option \<times> ('q, 't) kernel" where
  "wait_timeout_until_test K k w deadline = (if k_now k < deadline then (None, k) else (Some True, cancel_events K k w))"

definition wait_timeout_until_round ::
    "('q, 't) kernel_ops \<Rightarrow> ('q, 't) kernel \<Rightarrow> wq \<Rightarrow> bool \<Rightarrow> (unit, bool option) outcome \<times> ('q, 't) kernel" where
  "wait_timeout_until_round K k w condition =
    (if condition then (Ok (Some False), cancel_events K k w)
     else (case wait_block K k w of (Ok _, k') \<Rightarrow> (Ok None, k') | (Err e, k') \<Rightarrow> (Err e, k') | (Panic, k') \<Rightarrow> (Panic, k')))"

definition notify_one_locked :: "('q, 't) kernel_ops \<Rightarrow> ('q, 't) kernel \<Rightarrow> wq \<Rightarrow> bool \<times> ('q, 't) kernel" where
  "notify_one_locked K k w =
    (case k_wq k w of
       t # rest \<Rightarrow> (True, unblock_task K (set_in_wait_queue (k\<lparr>k_wq := (k_wq k)(w := rest)\<rparr>) t False) t)
     | [] \<Rightarrow> (False, k))"

definition notify_one :: "('q, 't) kernel_ops \<Rightarrow> ('q, 't) kernel \<Rightarrow> wq \<Rightarrow> bool \<times> ('q, 't) kernel" where
  "notify_one K k w = (if k_wq k w \<noteq> [] then notify_one_locked K k w else (False, k))"

lemma unblock_task_wq [simp]: "k_wq (unblock_task K k t) = k_wq k"
  by (simp add: unblock_task_def set_task_def Let_def)

function notify_all_locked :: "('q, 't) kernel_ops \<Rightarrow> ('q, 't) kernel \<Rightarrow> wq \<Rightarrow> ('q, 't) kernel" where
  "notify_all_locked K k w =
    (case k_wq k w of
       t # rest \<Rightarrow> notify_all_locked K (unblock_task K (set_in_wait_queue (k\<lparr>k_wq := (k_wq k)(w := rest)\<rparr>) t False) t) w
     | [] \<Rightarrow> k)"
  by pat_completeness auto

termination
  by (relation "measure (\<lambda>(K, k, w). length (k_wq k w))") (auto simp: set_task_def)

declare notify_all_locked.simps [simp del]

text \<open>
  \<open>notify_all\<close> runs the same rounds, giving up the lock in between; with an interrupt between two rounds
  it is a sequence of \<open>notify_one\<close>.
\<close>

definition notify_all :: "('q, 't) kernel_ops \<Rightarrow> ('q, 't) kernel \<Rightarrow> wq \<Rightarrow> ('q, 't) kernel" where
  "notify_all K k w = notify_all_locked K k w"

definition notify_task :: "('q, 't) kernel_ops \<Rightarrow> ('q, 't) kernel \<Rightarrow> wq \<Rightarrow> nat \<Rightarrow> bool \<times> ('q, 't) kernel" where
  "notify_task K k w t =
    (if t \<in> set (k_wq k w)
     then (True, unblock_task K (set_in_wait_queue (k\<lparr>k_wq := (k_wq k)(w := remove1 t (k_wq k w))\<rparr>) t False) t)
     else (False, k))"

section \<open>Exit, spawn, start\<close>

definition notify_exit :: "('q, 't) kernel_ops \<Rightarrow> ('q, 't) kernel \<Rightarrow> nat \<Rightarrow> 32 word \<Rightarrow> ('q, 't) kernel" where
  "notify_exit K k t exit_code =
    notify_all_locked K (set_task k t (\<lambda>x. x\<lparr>tk_exit_code := exit_code\<rparr>)) (ExitOf t)"

text \<open>Exiting; \<open>Ok False\<close> is the end of the system, when the init task exits.\<close>

definition exit_current ::
    "('q, 't) kernel_ops \<Rightarrow> ('q, 't) kernel \<Rightarrow> 32 word \<Rightarrow> (unit, bool) outcome \<times> ('q, 't) kernel" where
  "exit_current K k exit_code =
    (let curr = k_current k in
     if \<not> is_running k curr then (Panic, k)
     else if tk_is_idle (the_task k curr) then (Panic, k)
     else if tk_is_init (the_task k curr) then (Ok False, k\<lparr>k_exited := []\<rparr>)
     else (let k1 = notify_exit K (set_state k curr Exited) curr exit_code;
               k2 = k1\<lparr>k_exited := k_exited k1 @ [curr]\<rparr>;
               k3 = snd (notify_one_locked K k2 WaitForExit) in
           (Ok True, resched K k3 False)))"

definition spawn_task ::
    "('q, 't) kernel_ops \<Rightarrow> ('q, 't) kernel \<Rightarrow> string \<Rightarrow> (unit, nat) outcome \<times> ('q, 't) kernel" where
  "spawn_task K k name =
    (case into_arc k (\<lambda>tid. task_new tid name) of
       (t, k1) \<Rightarrow> (case rq_add_task K k1 t of (Ok _, k2) \<Rightarrow> (Ok t, k2) | (Err e, k2) \<Rightarrow> (Err e, k2) | (Panic, k2) \<Rightarrow> (Panic, k2)))"

text \<open>Joining: the condition of the wait, and the value when it holds.\<close>

definition join_round :: "('q, 't) kernel_ops \<Rightarrow> ('q, 't) kernel \<Rightarrow> nat \<Rightarrow> (unit, bool) outcome \<times> ('q, 't) kernel" where
  "join_round K k t = wait_until_round K k (ExitOf t) (state_of k t = Exited)"

definition join_value :: "('q, 't) kernel \<Rightarrow> nat \<Rightarrow> 32 word option" where
  "join_value k t = Some (tk_exit_code (the_task k t))"

text \<open>\<^verbatim>\<open>run_queue::init\<close>: the idle task, the running main task, and the task that frees exited ones.\<close>

definition init_scheduler :: "('q, 't) kernel_ops \<Rightarrow> 'q \<Rightarrow> 't \<Rightarrow> ('q, 't) kernel" where
  "init_scheduler K q tms =
    (let k0 = \<lparr>k_task = Map.empty, k_current = 0, k_idle = 0, k_sched = q, k_wq = (\<lambda>_. []), k_timers = tms,
               k_exited = [], k_next = 0, k_id_counter = 1, k_now = 0\<rparr>;
         (idle, k1) = into_arc k0 (\<lambda>tid. task_new tid ''idle'');
         (main, k2) = into_arc (k1\<lparr>k_idle := idle\<rparr>) (\<lambda>tid. task_new_init tid ''main'');
         k3 = (set_state k2 main Running)\<lparr>k_current := main\<rparr>;
         (gc, k4) = into_arc k3 (\<lambda>tid. task_new tid ''gc'') in
     k4\<lparr>k_sched := sc_add_task K (k_sched k4) gc\<rparr>)"

end
