(* ===== verification/Task_Sched.thy ===== *)
theory Task_Sched
  imports Task_Kernel
begin

text \<open>
  What the task kernel takes from its scheduler and its timer list, and the scheduling part of its
  invariant: one task runs, the ready tasks are exactly those the scheduler holds, each once, and the
  idle task is never held by it. Rescheduling, unblocking and giving up the processor keep it.
\<close>

section \<open>Parameters\<close>

text \<open>
  What the scheduler and the timer list document, with the tasks waiting for the processor as a
  multiset \<open>rd q\<close>, and the pending alarms as a multiset \<open>tm l\<close> of deadlines and tasks.
\<close>

definition documented_kernel ::
    "('q, 't) kernel_ops \<Rightarrow> ('q \<Rightarrow> nat multiset) \<Rightarrow> ('t \<Rightarrow> (nat \<times> nat) multiset) \<Rightarrow> bool" where
  "documented_kernel K rd tm \<longleftrightarrow>
    (\<forall>q t. rd (sc_add_task K q t) = add_mset t (rd q)) \<and>
    (\<forall>q t p. rd (sc_put_prev_task K q t p) = add_mset t (rd q)) \<and>
    (\<forall>q. case sc_pick_next_task K q of
        (None, q') \<Rightarrow> rd q = {#} \<and> rd q' = {#} | (Some t, q') \<Rightarrow> rd q = add_mset t (rd q')) \<and>
    (\<forall>q t. rd (snd (sc_task_tick K q t)) = rd q) \<and>
    (\<forall>q t p. rd (snd (sc_set_priority K q t p)) = rd q) \<and>
    (\<forall>l d t. tm (tl_set K l d t) = add_mset (d, t) (tm l)) \<and>
    (\<forall>l P. tm (tl_cancel K l P) = filter_mset (\<lambda>e. \<not> P (snd e)) (tm l)) \<and>
    (\<forall>l now. case tl_expire_one K l now of
        (None, l') \<Rightarrow> \<forall>e \<in># tm l. now < fst e | (Some e, l') \<Rightarrow> fst e \<le> now \<and> tm l = add_mset e (tm l'))"

text \<open>
  The places that hold a reference to a task besides the processor's pointer to the current one: the
  idle task's own, the scheduler, the wait queues, the timer list and the list of exited tasks. The
  references user code holds to join a task come on top. \<^verbatim>\<open>switch_to\<close> asserts of the task it leaves that
  one exists.
\<close>

definition still_held ::
    "('q \<Rightarrow> nat multiset) \<Rightarrow> ('t \<Rightarrow> (nat \<times> nat) multiset) \<Rightarrow> ('q, 't) kernel \<Rightarrow> nat \<Rightarrow> bool" where
  "still_held rd tm k t \<longleftrightarrow>
    t = k_idle k \<or> t \<in># rd (k_sched k) \<or> (\<exists>w. t \<in> set (k_wq k w)) \<or> (\<exists>d. (d, t) \<in># tm (k_timers k)) \<or>
    t \<in> set (k_exited k)"

lemma documented_kernelD:
  assumes "documented_kernel K rd tm"
  shows "rd (sc_add_task K q t) = add_mset t (rd q)" "rd (sc_put_prev_task K q t p) = add_mset t (rd q)"
    "rd (snd (sc_task_tick K q t)) = rd q" "rd (snd (sc_set_priority K q t i)) = rd q"
    "tm (tl_set K l d t) = add_mset (d, t) (tm l)" "tm (tl_cancel K l P) = filter_mset (\<lambda>e. \<not> P (snd e)) (tm l)"
  using assms unfolding documented_kernel_def by blast+

lemma documented_pick:
  assumes "documented_kernel K rd tm"
  obtains q' where "sc_pick_next_task K q = (None, q')" "rd q = {#}" "rd q' = {#}"
  | t q' where "sc_pick_next_task K q = (Some t, q')" "rd q = add_mset t (rd q')"
proof -
  have law: "case sc_pick_next_task K q of
        (None, q') \<Rightarrow> rd q = {#} \<and> rd q' = {#} | (Some t, q') \<Rightarrow> rd q = add_mset t (rd q')"
    using assms [unfolded documented_kernel_def] by (elim conjE allE) assumption
  obtain r q' where e: "sc_pick_next_task K q = (r, q')" by fastforce
  show thesis
  proof (cases r)
    case None
    then show thesis using law e by (auto intro: that(1) [of q'])
  next
    case (Some t)
    then show thesis using law e by (auto intro: that(2) [of t q'])
  qed
qed

lemma documented_expire:
  assumes "documented_kernel K rd tm" and "tl_expire_one K l now = (Some e, l')"
  shows "fst e \<le> now" "tm l = add_mset e (tm l')"
proof -
  have "case tl_expire_one K l now of
        (None, l') \<Rightarrow> \<forall>e \<in># tm l. now < fst e | (Some e, l') \<Rightarrow> fst e \<le> now \<and> tm l = add_mset e (tm l')"
    using assms(1) [unfolded documented_kernel_def] by (elim conjE allE) assumption
  then show "fst e \<le> now" "tm l = add_mset e (tm l')" using assms(2) by simp_all
qed

section \<open>Scheduling\<close>

definition alive :: "('q, 't) kernel \<Rightarrow> nat \<Rightarrow> bool" where
  "alive k t \<longleftrightarrow> k_task k t \<noteq> None"

lemma the_task_set_task:
  "the_task (set_task k t f) u = (if u = t \<and> alive k t then f (the_task k t) else the_task k u)"
  by (auto simp: the_task_def set_task_def alive_def split: option.splits)

lemma set_task_sel [simp]:
  "alive (set_task k t f) u \<longleftrightarrow> alive k u" "k_current (set_task k t f) = k_current k" "k_idle (set_task k t f) = k_idle k"
  "k_sched (set_task k t f) = k_sched k" "k_wq (set_task k t f) = k_wq k" "k_timers (set_task k t f) = k_timers k"
  "k_next (set_task k t f) = k_next k" "k_now (set_task k t f) = k_now k" "k_exited (set_task k t f) = k_exited k"
  "k_id_counter (set_task k t f) = k_id_counter k"
  by (auto simp: set_task_def alive_def)

lemma alive_upd [simp]:
  "alive (k\<lparr>k_current := c\<rparr>) t = alive k t" "alive (k\<lparr>k_sched := q\<rparr>) t = alive k t"
  "alive (k\<lparr>k_wq := w\<rparr>) t = alive k t" "alive (k\<lparr>k_timers := l\<rparr>) t = alive k t"
  "alive (k\<lparr>k_exited := x\<rparr>) t = alive k t" "alive (k\<lparr>k_now := n\<rparr>) t = alive k t"
  by (simp_all add: alive_def)

lemma the_task_upd [simp]:
  "the_task (k\<lparr>k_current := c\<rparr>) t = the_task k t" "the_task (k\<lparr>k_sched := q\<rparr>) t = the_task k t"
  "the_task (k\<lparr>k_wq := w\<rparr>) t = the_task k t" "the_task (k\<lparr>k_timers := l\<rparr>) t = the_task k t"
  "the_task (k\<lparr>k_exited := x\<rparr>) t = the_task k t" "the_task (k\<lparr>k_now := n\<rparr>) t = the_task k t"
  by (simp_all add: the_task_def)

lemma not_alive_Exited: "\<not> alive k t \<Longrightarrow> state_of k t = Exited"
  by (simp add: the_task_def alive_def)

lemma flags_alive: "tk_in_wait_queue (the_task k t) \<Longrightarrow> alive k t" "tk_in_timer_list (the_task k t) \<Longrightarrow> alive k t"
  "tk_is_idle (the_task k t) \<Longrightarrow> alive k t"
  by (auto simp: the_task_def alive_def split: option.splits)

text \<open>What holds of the scheduling state while the current task may already have given up the processor.\<close>

definition sched_pre :: "('q \<Rightarrow> nat multiset) \<Rightarrow> ('q, 't) kernel \<Rightarrow> bool" where
  "sched_pre rd k \<longleftrightarrow>
    alive k (k_current k) \<and> (\<forall>t. state_of k t = Running \<longrightarrow> t = k_current k) \<and>
    alive k (k_idle k) \<and> (\<forall>t. tk_is_idle (the_task k t) \<longleftrightarrow> t = k_idle k) \<and>
    (state_of k (k_idle k) = Ready \<or> state_of k (k_idle k) = Running) \<and>
    (\<forall>t. count (rd (k_sched k)) t = of_bool (state_of k t = Ready \<and> t \<noteq> k_idle k)) \<and>
    (\<forall>t \<ge> k_next k. \<not> alive k t)"

definition sched_inv :: "('q \<Rightarrow> nat multiset) \<Rightarrow> ('q, 't) kernel \<Rightarrow> bool" where
  "sched_inv rd k \<longleftrightarrow> sched_pre rd k \<and> state_of k (k_current k) = Running"

lemma sched_preD:
  assumes "sched_pre rd k"
  shows "alive k (k_current k)" "t \<noteq> k_current k \<Longrightarrow> state_of k t \<noteq> Running" "alive k (k_idle k)"
    "tk_is_idle (the_task k t) \<longleftrightarrow> t = k_idle k"
    "state_of k (k_idle k) \<noteq> Running \<Longrightarrow> state_of k (k_idle k) = Ready"
    "count (rd (k_sched k)) t = of_bool (state_of k t = Ready \<and> t \<noteq> k_idle k)"
    "k_next k \<le> t \<Longrightarrow> \<not> alive k t"
  using assms unfolding sched_pre_def by blast+

lemma sched_preI:
  assumes "alive k (k_current k)" "\<And>t. state_of k t = Running \<Longrightarrow> t = k_current k" "alive k (k_idle k)"
    "\<And>t. tk_is_idle (the_task k t) \<longleftrightarrow> t = k_idle k"
    "state_of k (k_idle k) \<noteq> Running \<Longrightarrow> state_of k (k_idle k) = Ready"
    "\<And>t. count (rd (k_sched k)) t = of_bool (state_of k t = Ready \<and> t \<noteq> k_idle k)"
    "\<And>t. k_next k \<le> t \<Longrightarrow> \<not> alive k t"
  shows "sched_pre rd k"
  using assms unfolding sched_pre_def by blast

text \<open>What rescheduling leaves alone: everything but who runs and who is ready.\<close>

definition same_waiting :: "('q, 't) kernel \<Rightarrow> ('q, 't) kernel \<Rightarrow> bool" where
  "same_waiting k k' \<longleftrightarrow> k_wq k' = k_wq k \<and> k_timers k' = k_timers k \<and> k_now k' = k_now k \<and> k_next k' = k_next k \<and>
    k_idle k' = k_idle k \<and> k_exited k' = k_exited k \<and> k_id_counter k' = k_id_counter k \<and>
    (\<forall>t. alive k' t \<longleftrightarrow> alive k t) \<and>
    (\<forall>t. \<exists>s. the_task k' t = (the_task k t)\<lparr>tk_state := s\<rparr> \<and> (s = Blocked \<longleftrightarrow> state_of k t = Blocked) \<and>
       (s = Exited \<longleftrightarrow> state_of k t = Exited))"

lemma same_waitingD:
  assumes "same_waiting k k'"
  shows "state_of k' t = Blocked \<longleftrightarrow> state_of k t = Blocked" "state_of k' t = Exited \<longleftrightarrow> state_of k t = Exited"
    "tk_in_wait_queue (the_task k' t) = tk_in_wait_queue (the_task k t)"
    "tk_in_timer_list (the_task k' t) = tk_in_timer_list (the_task k t)"
    "tk_id (the_task k' t) = tk_id (the_task k t)" "tk_exit_code (the_task k' t) = tk_exit_code (the_task k t)"
    "tk_is_idle (the_task k' t) = tk_is_idle (the_task k t)" "tk_is_init (the_task k' t) = tk_is_init (the_task k t)"
proof -
  obtain s where "the_task k' t = (the_task k t)\<lparr>tk_state := s\<rparr>" "s = Blocked \<longleftrightarrow> state_of k t = Blocked"
    "s = Exited \<longleftrightarrow> state_of k t = Exited" using assms unfolding same_waiting_def by blast
  then show "state_of k' t = Blocked \<longleftrightarrow> state_of k t = Blocked" "state_of k' t = Exited \<longleftrightarrow> state_of k t = Exited"
    "tk_in_wait_queue (the_task k' t) = tk_in_wait_queue (the_task k t)"
    "tk_in_timer_list (the_task k' t) = tk_in_timer_list (the_task k t)"
    "tk_id (the_task k' t) = tk_id (the_task k t)" "tk_exit_code (the_task k' t) = tk_exit_code (the_task k t)"
    "tk_is_idle (the_task k' t) = tk_is_idle (the_task k t)" "tk_is_init (the_task k' t) = tk_is_init (the_task k t)"
    by simp_all
qed

text \<open>Rescheduling: the current task is some task that was ready, or the idle one, and everything fits again.\<close>

lemma the_task_set_state:
  "alive k t \<Longrightarrow> the_task (set_task k t f) u = (if u = t then f (the_task k u) else the_task k u)"
  by (simp add: the_task_set_task)

lemma put_back_task:
  assumes "alive k (k_current k)"
  shows "the_task (put_back K k p) t =
    (if t = k_current k \<and> state_of k (k_current k) = Running then (the_task k t)\<lparr>tk_state := Ready\<rparr> else the_task k t)"
  using assms
  apply (simp only: put_back_def Let_def is_running_def split: if_split)
  apply (intro conjI impI)
    apply (simp_all only: the_task_upd the_task_set_state)
    apply auto
  done

lemma put_back_sel [simp]:
  "alive (put_back K k p) t = alive k t" "k_wq (put_back K k p) = k_wq k" "k_timers (put_back K k p) = k_timers k"
  "k_now (put_back K k p) = k_now k" "k_next (put_back K k p) = k_next k" "k_idle (put_back K k p) = k_idle k"
  "k_exited (put_back K k p) = k_exited k" "k_id_counter (put_back K k p) = k_id_counter k"
  by (simp_all add: put_back_def Let_def)

lemma put_back_sched:
  "k_sched (put_back K k p) = (if state_of k (k_current k) = Running \<and> \<not> tk_is_idle (the_task k (k_current k))
     then sc_put_prev_task K (k_sched k) (k_current k) p else k_sched k)"
  by (simp add: put_back_def Let_def is_running_def)

lemma resched_inv:
  assumes K: "documented_kernel K rd tm" and pre: "sched_pre rd k"
  shows "sched_inv rd (resched K k p)" and "same_waiting k (resched K k p)"
proof -
  let ?prev = "k_current k"
  define k1 where "k1 = put_back K k p"
  note d = sched_preD [OF pre]
  have alive1: "alive k1 t \<longleftrightarrow> alive k t" for t by (simp add: k1_def)
  have sel1: "k_wq k1 = k_wq k" "k_timers k1 = k_timers k" "k_now k1 = k_now k" "k_next k1 = k_next k" "k_idle k1 = k_idle k"
    "k_exited k1 = k_exited k" "k_id_counter k1 = k_id_counter k"
    by (simp_all add: k1_def)
  have task1: "the_task k1 t =
      (if t = ?prev \<and> state_of k ?prev = Running then (the_task k t)\<lparr>tk_state := Ready\<rparr> else the_task k t)" for t
    unfolding k1_def by (rule put_back_task [OF d(1)])
  have no_run: "state_of k1 t \<noteq> Running" for t
    using d(2) [of t] by (cases "t = ?prev") (auto simp: task1)
  have idle1: "tk_is_idle (the_task k1 t) \<longleftrightarrow> t = k_idle k" for t
    using d(4) [of t] by (auto simp: task1)
  have idle_ready: "state_of k1 (k_idle k) = Ready"
    using d(5) d(2) [of "k_idle k"] by (cases "k_idle k = ?prev") (auto simp: task1)
  have cnt1: "count (rd (k_sched k1)) t = of_bool (state_of k1 t = Ready \<and> t \<noteq> k_idle k)" for t
    using d(6) [of t] d(4) [of ?prev]
    unfolding task1 unfolding k1_def put_back_sched
    by (cases "t = ?prev"; cases "state_of k ?prev = Running"; cases "?prev = k_idle k")
      (simp_all add: documented_kernelD(2) [OF K])
  obtain n q where pick: "resched K k p = switch_to (k1\<lparr>k_sched := q\<rparr>) n" and n: "state_of k1 n = Ready" "alive k n"
    and cnt2: "\<And>t. count (rd q) t = of_bool (state_of k1 t = Ready \<and> t \<noteq> k_idle k \<and> t \<noteq> n)"
  proof (cases rule: documented_pick [OF K, of "k_sched k1"])
    case (1 q')
    have z: "\<not> (state_of k1 t = Ready \<and> t \<noteq> k_idle k)" for t using cnt1 [of t] 1(2) by simp
    show ?thesis
    proof (rule that [of q' "k_idle k"])
      show "resched K k p = switch_to (k1\<lparr>k_sched := q'\<rparr>) (k_idle k)"
        using 1(1) by (simp add: resched_def Let_def sel1 flip: k1_def)
      show "count (rd q') t = of_bool (state_of k1 t = Ready \<and> t \<noteq> k_idle k \<and> t \<noteq> k_idle k)" for t
        using z [of t] by (simp add: 1(3))
    qed (rule idle_ready d(3))+
  next
    case (2 x q')
    have "state_of k1 x = Ready \<and> x \<noteq> k_idle k"
    proof (rule ccontr)
      assume n: "\<not> (state_of k1 x = Ready \<and> x \<noteq> k_idle k)"
      have "count (rd (k_sched k1)) x = 0" unfolding cnt1 of_bool_eq_0_iff by (rule n)
      then show False by (simp add: 2(2))
    qed
    then have x: "state_of k1 x = Ready" "x \<noteq> k_idle k" by simp_all
    show ?thesis
    proof (rule that [of q' x])
      show "resched K k p = switch_to (k1\<lparr>k_sched := q'\<rparr>) x"
        using 2(1) by (simp add: resched_def Let_def flip: k1_def)
      show "alive k x" using x(1) not_alive_Exited [of k1 x] alive1 by auto
      show "count (rd q') t = of_bool (state_of k1 t = Ready \<and> t \<noteq> k_idle k \<and> t \<noteq> x)" for t
        using cnt1 [of t] x by (cases "t = x") (simp_all add: 2(2))
    qed (rule x(1))
  qed
  have task2: "the_task (resched K k p) t = (if t = n then (the_task k1 t)\<lparr>tk_state := Running\<rparr> else the_task k1 t)" for t
    using n(2) alive1 by (simp add: pick switch_to_def the_task_set_task)
  have sel2: "k_current (resched K k p) = n" "k_idle (resched K k p) = k_idle k" "k_sched (resched K k p) = q"
      "k_next (resched K k p) = k_next k" "\<And>t. alive (resched K k p) t \<longleftrightarrow> alive k t"
    using alive1 by (simp_all add: pick switch_to_def sel1)
  show "sched_inv rd (resched K k p)"
  proof -
    have "sched_pre rd (resched K k p)"
    proof (rule sched_preI)
      fix t show "count (rd (k_sched (resched K k p))) t =
          of_bool (state_of (resched K k p) t = Ready \<and> t \<noteq> k_idle (resched K k p))"
        using cnt2 [of t] by (simp add: sel2 task2)
    next
      fix t assume "state_of (resched K k p) t = Running"
      then show "t = k_current (resched K k p)" using no_run [of t] by (simp add: sel2 task2 split: if_splits)
    next
      assume "state_of (resched K k p) (k_idle (resched K k p)) \<noteq> Running"
      then show "state_of (resched K k p) (k_idle (resched K k p)) = Ready"
        using idle_ready by (simp add: sel2 task2 split: if_splits)
    next
      fix t assume "k_next (resched K k p) \<le> t"
      then show "\<not> alive (resched K k p) t" using d(7) [of t] by (simp add: sel2)
    qed (use n(2) d(3) idle1 in \<open>simp_all add: sel2 task2\<close>)
    then show ?thesis by (simp add: sched_inv_def sel2 task2)
  qed
  have tasks: "\<exists>s. the_task (resched K k p) t = (the_task k t)\<lparr>tk_state := s\<rparr> \<and> (s = Blocked \<longleftrightarrow> state_of k t = Blocked) \<and>
       (s = Exited \<longleftrightarrow> state_of k t = Exited)" for t
  proof (intro exI conjI)
    show "the_task (resched K k p) t = (the_task k t)\<lparr>tk_state := state_of (resched K k p) t\<rparr>"
      by (simp add: task2 task1)
    have b: "state_of k1 t = Blocked \<longleftrightarrow> state_of k t = Blocked" "state_of k1 t = Exited \<longleftrightarrow> state_of k t = Exited"
      by (auto simp: task1)
    show "state_of (resched K k p) t = Blocked \<longleftrightarrow> state_of k t = Blocked"
      "state_of (resched K k p) t = Exited \<longleftrightarrow> state_of k t = Exited"
      using n(1) b by (auto simp: task2)
  qed
  show "same_waiting k (resched K k p)"
    unfolding same_waiting_def by (intro conjI allI tasks) (simp_all add: sel2(5), simp_all add: pick switch_to_def sel1)
qed

lemma sched_pre_upd [simp]:
  "sched_pre rd (k\<lparr>k_wq := w\<rparr>) = sched_pre rd k" "sched_pre rd (k\<lparr>k_timers := l\<rparr>) = sched_pre rd k"
  "sched_pre rd (k\<lparr>k_exited := x\<rparr>) = sched_pre rd k" "sched_pre rd (k\<lparr>k_now := n\<rparr>) = sched_pre rd k"
  by (simp_all add: sched_pre_def)

text \<open>Changing what scheduling does not look at.\<close>

lemma sched_pre_flags:
  assumes "\<And>x. tk_state (f x) = tk_state x" "\<And>x. tk_is_idle (f x) = tk_is_idle x"
  shows "sched_pre rd (set_task k t f) = sched_pre rd k"
proof -
  have "state_of (set_task k t f) u = state_of k u" "tk_is_idle (the_task (set_task k t f) u) = tk_is_idle (the_task k u)" for u
    using assms by (simp_all add: the_task_set_task)
  then show ?thesis by (simp add: sched_pre_def)
qed

lemma sched_inv_flags:
  assumes "\<And>x. tk_state (f x) = tk_state x" "\<And>x. tk_is_idle (f x) = tk_is_idle x"
  shows "sched_inv rd (set_task k t f) = sched_inv rd k"
proof -
  have "sched_pre rd (set_task k t f) = sched_pre rd k" by (rule sched_pre_flags [OF assms])
  then show ?thesis using assms(1) by (simp add: sched_inv_def the_task_set_task)
qed

lemma sched_inv_upd [simp]:
  "sched_inv rd (k\<lparr>k_wq := w\<rparr>) = sched_inv rd k" "sched_inv rd (k\<lparr>k_timers := l\<rparr>) = sched_inv rd k"
  "sched_inv rd (k\<lparr>k_exited := x\<rparr>) = sched_inv rd k" "sched_inv rd (k\<lparr>k_now := n\<rparr>) = sched_inv rd k"
  by (simp_all add: sched_inv_def)

lemma unblock_task_task:
  "the_task (unblock_task K k t) u = (if u = t \<and> state_of k t = Blocked then (the_task k t)\<lparr>tk_state := Ready\<rparr> else the_task k u)"
  using not_alive_Exited [of k t] by (auto simp: unblock_task_def Let_def is_blocked_def the_task_set_task)

lemma unblock_task_sel [simp]:
  "alive (unblock_task K k t) u = alive k u" "k_current (unblock_task K k t) = k_current k" "k_idle (unblock_task K k t) = k_idle k"
  "k_timers (unblock_task K k t) = k_timers k" "k_next (unblock_task K k t) = k_next k" "k_now (unblock_task K k t) = k_now k"
  "k_exited (unblock_task K k t) = k_exited k" "k_id_counter (unblock_task K k t) = k_id_counter k"
  by (simp_all add: unblock_task_def Let_def)

lemma unblock_task_pre:
  assumes K: "documented_kernel K rd tm" and pre: "sched_pre rd k"
  shows "sched_pre rd (unblock_task K k t)"
proof (rule sched_preI)
  note d = sched_preD [OF pre]
  fix u
  show "u = k_current (unblock_task K k t)" if "state_of (unblock_task K k t) u = Running"
    using d(2) [of u] that by (auto simp: unblock_task_task split: if_splits)
  show "tk_is_idle (the_task (unblock_task K k t) u) \<longleftrightarrow> u = k_idle (unblock_task K k t)"
    using d(4) [of u] by (auto simp: unblock_task_task)
  have ni: "k_idle k \<noteq> t" if "state_of k t = Blocked" using that d(5) by auto
  show "count (rd (k_sched (unblock_task K k t))) u =
      of_bool (state_of (unblock_task K k t) u = Ready \<and> u \<noteq> k_idle (unblock_task K k t))"
  proof (cases "state_of k t = Blocked")
    case True
    then have "k_sched (unblock_task K k t) = sc_add_task K (k_sched k) t"
      by (simp add: unblock_task_def is_blocked_def Let_def)
    then show ?thesis
      using True d(6) [of u] ni [OF True] by (cases "u = t") (auto simp: unblock_task_task documented_kernelD(1) [OF K])
  next
    case False
    then show ?thesis using d(6) [of u] by (simp add: unblock_task_def is_blocked_def)
  qed
  show "\<not> alive (unblock_task K k t) u" if "k_next (unblock_task K k t) \<le> u" using d(7) [of u] that by simp
  show "state_of (unblock_task K k t) (k_idle (unblock_task K k t)) = Ready"
    if "state_of (unblock_task K k t) (k_idle (unblock_task K k t)) \<noteq> Running"
    using that d(5) ni by (auto simp: unblock_task_task split: if_splits)
qed (use sched_preD [OF pre] in simp_all)

lemma unblock_task_inv:
  assumes "documented_kernel K rd tm" and "sched_inv rd k"
  shows "sched_inv rd (unblock_task K k t)"
  using unblock_task_pre [OF assms(1)] assms(2) by (auto simp: sched_inv_def unblock_task_task)

text \<open>The current task gives up the processor by changing its own state.\<close>

lemma sched_inv_stop:
  assumes "sched_inv rd k" and "\<not> tk_is_idle (the_task k (k_current k))" and "s \<noteq> Ready" and "s \<noteq> Running"
  shows "sched_pre rd (set_state k (k_current k) s)"
proof (rule sched_preI)
  have pre: "sched_pre rd k" and run: "state_of k (k_current k) = Running" using assms(1) by (simp_all add: sched_inv_def)
  note d = sched_preD [OF pre]
  have t: "the_task (set_state k (k_current k) s) u =
      (if u = k_current k then (the_task k u)\<lparr>tk_state := s\<rparr> else the_task k u)" for u
    using d(1) by (simp add: the_task_set_state)
  fix u
  show "u = k_current (set_state k (k_current k) s)" if "state_of (set_state k (k_current k) s) u = Running"
    using d(2) [of u] that assms(4) by (cases "u = k_current k") (simp_all add: t)
  show "tk_is_idle (the_task (set_state k (k_current k) s) u) \<longleftrightarrow> u = k_idle (set_state k (k_current k) s)"
    using d(4) [of u] by (cases "u = k_current k") (simp_all add: t)
  show "count (rd (k_sched (set_state k (k_current k) s))) u =
      of_bool (state_of (set_state k (k_current k) s) u = Ready \<and> u \<noteq> k_idle (set_state k (k_current k) s))"
    using d(6) [of u] assms(3) run by (cases "u = k_current k") (simp_all add: t)
  show "\<not> alive (set_state k (k_current k) s) u" if "k_next (set_state k (k_current k) s) \<le> u"
    using d(7) [of u] that by simp
  show "state_of (set_state k (k_current k) s) (k_idle (set_state k (k_current k) s)) = Ready"
    if "state_of (set_state k (k_current k) s) (k_idle (set_state k (k_current k) s)) \<noteq> Running"
    using d(4) [of "k_current k"] d(5) assms(2) that by (simp add: t split: if_splits)
qed (use assms(1) in \<open>simp_all add: sched_inv_def sched_pre_def\<close>)

end
