(* ===== verification/Task_Waiting.thy ===== *)
theory Task_Waiting
  imports Task_Sched
begin

text \<open>
  The waiting part of the invariant of the task kernel: which tasks are in a wait queue or have an
  alarm, and where each goes on. Every operation that queues, wakes or cancels keeps it.
\<close>

section \<open>Waiting\<close>

text \<open>
  Where a task goes on: in its own code, or inside a wait on a queue, after it was scheduled again.
  \<open>TimeoutBlock\<close> is the point of \<open>wait_timeout\<close> between setting the alarm and blocking, \<open>TimeoutLoop\<close> the
  head of the loop of \<open>wait_timeout_until\<close> and \<open>TimeoutPoll\<close> its body, after the test of the clock.
\<close>

datatype cont = Code | WaitEnd wq | UntilLoop wq | TimeoutBlock wq nat | TimeoutEnd wq
  | TimeoutLoop wq nat | TimeoutPoll wq nat

fun waits_on :: "cont \<Rightarrow> wq \<Rightarrow> bool" where
  "waits_on (WaitEnd w') w = (w = w')"
| "waits_on (UntilLoop w') w = (w = w')"
| "waits_on (TimeoutEnd w') w = (w = w')"
| "waits_on (TimeoutLoop w' d) w = (w = w')"
| "waits_on Code w = False"
| "waits_on (TimeoutBlock w' d) w = False"
| "waits_on (TimeoutPoll w' d) w = False"

lemma waits_on_unique: "waits_on c w \<Longrightarrow> waits_on c w' \<Longrightarrow> w = w'"
  by (cases c) auto

text \<open>What holds of one task, with its pending deadlines \<open>ds\<close>.\<close>

definition task_ok :: "nat \<Rightarrow> task \<Rightarrow> nat multiset \<Rightarrow> cont \<Rightarrow> bool" where
  "task_ok now x ds c \<longleftrightarrow>
    size ds = of_bool (tk_in_timer_list x) \<and>
    (tk_state x = Blocked \<longrightarrow> tk_in_wait_queue x \<or> tk_in_timer_list x) \<and>
    (tk_state x = Exited \<longrightarrow> c = Code) \<and>
    (case c of
       Code \<Rightarrow> \<not> tk_in_wait_queue x \<and> (tk_in_timer_list x \<longrightarrow> tk_state x = Blocked)
     | WaitEnd _ \<Rightarrow> \<not> tk_in_timer_list x \<and> (tk_in_wait_queue x \<longrightarrow> tk_state x = Blocked)
     | UntilLoop _ \<Rightarrow> \<not> tk_in_timer_list x \<and> (tk_in_wait_queue x \<longrightarrow> tk_state x = Blocked)
     | TimeoutBlock _ d \<Rightarrow> (\<forall>d' \<in># ds. d' = d) \<and> \<not> tk_in_wait_queue x \<and> tk_state x \<noteq> Blocked \<and>
         (\<not> tk_in_timer_list x \<longrightarrow> d \<le> now)
     | TimeoutEnd _ \<Rightarrow> True
     | TimeoutPoll _ d \<Rightarrow> (\<forall>d' \<in># ds. d' = d) \<and> \<not> tk_in_wait_queue x \<and> tk_state x \<noteq> Blocked
     | TimeoutLoop _ d \<Rightarrow> (\<forall>d' \<in># ds. d' = d) \<and> (tk_in_wait_queue x \<and> tk_state x \<noteq> Blocked \<longrightarrow> d \<le> now))"

definition deadlines :: "(nat \<times> nat) multiset \<Rightarrow> nat \<Rightarrow> nat multiset" where
  "deadlines m t = image_mset fst (filter_mset (\<lambda>e. snd e = t) m)"

definition wait_inv :: "('t \<Rightarrow> (nat \<times> nat) multiset) \<Rightarrow> ('q, 't) kernel \<Rightarrow> (nat \<Rightarrow> cont) \<Rightarrow> bool" where
  "wait_inv tm k c \<longleftrightarrow>
    (\<forall>t. task_ok (k_now k) (the_task k t) (deadlines (tm (k_timers k)) t) (c t)) \<and>
    (\<forall>w. distinct (k_wq k w)) \<and>
    (\<forall>w t. t \<in> set (k_wq k w) \<longrightarrow> waits_on (c t) w) \<and>
    (\<forall>t. tk_in_wait_queue (the_task k t) \<longleftrightarrow> (\<exists>w. t \<in> set (k_wq k w))) \<and>
    c (k_idle k) = Code"

text \<open>Nobody sleeps on a task that has exited.\<close>

definition join_inv :: "('q, 't) kernel \<Rightarrow> bool" where
  "join_inv k \<longleftrightarrow> (\<forall>t u. t \<in> set (k_wq k (ExitOf u)) \<longrightarrow> state_of k u \<noteq> Exited)"

lemma task_ok_cong:
  assumes "tk_state y = Blocked \<longleftrightarrow> tk_state x = Blocked" "tk_state y = Exited \<longleftrightarrow> tk_state x = Exited"
    "tk_in_wait_queue y = tk_in_wait_queue x" "tk_in_timer_list y = tk_in_timer_list x"
  shows "task_ok n y ds c = task_ok n x ds c"
  using assms by (simp add: task_ok_def cong: cont.case_cong)

lemma task_ok_mono: "task_ok n x ds c \<Longrightarrow> n \<le> m \<Longrightarrow> task_ok m x ds c"
  by (auto simp: task_ok_def split: cont.splits)

lemma wait_invD:
  assumes "wait_inv tm k c"
  shows "task_ok (k_now k) (the_task k t) (deadlines (tm (k_timers k)) t) (c t)" "distinct (k_wq k w)"
    "t \<in> set (k_wq k w) \<Longrightarrow> waits_on (c t) w" "tk_in_wait_queue (the_task k t) \<longleftrightarrow> (\<exists>w. t \<in> set (k_wq k w))"
    "c (k_idle k) = Code"
  using assms unfolding wait_inv_def by blast+

lemma wait_invI:
  assumes "\<And>t. task_ok (k_now k) (the_task k t) (deadlines (tm (k_timers k)) t) (c t)" "\<And>w. distinct (k_wq k w)"
    "\<And>t w. t \<in> set (k_wq k w) \<Longrightarrow> waits_on (c t) w"
    "\<And>t. tk_in_wait_queue (the_task k t) \<longleftrightarrow> (\<exists>w. t \<in> set (k_wq k w))" "c (k_idle k) = Code"
  shows "wait_inv tm k c"
  using assms unfolding wait_inv_def by blast

text \<open>Rescheduling does not touch what waiting depends on.\<close>

lemma wait_inv_same:
  assumes "same_waiting k k'"
  shows "wait_inv tm k' c = wait_inv tm k c" and "join_inv k' = join_inv k"
proof -
  have sel: "k_wq k' = k_wq k" "k_timers k' = k_timers k" "k_now k' = k_now k" "k_idle k' = k_idle k"
    using assms by (simp_all add: same_waiting_def)
  have "task_ok n (the_task k' t) ds (c t) = task_ok n (the_task k t) ds (c t)" for n t ds
    by (rule task_ok_cong) (simp_all add: same_waitingD [OF assms])
  then show "wait_inv tm k' c = wait_inv tm k c"
    by (simp add: wait_inv_def sel same_waitingD(3) [OF assms])
  show "join_inv k' = join_inv k" by (simp add: join_inv_def sel same_waitingD(2) [OF assms])
qed

text \<open>An operation that changes one task, its queue and its alarm.\<close>

lemma wait_inv_change:
  assumes inv: "wait_inv tm k c" and "k_idle k' = k_idle k" and now: "k_now k \<le> k_now k'"
    and others: "\<And>u. u \<noteq> t \<Longrightarrow> the_task k' u = the_task k u"
      "\<And>u. u \<noteq> t \<Longrightarrow> deadlines (tm (k_timers k')) u = deadlines (tm (k_timers k)) u"
      "\<And>u. u \<noteq> t \<Longrightarrow> c' u = c u" "\<And>u w. u \<noteq> t \<Longrightarrow> u \<in> set (k_wq k' w) \<longleftrightarrow> u \<in> set (k_wq k w)"
    and "\<And>w. distinct (k_wq k' w)"
    and "task_ok (k_now k') (the_task k' t) (deadlines (tm (k_timers k')) t) (c' t)"
    and "\<And>w. t \<in> set (k_wq k' w) \<Longrightarrow> waits_on (c' t) w"
    and "tk_in_wait_queue (the_task k' t) \<longleftrightarrow> (\<exists>w. t \<in> set (k_wq k' w))"
    and "t = k_idle k \<Longrightarrow> c' t = Code"
  shows "wait_inv tm k' c'"
proof (rule wait_invI)
  fix u
  show "task_ok (k_now k') (the_task k' u) (deadlines (tm (k_timers k')) u) (c' u)"
    using assms(9) others(1-3) [of u] task_ok_mono [OF wait_invD(1) [OF inv, of u] now] by (cases "u = t") simp_all
  show "waits_on (c' u) w" if "u \<in> set (k_wq k' w)" for w
    using assms(10) others(3,4) [of u] wait_invD(3) [OF inv, of u w] that by (cases "u = t") simp_all
  show "tk_in_wait_queue (the_task k' u) \<longleftrightarrow> (\<exists>w. u \<in> set (k_wq k' w))"
    using assms(11) others(1,4) [of u] wait_invD(4) [OF inv, of u] by (cases "u = t") simp_all
  show "c' (k_idle k') = Code"
    using assms(2,12) others(3) [of "k_idle k"] wait_invD(5) [OF inv] by (cases "k_idle k = t") simp_all
qed (use assms(8) in simp)

lemma deadlines_add [simp]: "deadlines (add_mset (d, t) m) u = (if u = t then add_mset d (deadlines m u) else deadlines m u)"
  by (simp add: deadlines_def)

lemma deadlines_cancel [simp]:
  "deadlines (filter_mset (\<lambda>e. snd e \<noteq> t) m) u = (if u = t then {#} else deadlines m u)"
  by (auto simp: deadlines_def filter_filter_mset intro!: arg_cong [where f = "image_mset fst"] filter_mset_cong)

section \<open>Waking\<close>

text \<open>What a notification does to one queued task; the three notifications are made of it.\<close>

definition wake :: "('q, 't) kernel_ops \<Rightarrow> ('q, 't) kernel \<Rightarrow> wq \<Rightarrow> nat \<Rightarrow> ('q, 't) kernel" where
  "wake K k w t = unblock_task K (set_in_wait_queue (k\<lparr>k_wq := (k_wq k)(w := remove1 t (k_wq k w))\<rparr>) t False) t"

lemma notify_one_locked_wake:
  "notify_one_locked K k w = (case k_wq k w of t # rest \<Rightarrow> (True, wake K k w t) | [] \<Rightarrow> (False, k))"
  by (simp add: notify_one_locked_def wake_def split: list.split)

lemma notify_all_locked_wake:
  "notify_all_locked K k w = (case k_wq k w of t # rest \<Rightarrow> notify_all_locked K (wake K k w t) w | [] \<Rightarrow> k)"
  by (simp add: notify_all_locked.simps [of K k w] wake_def split: list.split)

lemma notify_task_wake:
  "notify_task K k w t = (if t \<in> set (k_wq k w) then (True, wake K k w t) else (False, k))"
  by (simp add: notify_task_def wake_def)

lemma wake_sel [simp]:
  "k_wq (wake K k w t) = (k_wq k)(w := remove1 t (k_wq k w))" "alive (wake K k w t) u = alive k u"
  "k_current (wake K k w t) = k_current k" "k_idle (wake K k w t) = k_idle k" "k_timers (wake K k w t) = k_timers k"
  "k_next (wake K k w t) = k_next k" "k_now (wake K k w t) = k_now k" "k_exited (wake K k w t) = k_exited k"
  "k_id_counter (wake K k w t) = k_id_counter k"
  by (simp_all add: wake_def)

lemma wake_task:
  "the_task (wake K k w t) u =
    (if u = t \<and> alive k t
     then (the_task k t)\<lparr>tk_in_wait_queue := False, tk_state := (if state_of k t = Blocked then Ready else state_of k t)\<rparr>
     else the_task k u)"
  using not_alive_Exited [of k t] by (auto simp: wake_def unblock_task_task the_task_set_task)

lemma wake_sched:
  assumes "documented_kernel K rd tm"
  shows "sched_pre rd k \<Longrightarrow> sched_pre rd (wake K k w t)" "sched_inv rd k \<Longrightarrow> sched_inv rd (wake K k w t)"
  unfolding wake_def by (rule unblock_task_pre [OF assms] unblock_task_inv [OF assms];
      simp add: sched_pre_flags sched_inv_flags)+

lemma wake_waiting:
  assumes inv: "wait_inv tm k c" and t: "t \<in> set (k_wq k w)"
  shows "wait_inv tm (wake K k w t) c"
proof (rule wait_inv_change [OF inv])
  have w: "waits_on (c t) w" by (rule wait_invD(3) [OF inv t])
  have al: "alive k t" using wait_invD(4) [OF inv, of t] t flags_alive(1) [of k t] by blast
  show "task_ok (k_now (wake K k w t)) (the_task (wake K k w t) t) (deadlines (tm (k_timers (wake K k w t))) t) (c t)"
    using wait_invD(1) [OF inv, of t] w al by (cases "c t") (auto simp: wake_task task_ok_def)
  have nin: "t \<notin> set (k_wq (wake K k w t) w')" for w'
  proof (cases "w' = w")
    case True
    then show ?thesis using wait_invD(2) [OF inv, of w] by simp
  next
    case False
    then show ?thesis using wait_invD(3) [OF inv, of t w'] waits_on_unique [OF w] by auto
  qed
  then show "waits_on (c t) w'" if "t \<in> set (k_wq (wake K k w t) w')" for w' using that by simp
  show "tk_in_wait_queue (the_task (wake K k w t) t) \<longleftrightarrow> (\<exists>w'. t \<in> set (k_wq (wake K k w t) w'))"
    using nin al by (simp add: wake_task)
  show "distinct (k_wq (wake K k w t) w')" for w'
    using wait_invD(2) [OF inv, of w'] by (cases "w' = w") (simp_all add: distinct_remove1)
  show "c t = Code" if "t = k_idle k" using that wait_invD(5) [OF inv] by simp
qed (auto simp: wake_task)

lemma wake_joins: "join_inv k \<Longrightarrow> join_inv (wake K k w t)"
  unfolding join_inv_def by (auto simp: wake_task split: if_splits dest: notin_set_remove1)

text \<open>All tasks of a queue are woken, one after the other.\<close>

lemma notify_all_locked_induct:
  assumes "P k" and "\<And>k t. P k \<Longrightarrow> t \<in> set (k_wq k w) \<Longrightarrow> P (wake K k w t)"
  shows "P (notify_all_locked K k w) \<and> k_wq (notify_all_locked K k w) w = []"
  using assms(1)
proof (induction "length (k_wq k w)" arbitrary: k)
  case 0
  then show ?case by (simp add: notify_all_locked_wake [of K k w])
next
  case (Suc n)
  then obtain t rest where q: "k_wq k w = t # rest" by (cases "k_wq k w") auto
  then have "P (wake K k w t)" using assms(2) [OF Suc.prems, of t] by simp
  moreover have "n = length (k_wq (wake K k w t) w)" using Suc.hyps(2) q by simp
  ultimately show ?case using Suc.hyps(1) [of "wake K k w t"] q by (simp add: notify_all_locked_wake [of K k w])
qed

text \<open>What waking leaves alone.\<close>

definition woken_from :: "('q, 't) kernel \<Rightarrow> ('q, 't) kernel \<Rightarrow> bool" where
  "woken_from k k' \<longleftrightarrow> alive k' = alive k \<and> k_current k' = k_current k \<and> k_idle k' = k_idle k \<and> k_next k' = k_next k \<and>
    k_now k' = k_now k \<and> k_exited k' = k_exited k \<and> k_id_counter k' = k_id_counter k \<and> (\<forall>w. set (k_wq k' w) \<subseteq> set (k_wq k w)) \<and>
    (\<forall>t. \<exists>b s. the_task k' t = (the_task k t)\<lparr>tk_in_wait_queue := b, tk_state := s\<rparr> \<and>
       (s = state_of k t \<or> state_of k t = Blocked \<and> s = Ready))"

lemma woken_fromD:
  assumes "woken_from k k'"
  shows "state_of k' t = state_of k t \<or> state_of k t = Blocked \<and> state_of k' t = Ready"
    "t \<in> set (k_wq k' w) \<Longrightarrow> t \<in> set (k_wq k w)" "alive k' t = alive k t" "k_current k' = k_current k"
    "tk_exit_code (the_task k' t) = tk_exit_code (the_task k t)" "tk_id (the_task k' t) = tk_id (the_task k t)"
proof -
  obtain b s where "the_task k' t = (the_task k t)\<lparr>tk_in_wait_queue := b, tk_state := s\<rparr>"
    "s = state_of k t \<or> state_of k t = Blocked \<and> s = Ready"
    using assms unfolding woken_from_def by blast
  then show "state_of k' t = state_of k t \<or> state_of k t = Blocked \<and> state_of k' t = Ready"
    "tk_exit_code (the_task k' t) = tk_exit_code (the_task k t)" "tk_id (the_task k' t) = tk_id (the_task k t)" by auto
qed (use assms in \<open>auto simp: woken_from_def\<close>)

lemma woken_from_refl: "woken_from k k"
proof -
  have "\<exists>b s. x = x\<lparr>tk_in_wait_queue := b, tk_state := s\<rparr> \<and> (s = tk_state x \<or> tk_state x = Blocked \<and> s = Ready)" for x :: task
    by (rule exI [of _ "tk_in_wait_queue x"], rule exI [of _ "tk_state x"]) simp
  then show ?thesis by (simp add: woken_from_def)
qed

lemma woken_from_wake:
  assumes "woken_from k k'"
  shows "woken_from k (wake K k' w t)"
proof -
  have "\<exists>b s. the_task (wake K k' w t) u = (the_task k u)\<lparr>tk_in_wait_queue := b, tk_state := s\<rparr> \<and>
       (s = state_of k u \<or> state_of k u = Blocked \<and> s = Ready)" for u
  proof -
    obtain b s where "the_task k' u = (the_task k u)\<lparr>tk_in_wait_queue := b, tk_state := s\<rparr>"
      "s = state_of k u \<or> state_of k u = Blocked \<and> s = Ready"
      using assms unfolding woken_from_def by blast
    then show ?thesis
      by (intro exI [of _ "if u = t \<and> alive k' t then False else b"]
          exI [of _ "if u = t \<and> alive k' t \<and> s = Blocked then Ready else s"]) (auto simp: wake_task)
  qed
  moreover have "set (k_wq (wake K k' w t) w') \<subseteq> set (k_wq k w')" for w'
    using assms set_remove1_subset [of t "k_wq k' w"] by (auto simp: woken_from_def)
  ultimately show ?thesis using assms by (simp add: woken_from_def fun_eq_iff)
qed

lemma notify_all_locked_woken: "woken_from k (notify_all_locked K k w)"
  using notify_all_locked_induct [of "woken_from k", OF woken_from_refl woken_from_wake] by blast

lemma notify_all_locked_empty [simp]: "k_wq (notify_all_locked K k w) w = []"
  using notify_all_locked_induct [of "\<lambda>_. True"] by simp

lemma notify_all_locked_awake:
  assumes "t \<in> set (k_wq k w)"
  shows "state_of (notify_all_locked K k w) t \<noteq> Blocked"
proof -
  let ?P = "\<lambda>k. t \<in> set (k_wq k w) \<or> state_of k t \<noteq> Blocked"
  have "?P (wake K k' w u)" if "?P k'" for k' u
    using that not_alive_Exited [of k' t] by (cases "u = t") (auto simp: wake_task)
  then show ?thesis using notify_all_locked_induct [of ?P k w K] assms by auto
qed

lemma notify_all_locked_inv:
  assumes K: "documented_kernel K rd tm"
  shows "wait_inv tm k c \<Longrightarrow> wait_inv tm (notify_all_locked K k w) c"
    "sched_pre rd k \<Longrightarrow> sched_pre rd (notify_all_locked K k w)" "sched_inv rd k \<Longrightarrow> sched_inv rd (notify_all_locked K k w)"
    "join_inv k \<Longrightarrow> join_inv (notify_all_locked K k w)"
proof -
  show "wait_inv tm (notify_all_locked K k w) c" if "wait_inv tm k c"
    using notify_all_locked_induct [of "\<lambda>k. wait_inv tm k c", OF that wake_waiting] by blast
  show "sched_pre rd (notify_all_locked K k w)" if "sched_pre rd k"
    using notify_all_locked_induct [of "sched_pre rd", OF that wake_sched(1) [OF K]] by blast
  show "sched_inv rd (notify_all_locked K k w)" if "sched_inv rd k"
    using notify_all_locked_induct [of "sched_inv rd", OF that wake_sched(2) [OF K]] by blast
  show "join_inv (notify_all_locked K k w)" if "join_inv k"
    using notify_all_locked_induct [of join_inv, OF that wake_joins] by blast
qed

section \<open>What a step of one task leaves alone\<close>

text \<open>The numbers tasks are known by count up with the tasks.\<close>

definition id_inv :: "('q, 't) kernel \<Rightarrow> bool" where
  "id_inv k \<longleftrightarrow> k_id_counter k = of_nat (k_next k + 1) \<and> (\<forall>t. alive k t \<longrightarrow> tk_id (the_task k t) = of_nat (t + 1))"

text \<open>
  A step of task \<open>t\<close>: tasks do not vanish, an exited task stays so, with its exit code, and no other
  task blocks or exits.
\<close>

definition evolves :: "nat \<Rightarrow> ('q, 't) kernel \<Rightarrow> ('q, 't) kernel \<Rightarrow> bool" where
  "evolves t k k' \<longleftrightarrow> (id_inv k \<longrightarrow> id_inv k') \<and> (\<forall>u. alive k u \<longrightarrow> alive k' u) \<and>
    (\<forall>u. alive k u \<longrightarrow> state_of k u = Exited \<longrightarrow>
       state_of k' u = Exited \<and> tk_exit_code (the_task k' u) = tk_exit_code (the_task k u)) \<and>
    (\<forall>u. u \<noteq> t \<longrightarrow> alive k u \<longrightarrow> (state_of k' u = Blocked \<longrightarrow> state_of k u = Blocked) \<and>
       (state_of k' u = Exited \<longrightarrow> state_of k u = Exited))"

lemma evolvesD:
  assumes "evolves t k k'"
  shows "id_inv k \<Longrightarrow> id_inv k'" "alive k u \<Longrightarrow> alive k' u"
    "alive k u \<Longrightarrow> state_of k u = Exited \<Longrightarrow> state_of k' u = Exited"
    "alive k u \<Longrightarrow> state_of k u = Exited \<Longrightarrow> tk_exit_code (the_task k' u) = tk_exit_code (the_task k u)"
    "u \<noteq> t \<Longrightarrow> alive k u \<Longrightarrow> state_of k' u = Blocked \<Longrightarrow> state_of k u = Blocked"
    "u \<noteq> t \<Longrightarrow> alive k u \<Longrightarrow> state_of k' u = Exited \<Longrightarrow> state_of k u = Exited"
  using assms unfolding evolves_def by blast+

lemma evolvesI:
  assumes "k_next k' = k_next k" "k_id_counter k' = k_id_counter k" "\<And>u. alive k' u = alive k u"
    and "\<And>u. tk_id (the_task k' u) = tk_id (the_task k u)"
    and "\<And>u. state_of k u = Exited \<Longrightarrow> state_of k' u = Exited \<and> tk_exit_code (the_task k' u) = tk_exit_code (the_task k u)"
    and "\<And>u. u \<noteq> t \<Longrightarrow> state_of k' u = Blocked \<Longrightarrow> state_of k u = Blocked"
    and "\<And>u. u \<noteq> t \<Longrightarrow> state_of k' u = Exited \<Longrightarrow> state_of k u = Exited"
  shows "evolves t k k'"
proof -
  have "id_inv k' = id_inv k" using assms(1-4) by (simp add: id_inv_def)
  moreover have "alive k u \<longrightarrow> alive k' u" for u using assms(3) by simp
  ultimately show ?thesis using assms(5-7) unfolding evolves_def by blast
qed

lemma evolves_trans:
  assumes "evolves t k k'" and "evolves t k' k''"
  shows "evolves t k k''"
proof -
  note d = evolvesD [OF assms(1)] and e = evolvesD [OF assms(2)]
  show ?thesis
    unfolding evolves_def
  proof (intro conjI allI impI)
    show "id_inv k''" if "id_inv k" by (rule e(1) [OF d(1) [OF that]])
    fix u
    assume a: "alive k u"
    show "alive k'' u" by (rule e(2) [OF d(2) [OF a]])
    show "state_of k'' u = Exited" "tk_exit_code (the_task k'' u) = tk_exit_code (the_task k u)" if "state_of k u = Exited"
      using e(3,4) [OF d(2) [OF a] d(3) [OF a that]] d(4) [OF a that] by simp_all
    show "state_of k u = Blocked" if "u \<noteq> t" "state_of k'' u = Blocked" by (rule d(5) [OF that(1) a e(5) [OF that(1) d(2) [OF a] that(2)]])
    show "state_of k u = Exited" if "u \<noteq> t" "state_of k'' u = Exited" by (rule d(6) [OF that(1) a e(6) [OF that(1) d(2) [OF a] that(2)]])
  qed
qed

lemma evolves_refl [simp]: "evolves t k k"
  by (simp add: evolves_def)

lemma evolves_same:
  assumes "same_waiting k' k''" and "evolves t k k'"
  shows "evolves t k k''"
  by (rule evolves_trans [OF assms(2)], rule evolvesI)
    (use assms(1) in \<open>simp_all add: same_waitingD [OF assms(1)]\<close>, simp_all add: same_waiting_def)

lemma evolves_woken:
  assumes "woken_from k k'"
  shows "evolves t k k'"
proof (rule evolvesI)
  fix u
  show "alive k' u = alive k u" "tk_id (the_task k' u) = tk_id (the_task k u)" by (rule woken_fromD [OF assms])+
  show "state_of k' u = Exited \<and> tk_exit_code (the_task k' u) = tk_exit_code (the_task k u)" if "state_of k u = Exited"
    using that woken_fromD(1,5) [OF assms, of u] by auto
  show "state_of k u = Blocked" if "state_of k' u = Blocked" using that woken_fromD(1) [OF assms, of u] by auto
  show "state_of k u = Exited" if "state_of k' u = Exited" using that woken_fromD(1) [OF assms, of u] by auto
qed (use assms in \<open>simp_all add: woken_from_def\<close>)

section \<open>Alarms\<close>

lemma wakeup_callback_task:
  "the_task (wakeup_callback K k t) u =
    (if u = t \<and> alive k t
     then (the_task k t)\<lparr>tk_in_timer_list := False, tk_state := (if state_of k t = Blocked then Ready else state_of k t)\<rparr>
     else the_task k u)"
  using not_alive_Exited [of k t] by (auto simp: wakeup_callback_def unblock_task_task the_task_set_task)

lemma wakeup_callback_sel [simp]:
  "k_wq (wakeup_callback K k t) = k_wq k" "alive (wakeup_callback K k t) u = alive k u"
  "k_current (wakeup_callback K k t) = k_current k" "k_idle (wakeup_callback K k t) = k_idle k"
  "k_timers (wakeup_callback K k t) = k_timers k" "k_next (wakeup_callback K k t) = k_next k"
  "k_now (wakeup_callback K k t) = k_now k" "k_id_counter (wakeup_callback K k t) = k_id_counter k"
  by (simp_all add: wakeup_callback_def)

lemma check_event_inv:
  assumes K: "documented_kernel K rd tm" and s: "sched_inv rd k" and inv: "wait_inv tm k c"
    and e: "check_event K k = Some k'"
  shows "sched_inv rd k'" and "wait_inv tm k' c" and "join_inv k \<Longrightarrow> join_inv k'"
    and "evolves u k k'"
proof -
  obtain d t l where x: "tl_expire_one K (k_timers k) (k_now k) = (Some (d, t), l)"
    and k': "k' = wakeup_callback K (k\<lparr>k_timers := l\<rparr>) t"
    using e by (auto simp: check_event_def split: prod.splits option.splits)
  have d: "d \<le> k_now k" and tm: "tm (k_timers k) = add_mset (d, t) (tm l)"
    using documented_expire [OF K x] by simp_all
  show "sched_inv rd k'"
    unfolding k' wakeup_callback_def by (rule unblock_task_inv [OF K]) (simp add: sched_inv_flags s)
  have ok: "task_ok (k_now k) (the_task k t) (add_mset d (deadlines (tm l) t)) (c t)"
    using wait_invD(1) [OF inv, of t] by (simp add: tm)
  then have timer: "tk_in_timer_list (the_task k t)" and rest: "deadlines (tm l) t = {#}"
    by (simp_all add: task_ok_def of_bool_def split: if_splits)
  have al: "alive k t" by (rule flags_alive(2) [OF timer])
  show "wait_inv tm k' c"
  proof (rule wait_inv_change [OF inv])
    show "task_ok (k_now k') (the_task k' t) (deadlines (tm (k_timers k')) t) (c t)"
      using ok timer rest al d unfolding k' by (cases "c t") (auto simp: wakeup_callback_task task_ok_def)
    show "tk_in_wait_queue (the_task k' t) \<longleftrightarrow> (\<exists>w. t \<in> set (k_wq k' w))"
      using wait_invD(4) [OF inv, of t] al by (simp add: k' wakeup_callback_task)
    show "waits_on (c t) w" if "t \<in> set (k_wq k' w)" for w using that wait_invD(3) [OF inv, of t w] by (simp add: k')
    show "distinct (k_wq k' w)" for w using wait_invD(2) [OF inv] by (simp add: k')
    show "c t = Code" if "t = k_idle k" using that wait_invD(5) [OF inv] by simp
  qed (simp_all add: k' wakeup_callback_task tm)
  show "join_inv k'" if "join_inv k" using that by (simp add: k' join_inv_def wakeup_callback_task)
  show "evolves u k k'" by (rule evolvesI) (auto simp: k' wakeup_callback_task split: if_splits)
qed

section \<open>Going to sleep\<close>

text \<open>The current task, when it is running its own code, is in no queue and has no alarm.\<close>

lemma current_flags:
  assumes s: "sched_inv rd k" and inv: "wait_inv tm k c" and "c (k_current k) = Code"
  shows "\<not> tk_in_wait_queue (the_task k (k_current k))" "\<not> tk_in_timer_list (the_task k (k_current k))"
    "deadlines (tm (k_timers k)) (k_current k) = {#}"
  using wait_invD(1) [OF inv, of "k_current k"] assms(3) s by (auto simp: task_ok_def sched_inv_def)

lemma current_idle:
  assumes "sched_inv rd k" and "wait_inv tm k c" and "c (k_current k) \<noteq> Code"
  shows "\<not> tk_is_idle (the_task k (k_current k))"
  using assms sched_preD(4) [of rd k "k_current k"] wait_invD(5) [OF assms(2)] by (auto simp: sched_inv_def)

lemma push_waiter_sel [simp]:
  "k_wq (push_waiter w k t) = (k_wq k)(w := k_wq k w @ [t])" "alive (push_waiter w k t) u = alive k u"
  "k_current (push_waiter w k t) = k_current k" "k_idle (push_waiter w k t) = k_idle k"
  "k_timers (push_waiter w k t) = k_timers k" "k_next (push_waiter w k t) = k_next k" "k_now (push_waiter w k t) = k_now k"
  "k_id_counter (push_waiter w k t) = k_id_counter k"
  by (simp_all add: push_waiter_def)

lemma push_waiter_task:
  "the_task (push_waiter w k t) u = (if u = t \<and> alive k t then (the_task k t)\<lparr>tk_in_wait_queue := True\<rparr> else the_task k u)"
  by (simp add: push_waiter_def the_task_set_task)

lemma wait_block_inv:
  assumes K: "documented_kernel K rd tm" and s: "sched_inv rd k" and inv: "wait_inv tm k c"
    and idle: "\<not> tk_is_idle (the_task k (k_current k))"
    and free: "\<not> tk_in_wait_queue (the_task k (k_current k))"
    and ok: "task_ok (k_now k) ((the_task k (k_current k))\<lparr>tk_state := Blocked, tk_in_wait_queue := True\<rparr>)
        (deadlines (tm (k_timers k)) (k_current k)) d" and on: "waits_on d w"
  obtains k' where "wait_block K k w = (Ok (), k')" "sched_inv rd k'" "wait_inv tm k' (c(k_current k := d))"
    "join_inv k \<Longrightarrow> (\<And>u. w = ExitOf u \<Longrightarrow> state_of k u \<noteq> Exited) \<Longrightarrow> join_inv k'"
    "evolves (k_current k) k k'" "k_timers k' = k_timers k" "state_of k' (k_current k) = Blocked"
proof -
  let ?t = "k_current k"
  define k1 where "k1 = push_waiter w (set_state k ?t Blocked) ?t"
  have run: "state_of k ?t = Running" and al: "alive k ?t" using s sched_preD(1) by (auto simp: sched_inv_def)
  have task: "the_task k1 u =
      (if u = ?t then (the_task k u)\<lparr>tk_state := Blocked, tk_in_wait_queue := True\<rparr> else the_task k u)" for u
    using al by (simp add: k1_def push_waiter_task the_task_set_state)
  have pre: "sched_pre rd k1"
    unfolding k1_def push_waiter_def using sched_inv_stop [OF s idle, of Blocked] by (simp add: sched_pre_flags)
  have nin: "?t \<notin> set (k_wq k w')" for w' using wait_invD(4) [OF inv, of ?t] free by auto
  have inv1: "wait_inv tm k1 (c(?t := d))"
  proof (rule wait_inv_change [OF inv, where t = ?t])
    show "task_ok (k_now k1) (the_task k1 ?t) (deadlines (tm (k_timers k1)) ?t) ((c(?t := d)) ?t)"
      using ok by (simp add: task) (simp add: k1_def)
    show "distinct (k_wq k1 w')" for w' using wait_invD(2) [OF inv] nin by (simp add: k1_def)
    show "waits_on ((c(?t := d)) ?t) w'" if "?t \<in> set (k_wq k1 w')" for w'
      using that nin on by (simp add: k1_def split: if_splits)
    show "(c(?t := d)) ?t = Code" if "?t = k_idle k"
      using that idle sched_preD(4) [of rd k ?t] s by (simp add: sched_inv_def)
  qed (auto simp: task, auto simp: k1_def split: if_splits)
  have eq: "wait_block K k w = (Ok (), resched K k1 False)"
    using run idle by (simp add: wait_block_def block_current_def is_running_def k1_def Let_def)
  note same = resched_inv(2) [OF K pre, of False]
  show thesis
  proof (rule that [OF eq resched_inv(1) [OF K pre]])
    show "wait_inv tm (resched K k1 False) (c(?t := d))" using inv1 wait_inv_same(1) [OF same] by simp
    show "join_inv (resched K k1 False)" if "join_inv k" "\<And>u. w = ExitOf u \<Longrightarrow> state_of k u \<noteq> Exited"
      using that wait_inv_same(2) [OF same] by (auto simp: join_inv_def task) (auto simp: k1_def split: if_splits)
    show "evolves (k_current k) k (resched K k1 False)"
      using run by (intro evolves_same [OF same] evolvesI) (auto simp: task split: if_splits, simp_all add: k1_def)
    show "k_timers (resched K k1 False) = k_timers k" using same by (simp add: same_waiting_def k1_def)
    show "state_of (resched K k1 False) ?t = Blocked" by (simp add: same_waitingD [OF same] task)
  qed
qed

text \<open>Setting an alarm for the current task.\<close>

lemma set_alarm_wakeup_sel [simp]:
  "k_wq (set_alarm_wakeup K k d t) = k_wq k" "alive (set_alarm_wakeup K k d t) u = alive k u"
  "k_current (set_alarm_wakeup K k d t) = k_current k" "k_idle (set_alarm_wakeup K k d t) = k_idle k"
  "k_next (set_alarm_wakeup K k d t) = k_next k" "k_now (set_alarm_wakeup K k d t) = k_now k"
  "k_id_counter (set_alarm_wakeup K k d t) = k_id_counter k"
  by (simp_all add: set_alarm_wakeup_def)

lemma set_alarm_wakeup_task:
  "the_task (set_alarm_wakeup K k d t) u = (if u = t \<and> alive k t then (the_task k t)\<lparr>tk_in_timer_list := True\<rparr> else the_task k u)"
  by (simp add: set_alarm_wakeup_def the_task_set_task)

lemma set_alarm_wakeup_timers:
  "documented_kernel K rd tm \<Longrightarrow> tm (k_timers (set_alarm_wakeup K k d t)) = add_mset (d, t) (tm (k_timers k))"
  by (simp add: set_alarm_wakeup_def documented_kernelD)

lemma set_alarm_wakeup_sched:
  "sched_inv rd (set_alarm_wakeup K k d t) = sched_inv rd k"
  unfolding set_alarm_wakeup_def by (simp add: sched_inv_flags)

lemma wait_timeout_start_inv:
  assumes K: "documented_kernel K rd tm" and s: "sched_inv rd k" and inv: "wait_inv tm k c"
    and code: "c (k_current k) = Code" and idle: "\<not> tk_is_idle (the_task k (k_current k))"
    and d: "d = TimeoutBlock w (k_now k + dur) \<or> d = TimeoutLoop w (k_now k + dur)"
  shows "sched_inv rd (wait_timeout_start K k dur)" "wait_inv tm (wait_timeout_start K k dur) (c(k_current k := d))"
    "join_inv k \<Longrightarrow> join_inv (wait_timeout_start K k dur)" "evolves (k_current k) k (wait_timeout_start K k dur)"
proof -
  let ?t = "k_current k"
  let ?k = "wait_timeout_start K k dur"
  have run: "state_of k ?t = Running" and al: "alive k ?t" using s sched_preD(1) by (auto simp: sched_inv_def)
  note f = current_flags [OF s inv code]
  have task: "the_task ?k u = (if u = ?t then (the_task k u)\<lparr>tk_in_timer_list := True\<rparr> else the_task k u)" for u
    using al by (simp add: wait_timeout_start_def set_alarm_wakeup_task)
  have sel: "k_wq ?k = k_wq k" "k_idle ?k = k_idle k" "k_now ?k = k_now k" "\<And>u. alive ?k u = alive k u"
    "tm (k_timers ?k) = add_mset (k_now k + dur, ?t) (tm (k_timers k))"
    by (simp_all add: wait_timeout_start_def set_alarm_wakeup_timers [OF K])
  show "sched_inv rd ?k" using s by (simp add: wait_timeout_start_def set_alarm_wakeup_sched)
  have nin: "?t \<notin> set (k_wq k w')" for w' using wait_invD(4) [OF inv, of ?t] f(1) by auto
  show "wait_inv tm ?k (c(?t := d))"
  proof (rule wait_inv_change [OF inv, where t = ?t])
    show "task_ok (k_now ?k) (the_task ?k ?t) (deadlines (tm (k_timers ?k)) ?t) ((c(?t := d)) ?t)"
      using d f run by (auto simp: task sel task_ok_def)
    show "(c(?t := d)) ?t = Code" if "?t = k_idle k"
      using that idle sched_preD(4) [of rd k ?t] s by (simp add: sched_inv_def)
  qed (use f(1) nin wait_invD(2) [OF inv] in \<open>simp_all add: task sel\<close>)
  show "join_inv ?k" if "join_inv k" using that by (simp add: join_inv_def task sel)
  show "evolves ?t k ?k" by (rule evolvesI) (auto simp: task sel split: if_splits, simp_all add: wait_timeout_start_def)
qed

lemma sleep_until_inv:
  assumes K: "documented_kernel K rd tm" and s: "sched_inv rd k" and inv: "wait_inv tm k c"
    and code: "c (k_current k) = Code" and idle: "\<not> tk_is_idle (the_task k (k_current k))"
  obtains k' where "rq_sleep_until K k deadline = (Ok (), k')" "sched_inv rd k'" "wait_inv tm k' c"
    "join_inv k \<Longrightarrow> join_inv k'" "evolves (k_current k) k k'"
proof (cases "k_now k < deadline")
  case False
  then have "rq_sleep_until K k deadline = (Ok (), k)"
    using s idle by (simp add: rq_sleep_until_def sched_inv_def is_running_def Let_def)
  then show thesis using that s inv evolves_refl by blast
next
  case True
  let ?t = "k_current k"
  define k1 where "k1 = set_state (set_alarm_wakeup K k deadline ?t) ?t Blocked"
  have run: "state_of k ?t = Running" and al: "alive k ?t" using s sched_preD(1) by (auto simp: sched_inv_def)
  note f = current_flags [OF s inv code]
  have task: "the_task k1 u =
      (if u = ?t then (the_task k u)\<lparr>tk_in_timer_list := True, tk_state := Blocked\<rparr> else the_task k u)" for u
    using al by (simp add: k1_def the_task_set_state set_alarm_wakeup_task)
  have sel: "k_wq k1 = k_wq k" "k_idle k1 = k_idle k" "k_now k1 = k_now k" "\<And>u. alive k1 u = alive k u"
    "tm (k_timers k1) = add_mset (deadline, ?t) (tm (k_timers k))"
    by (simp_all add: k1_def set_alarm_wakeup_timers [OF K])
  have pre: "sched_pre rd k1"
    using sched_inv_stop [of rd "set_alarm_wakeup K k deadline ?t" Blocked] s idle al
    by (simp add: k1_def set_alarm_wakeup_sched set_alarm_wakeup_task)
  have nin: "?t \<notin> set (k_wq k w')" for w' using wait_invD(4) [OF inv, of ?t] f(1) by auto
  have inv1: "wait_inv tm k1 c"
    by (rule wait_inv_change [OF inv, where t = ?t])
      (use f nin code run wait_invD(2) [OF inv] in \<open>simp_all add: task sel task_ok_def\<close>)
  have eq: "rq_sleep_until K k deadline = (Ok (), resched K k1 False)"
    using run idle True by (simp add: rq_sleep_until_def is_running_def k1_def Let_def)
  note same = resched_inv(2) [OF K pre, of False]
  have "evolves (k_current k) k (resched K k1 False)"
    using run by (intro evolves_same [OF same] evolvesI) (auto simp: task sel split: if_splits, simp_all add: k1_def)
  moreover have "join_inv (resched K k1 False)" if "join_inv k"
    using that wait_inv_same(2) [OF same] by (simp add: join_inv_def task sel)
  ultimately show thesis
    using that [OF eq resched_inv(1) [OF K pre]] inv1 wait_inv_same(1) [OF same] by blast
qed

section \<open>Going on after a wait\<close>

lemma cancel_events_task:
  assumes "alive k (k_current k)"
  shows "the_task (cancel_events K k w) u = (if u = k_current k
      then (the_task k u)\<lparr>tk_in_wait_queue := False, tk_in_timer_list := False\<rparr> else the_task k u)"
  using assms by (auto simp: cancel_events_def cancel_alarm_def Let_def the_task_set_task)

lemma cancel_events_sel [simp]:
  "alive (cancel_events K k w) u = alive k u" "k_current (cancel_events K k w) = k_current k"
  "k_idle (cancel_events K k w) = k_idle k" "k_next (cancel_events K k w) = k_next k" "k_now (cancel_events K k w) = k_now k"
  "k_id_counter (cancel_events K k w) = k_id_counter k"
  by (simp_all add: cancel_events_def cancel_alarm_def Let_def)

lemma cancel_events_inv:
  assumes K: "documented_kernel K rd tm" and s: "sched_inv rd k" and inv: "wait_inv tm k c"
    and on: "\<And>w'. k_current k \<in> set (k_wq k w') \<Longrightarrow> w' = w"
  shows "sched_inv rd (cancel_events K k w)" "wait_inv tm (cancel_events K k w) (c(k_current k := Code))"
    "join_inv k \<Longrightarrow> join_inv (cancel_events K k w)" "evolves v k (cancel_events K k w)"
proof -
  let ?t = "k_current k"
  let ?k = "cancel_events K k w"
  have run: "state_of k ?t = Running" and al: "alive k ?t" using s sched_preD(1) by (auto simp: sched_inv_def)
  note task = cancel_events_task [OF al, of K w]
  have ok: "task_ok (k_now k) (the_task k ?t) (deadlines (tm (k_timers k)) ?t) (c ?t)" by (rule wait_invD(1) [OF inv])
  have dl: "deadlines (tm (k_timers ?k)) u = (if u = ?t then {#} else deadlines (tm (k_timers k)) u)" for u
    using ok al by (auto simp: cancel_events_def cancel_alarm_def Let_def documented_kernelD [OF K] the_task_set_task task_ok_def)
  have wq: "set (k_wq ?k w') = set (k_wq k w') - {?t} \<and> distinct (k_wq ?k w')" for w'
    using wait_invD(4) [OF inv, of ?t] wait_invD(2) [OF inv, of w'] on [of w'] by (auto simp: cancel_events_def cancel_alarm_def Let_def)
  show "sched_inv rd ?k"
    using s by (simp add: cancel_events_def cancel_alarm_def Let_def sched_inv_flags)
  show "wait_inv tm ?k (c(?t := Code))"
    by (rule wait_inv_change [OF inv, where t = ?t]) (use wq run in \<open>auto simp: task dl task_ok_def\<close>)
  show "join_inv ?k" if "join_inv k" using that wq by (auto simp: join_inv_def task)
  show "evolves v k ?k" by (rule evolvesI) (auto simp: task split: if_splits)
qed

section \<open>Spawning and exiting\<close>

text \<open>Waking at most one task.\<close>

lemma notify_one_locked_inv:
  assumes K: "documented_kernel K rd tm"
  shows "wait_inv tm k c \<Longrightarrow> wait_inv tm (snd (notify_one_locked K k w)) c"
    "sched_pre rd k \<Longrightarrow> sched_pre rd (snd (notify_one_locked K k w))"
    "sched_inv rd k \<Longrightarrow> sched_inv rd (snd (notify_one_locked K k w))"
    "join_inv k \<Longrightarrow> join_inv (snd (notify_one_locked K k w))" "woken_from k (snd (notify_one_locked K k w))"
  using wake_waiting [of tm k c _ w K] wake_sched [OF K, of k w] wake_joins [of k K w] woken_from_wake [OF woken_from_refl [of k], of K w] woken_from_refl [of k]
  by (auto simp: notify_one_locked_wake split: list.split)

lemma notify_task_inv:
  assumes K: "documented_kernel K rd tm"
  shows "wait_inv tm k c \<Longrightarrow> wait_inv tm (snd (notify_task K k w t)) c"
    "sched_inv rd k \<Longrightarrow> sched_inv rd (snd (notify_task K k w t))"
    "join_inv k \<Longrightarrow> join_inv (snd (notify_task K k w t))" "woken_from k (snd (notify_task K k w t))"
  using wake_waiting [of tm k c t w K] wake_sched [OF K, of k w t] wake_joins [of k K w t] woken_from_wake [OF woken_from_refl [of k], of K w t]
    woken_from_refl [of k] by (simp_all add: notify_task_wake)

lemma exit_current_inv:
  assumes K: "documented_kernel K rd tm" and s: "sched_inv rd k" and inv: "wait_inv tm k c" and j: "join_inv k"
    and code: "c (k_current k) = Code" and idle: "\<not> tk_is_idle (the_task k (k_current k))"
    and init: "\<not> tk_is_init (the_task k (k_current k))"
  obtains k' where "exit_current K k e = (Ok True, k')" "sched_inv rd k'" "wait_inv tm k' c" "join_inv k'" "evolves (k_current k) k k'"
    "alive k' (k_current k)" "state_of k' (k_current k) = Exited" "tk_exit_code (the_task k' (k_current k)) = e"
    "k_wq k' (ExitOf (k_current k)) = []"
    "\<And>t. t \<in> set (k_wq k (ExitOf (k_current k))) \<Longrightarrow> state_of k' t \<noteq> Blocked"
proof -
  let ?t = "k_current k"
  define k0 where "k0 = set_task (set_state k ?t Exited) ?t (\<lambda>x. x\<lparr>tk_exit_code := e\<rparr>)"
  define k1 where "k1 = notify_all_locked K k0 (ExitOf ?t)"
  define k2 where "k2 = k1\<lparr>k_exited := k_exited k1 @ [?t]\<rparr>"
  define k3 where "k3 = snd (notify_one_locked K k2 WaitForExit)"
  have run: "state_of k ?t = Running" and al: "alive k ?t" using s sched_preD(1) by (auto simp: sched_inv_def)
  have task: "the_task k0 u = (if u = ?t then (the_task k u)\<lparr>tk_state := Exited, tk_exit_code := e\<rparr> else the_task k u)" for u
    using al by (simp add: k0_def the_task_set_state)
  have sel: "k_wq k0 = k_wq k" "k_timers k0 = k_timers k" "k_now k0 = k_now k" "k_idle k0 = k_idle k" "\<And>u. alive k0 u = alive k u"
    by (simp_all add: k0_def)
  have pre0: "sched_pre rd k0"
    unfolding k0_def using sched_inv_stop [OF s idle, of Exited] by (simp add: sched_pre_flags)
  have inv0: "wait_inv tm k0 c"
    by (rule wait_inv_change [OF inv, where t = ?t])
      (use current_flags [OF s inv code] code run wait_invD(2-4) [OF inv] in \<open>auto simp: task sel task_ok_def\<close>)
  have w1: "woken_from k0 k1" unfolding k1_def by (rule notify_all_locked_woken)
  have j1: "join_inv k1"
    unfolding join_inv_def
  proof (intro allI impI)
    fix u v
    assume m: "u \<in> set (k_wq k1 (ExitOf v))"
    then have "v \<noteq> ?t" by (auto simp: k1_def)
    moreover have "u \<in> set (k_wq k (ExitOf v))" using woken_fromD(2) [OF w1 m] by (simp add: sel)
    ultimately have "state_of k0 v \<noteq> Exited" using j by (simp add: join_inv_def task)
    then show "state_of k1 v \<noteq> Exited" using woken_fromD(1) [OF w1, of v] by auto
  qed
  have k2: "sched_pre rd k2" "wait_inv tm k2 c" "join_inv k2"
    using notify_all_locked_inv(1) [OF K inv0] notify_all_locked_inv(2) [OF K pre0] j1
    by (simp_all add: k2_def k1_def wait_inv_def join_inv_def)
  have w3: "woken_from k2 k3" unfolding k3_def by (rule notify_one_locked_inv(5) [OF K])
  have k3: "sched_pre rd k3" "wait_inv tm k3 c" "join_inv k3" using notify_one_locked_inv(1,2,4) [OF K] k2 by (simp_all add: k3_def)
  have eq: "exit_current K k e = (Ok True, resched K k3 False)"
    using run idle init by (simp add: exit_current_def is_running_def Let_def notify_exit_def k0_def k1_def k2_def k3_def)
  note same = resched_inv(2) [OF K k3(1), of False]
  have k12: "the_task k2 u = the_task k1 u" "alive k2 u = alive k1 u" "k_wq k2 = k_wq k1" for u by (simp_all add: k2_def)
  have wk: "k_wq (resched K k3 False) = k_wq k3" using same by (simp add: same_waiting_def)
  have "evolves ?t k1 k2" by (rule evolvesI) (simp_all add: k12, simp_all add: k2_def)
  then have ke: "evolves ?t k0 (resched K k3 False)"
    by (rule evolves_same [OF same evolves_trans [OF evolves_trans [OF evolves_woken [OF w1]] evolves_woken [OF w3]]])
  show thesis
  proof (rule that [OF eq resched_inv(1) [OF K k3(1)]])
    show "wait_inv tm (resched K k3 False) c" "join_inv (resched K k3 False)" using k3 wait_inv_same [OF same] by simp_all
    show "evolves (k_current k) k (resched K k3 False)"
      by (rule evolves_trans [OF evolvesI ke]) (use run in \<open>auto simp: task sel split: if_splits\<close>, simp_all add: k0_def)
    show "alive (resched K k3 False) ?t" "state_of (resched K k3 False) ?t = Exited"
      "tk_exit_code (the_task (resched K k3 False) ?t) = e"
      using evolvesD(2-4) [OF ke, of ?t] al by (simp_all add: task sel)
    have "set (k_wq k3 (ExitOf ?t)) \<subseteq> set (k_wq k1 (ExitOf ?t))" using w3 by (auto simp: woken_from_def k12)
    then show "k_wq (resched K k3 False) (ExitOf ?t) = []" by (simp add: wk k1_def)
    show "state_of (resched K k3 False) t \<noteq> Blocked" if "t \<in> set (k_wq k (ExitOf ?t))" for t
      using notify_all_locked_awake [of t k0 "ExitOf ?t" K] that woken_fromD(1) [OF w3, of t]
      by (auto simp: same_waitingD [OF same] k12 sel k1_def)
  qed
qed

text \<open>A new task, under any other name than the one of the idle task.\<close>

lemma spawn_task_inv:
  assumes K: "documented_kernel K rd tm" and s: "sched_inv rd k" and inv: "wait_inv tm k c" and name: "name \<noteq> ''idle''"
  obtains k' where "spawn_task K k name = (Ok (k_next k), k')" "sched_inv rd k'" "wait_inv tm k' c"
    "join_inv k \<Longrightarrow> join_inv k'" "evolves (k_current k) k k'" "alive k' (k_next k)"
proof -
  let ?t = "k_next k"
  define k1 where "k1 = snd (into_arc k (\<lambda>tid. task_new tid name))"
  define k' where "k' = k1\<lparr>k_sched := sc_add_task K (k_sched k) ?t\<rparr>"
  have pre: "sched_pre rd k" and run: "state_of k (k_current k) = Running" using s by (simp_all add: sched_inv_def)
  note d = sched_preD [OF pre]
  have fresh: "\<not> alive k ?t" "state_of k ?t = Exited" using d(7) [of ?t] not_alive_Exited by simp_all
  have task: "the_task k' u = (if u = ?t then (new_common (k_id_counter k))\<lparr>tk_is_idle := False\<rparr> else the_task k u)" for u
    using name by (simp add: k'_def k1_def into_arc_def the_task_def task_new_def)
  have al: "alive k' u \<longleftrightarrow> u = ?t \<or> alive k u" for u by (simp add: k'_def k1_def into_arc_def alive_def)
  have sel: "k_wq k' = k_wq k" "k_timers k' = k_timers k" "k_now k' = k_now k" "k_idle k' = k_idle k"
    "k_current k' = k_current k" "k_next k' = k_next k + 1" "k_sched k' = sc_add_task K (k_sched k) ?t"
    by (simp_all add: k'_def k1_def into_arc_def)
  have ne: "k_current k \<noteq> ?t" "k_idle k \<noteq> ?t" using d(1,3) fresh(1) by auto
  have eq: "spawn_task K k name = (Ok ?t, k')"
    by (simp add: spawn_task_def into_arc_def rq_add_task_def is_ready_def the_task_def task_new_def new_common_def k'_def k1_def)
  have "sched_pre rd k'"
  proof (rule sched_preI)
    fix u
    show "u = k_current k'" if "state_of k' u = Running"
      using that d(2) [of u] by (auto simp: task sel new_common_def split: if_splits)
    show "tk_is_idle (the_task k' u) \<longleftrightarrow> u = k_idle k'" using d(4) [of u] ne by (auto simp: task sel)
    show "count (rd (k_sched k')) u = of_bool (state_of k' u = Ready \<and> u \<noteq> k_idle k')"
      using d(6) [of u] fresh ne by (cases "u = ?t") (simp_all add: task sel new_common_def documented_kernelD [OF K])
    show "\<not> alive k' u" if "k_next k' \<le> u" using d(7) [of u] that by (simp add: al sel)
    show "state_of k' (k_idle k') = Ready" if "state_of k' (k_idle k') \<noteq> Running" using that d(5) ne by (auto simp: task sel)
  qed (use d(1,3) in \<open>simp_all add: al sel\<close>)
  then have "sched_inv rd k'" using run ne by (simp add: sched_inv_def task sel)
  moreover have "wait_inv tm k' c"
  proof (rule wait_inv_change [OF inv, where t = ?t])
    have ok: "task_ok (k_now k) (the_task k ?t) (deadlines (tm (k_timers k)) ?t) (c ?t)" by (rule wait_invD(1) [OF inv])
    have nf: "\<not> tk_in_wait_queue (the_task k ?t)" "\<not> tk_in_timer_list (the_task k ?t)" using fresh(1) flags_alive by blast+
    show "task_ok (k_now k') (the_task k' ?t) (deadlines (tm (k_timers k')) ?t) (c ?t)"
      using ok fresh(2) nf by (simp add: task sel task_ok_def new_common_def)
    show "tk_in_wait_queue (the_task k' ?t) \<longleftrightarrow> (\<exists>w. ?t \<in> set (k_wq k' w))"
      using nf wait_invD(4) [OF inv, of ?t] by (simp add: task sel new_common_def)
    show "waits_on (c ?t) w" if "?t \<in> set (k_wq k' w)" for w using that wait_invD(3) [OF inv, of ?t w] by (simp add: sel)
  qed (use wait_invD(2) [OF inv] ne in \<open>simp_all add: task sel\<close>)
  moreover have "join_inv k'" if "join_inv k" using that by (simp add: join_inv_def task sel new_common_def)
  moreover have "evolves (k_current k) k k'"
    unfolding evolves_def id_inv_def using fresh(1)
    by (auto simp: task al) (simp_all add: k'_def k1_def into_arc_def new_common_def)
  ultimately show thesis using that [OF eq] al by blast
qed

end
