(* ===== verification/Task_Safety.thy ===== *)
theory Task_Safety
  imports Task_Waiting
begin

text \<open>
  Safety of the task kernel over all interleavings of its operations with timer interrupts. Every task
  carries the point in the code where it goes on when it is scheduled (\<open>cont\<close>); a step is one
  operation of the current task, or an interrupt. The main results: exactly one task runs, the ready
  tasks are exactly those the scheduler holds, each once, a blocked task is always registered
  somewhere that will wake it, nobody sleeps on a task that has exited, and no assertion fails.
\<close>

section \<open>The system\<close>

type_synonym ('q, 't) ksys = "('q, 't) kernel \<times> (nat \<Rightarrow> cont)"

text \<open>
  The queues of joiners are only used by joining and exiting. The steps below use the queues of a set
  \<open>U\<close> of the others, and spawn tasks with names from a set \<open>N\<close>. A task spawned under the name of the idle
  task would be taken for it (\<open>idle_name_lost\<close> below), so the results name the hypothesis that \<open>N\<close> does
  not have it.
\<close>

definition user_queues :: "wq set" where
  "user_queues = {w. \<forall>u. w \<noteq> ExitOf u}"

inductive kstep :: "('q, 't) kernel_ops \<Rightarrow> wq set \<Rightarrow> string set \<Rightarrow> ('q, 't) ksys \<Rightarrow> ('q, 't) ksys \<Rightarrow> bool" for K U N where
  clock: "k_now k \<le> n \<Longrightarrow> kstep K U N (k, c) (k\<lparr>k_now := n\<rparr>, c)"
| alarm: "check_event K k = Some k' \<Longrightarrow> kstep K U N (k, c) (k', c)"
| tick: "kstep K U N (k, c) (scheduler_timer_tick K k, c)"
| priority: "kstep K U N (k, c) (snd (set_current_priority K k prio), c)"
| yield: "c (k_current k) = Code \<Longrightarrow> yield_current K k = (Ok (), k') \<Longrightarrow> kstep K U N (k, c) (k', c)"
| spawn: "name \<in> N \<Longrightarrow> spawn_task K k name = (Ok t, k') \<Longrightarrow> kstep K U N (k, c) (k', c)"
| exits: "c (k_current k) = Code \<Longrightarrow> exit_current K k e = (Ok True, k') \<Longrightarrow> kstep K U N (k, c) (k', c)"
| sleep: "c (k_current k) = Code \<Longrightarrow> rq_sleep_until K k d = (Ok (), k') \<Longrightarrow> kstep K U N (k, c) (k', c)"
| wait: "c (k_current k) = Code \<Longrightarrow> w \<in> U \<Longrightarrow> wait_block K k w = (Ok (), k') \<Longrightarrow>
    kstep K U N (k, c) (k', c(k_current k := WaitEnd w))"
| wait_end: "c (k_current k) = WaitEnd w \<Longrightarrow> w \<in> U \<Longrightarrow> kstep K U N (k, c) (cancel_events K k w, c(k_current k := Code))"
| until: "c (k_current k) \<in> {Code, UntilLoop w} \<Longrightarrow> w \<in> U \<Longrightarrow> wait_until_round K k w b = (Ok r, k') \<Longrightarrow>
    kstep K U N (k, c) (k', c(k_current k := if r then Code else UntilLoop w))"
| join: "c (k_current k) \<in> {Code, UntilLoop (ExitOf t)} \<Longrightarrow> join_round K k t = (Ok r, k') \<Longrightarrow>
    kstep K U N (k, c) (k', c(k_current k := if r then Code else UntilLoop (ExitOf t)))"
| timeout: "c (k_current k) = Code \<Longrightarrow> \<not> tk_is_idle (the_task k (k_current k)) \<Longrightarrow> w \<in> U \<Longrightarrow>
    kstep K U N (k, c) (wait_timeout_start K k dur, c(k_current k := TimeoutBlock w (k_now k + dur)))"
| timeout_block: "c (k_current k) = TimeoutBlock w d \<Longrightarrow> w \<in> U \<Longrightarrow> wait_block K k w = (Ok (), k') \<Longrightarrow>
    kstep K U N (k, c) (k', c(k_current k := TimeoutEnd w))"
| timeout_end: "c (k_current k) = TimeoutEnd w \<Longrightarrow> w \<in> U \<Longrightarrow>
    kstep K U N (k, c) (snd (wait_timeout_end K k w), c(k_current k := Code))"
| timeout_until: "c (k_current k) = Code \<Longrightarrow> \<not> tk_is_idle (the_task k (k_current k)) \<Longrightarrow> w \<in> U \<Longrightarrow>
    kstep K U N (k, c) (wait_timeout_start K k dur, c(k_current k := TimeoutLoop w (k_now k + dur)))"
| timeout_test: "c (k_current k) = TimeoutLoop w d \<Longrightarrow> w \<in> U \<Longrightarrow> wait_timeout_until_test K k w d = (r, k') \<Longrightarrow>
    kstep K U N (k, c) (k', c(k_current k := if r = None then TimeoutPoll w d else Code))"
| timeout_round: "c (k_current k) = TimeoutPoll w d \<Longrightarrow> w \<in> U \<Longrightarrow> wait_timeout_until_round K k w b = (Ok r, k') \<Longrightarrow>
    kstep K U N (k, c) (k', c(k_current k := if r = None then TimeoutLoop w d else Code))"
| notify_one: "w \<in> U \<Longrightarrow> kstep K U N (k, c) (snd (notify_one K k w), c)"
| notify_all: "w \<in> U \<Longrightarrow> kstep K U N (k, c) (notify_all K k w, c)"
| notify_task: "w \<in> U \<Longrightarrow> kstep K U N (k, c) (snd (notify_task K k w t), c)"

inductive kreach :: "('q, 't) kernel_ops \<Rightarrow> wq set \<Rightarrow> string set \<Rightarrow> ('q, 't) ksys \<Rightarrow> ('q, 't) ksys \<Rightarrow> bool" for K U N where
  kreach_refl: "kreach K U N s s"
| kreach_step: "kreach K U N s s' \<Longrightarrow> kstep K U N s' s'' \<Longrightarrow> kreach K U N s s''"

definition ksys_init :: "('q, 't) kernel_ops \<Rightarrow> 'q \<Rightarrow> 't \<Rightarrow> ('q, 't) ksys" where
  "ksys_init K q tms = (init_scheduler K q tms, \<lambda>_. Code)"

lemma user_queuesD: "w \<in> U \<Longrightarrow> U \<subseteq> user_queues \<Longrightarrow> w \<noteq> ExitOf u"
  by (auto simp: user_queues_def)

section \<open>The invariant\<close>

definition kinv :: "('q \<Rightarrow> nat multiset) \<Rightarrow> ('t \<Rightarrow> (nat \<times> nat) multiset) \<Rightarrow> ('q, 't) ksys \<Rightarrow> bool" where
  "kinv rd tm s \<longleftrightarrow> sched_inv rd (fst s) \<and> wait_inv tm (fst s) (snd s) \<and> join_inv (fst s)"

lemma sched_inv_sched: "rd q = rd (k_sched k) \<Longrightarrow> sched_inv rd (k\<lparr>k_sched := q\<rparr>) = sched_inv rd k"
  by (simp add: sched_inv_def sched_pre_def)

lemma wait_inv_sched [simp]:
  "wait_inv tm (k\<lparr>k_sched := q\<rparr>) c = wait_inv tm k c" "join_inv (k\<lparr>k_sched := q\<rparr>) = join_inv k"
  "evolves t k (k\<lparr>k_sched := q\<rparr>)" "evolves t k (k\<lparr>k_now := n\<rparr>)" "join_inv (k\<lparr>k_now := n\<rparr>) = join_inv k"
  by (simp_all add: wait_inv_def join_inv_def evolves_def id_inv_def)

lemma wait_inv_clock: "wait_inv tm k c \<Longrightarrow> k_now k \<le> n \<Longrightarrow> wait_inv tm (k\<lparr>k_now := n\<rparr>) c"
  unfolding wait_inv_def using task_ok_mono by fastforce

lemma wait_block_not_idle: "wait_block K k w = (Ok x, k') \<Longrightarrow> \<not> tk_is_idle (the_task k (k_current k))"
  by (simp add: wait_block_def block_current_def Let_def split: if_splits)

text \<open>Blocking from a point of the code where it is allowed.\<close>

lemma block_step:
  assumes K: "documented_kernel K rd tm" and inv: "kinv rd tm (k, c)" and b: "wait_block K k w = (Ok x, k')"
    and d: "d = WaitEnd w \<and> c (k_current k) = Code \<or> d = UntilLoop w \<and> c (k_current k) \<in> {Code, UntilLoop w} \<or>
      (\<exists>n. d = TimeoutEnd w \<and> c (k_current k) = TimeoutBlock w n) \<or>
      (\<exists>n. d = TimeoutLoop w n \<and> c (k_current k) = TimeoutPoll w n)"
    and q: "\<And>u. w = ExitOf u \<Longrightarrow> state_of k u \<noteq> Exited"
  shows "kinv rd tm (k', c(k_current k := d)) \<and> evolves (k_current k) k k'"
proof -
  let ?t = "k_current k"
  have s: "sched_inv rd k" and w: "wait_inv tm k c" and j: "join_inv k" using inv by (simp_all add: kinv_def)
  have run: "state_of k ?t = Running" using s by (simp add: sched_inv_def)
  have ok: "task_ok (k_now k) (the_task k ?t) (deadlines (tm (k_timers k)) ?t) (c ?t)" by (rule wait_invD(1) [OF w])
  have free: "\<not> tk_in_wait_queue (the_task k ?t)" using ok d run by (auto simp: task_ok_def)
  have ok': "task_ok (k_now k) ((the_task k ?t)\<lparr>tk_state := Blocked, tk_in_wait_queue := True\<rparr>)
      (deadlines (tm (k_timers k)) ?t) d"
    using ok d run by (auto simp: task_ok_def)
  have on: "waits_on d w" using d by auto
  show ?thesis
    by (rule wait_block_inv [OF K s w wait_block_not_idle [OF b] free ok' on]) (use b j q in \<open>simp add: kinv_def\<close>)
qed

lemma cancel_step:
  assumes K: "documented_kernel K rd tm" and inv: "kinv rd tm (k, c)"
    and on: "c (k_current k) \<in> {Code, TimeoutPoll w d} \<or> waits_on (c (k_current k)) w"
  shows "kinv rd tm (cancel_events K k w, c(k_current k := Code)) \<and> evolves (k_current k) k (cancel_events K k w)"
proof -
  have s: "sched_inv rd k" and w: "wait_inv tm k c" and j: "join_inv k" using inv by (simp_all add: kinv_def)
  have "k_current k \<in> set (k_wq k w') \<Longrightarrow> w' = w" for w'
    using wait_invD(3) [OF w, of "k_current k" w'] on waits_on_unique by fastforce
  from cancel_events_inv [OF K s w this] show ?thesis using j by (simp add: kinv_def)
qed

text \<open>Every step keeps the invariant, and no step brings an exited task back.\<close>

lemma until_step:
  assumes K: "documented_kernel K rd tm" and inv: "kinv rd tm (k, c)" and c: "c (k_current k) \<in> {Code, UntilLoop w}"
    and r: "wait_until_round K k w b = (Ok r, k')" and q: "\<And>u. w = ExitOf u \<Longrightarrow> \<not> b \<Longrightarrow> state_of k u \<noteq> Exited"
  shows "kinv rd tm (k', c(k_current k := if r then Code else UntilLoop w)) \<and> evolves (k_current k) k k'"
proof (cases b)
  case True
  then show ?thesis using r cancel_step [OF K inv, of w] c by (auto simp: wait_until_round_def)
next
  case False
  then obtain x where "wait_block K k w = (Ok x, k')" "\<not> r" using r
    by (auto simp: wait_until_round_def split: outcome.splits prod.splits)
  then show ?thesis using block_step [OF K inv, of w x k' "UntilLoop w"] c q False by auto
qed

lemma timeout_round_step:
  assumes K: "documented_kernel K rd tm" and inv: "kinv rd tm (k, c)" and c: "c (k_current k) = TimeoutPoll w d"
    and w: "\<And>u. w \<noteq> ExitOf u" and r: "wait_timeout_until_round K k w b = (Ok r, k')"
  shows "kinv rd tm (k', c(k_current k := if r = None then TimeoutLoop w d else Code)) \<and> evolves (k_current k) k k'"
proof (cases b)
  case True
  then show ?thesis using r cancel_step [OF K inv, of w d] c by (auto simp: wait_timeout_until_round_def)
next
  case False
  then obtain x where "wait_block K k w = (Ok x, k')" "r = None" using r
    by (auto simp: wait_timeout_until_round_def split: outcome.splits prod.splits)
  then show ?thesis using block_step [OF K inv, of w x k' "TimeoutLoop w d"] c w by auto
qed

lemma timeout_test_step:
  assumes K: "documented_kernel K rd tm" and inv: "kinv rd tm (k, c)" and c: "c (k_current k) = TimeoutLoop w d"
    and r: "wait_timeout_until_test K k w d = (r, k')"
  shows "kinv rd tm (k', c(k_current k := if r = None then TimeoutPoll w d else Code)) \<and> evolves (k_current k) k k'"
proof (cases "k_now k < d")
  case False
  then show ?thesis using r cancel_step [OF K inv, of w d] c by (auto simp: wait_timeout_until_test_def)
next
  case True
  let ?t = "k_current k"
  have k': "k' = k" "r = None" using True r by (simp_all add: wait_timeout_until_test_def)
  have s: "sched_inv rd k" and w: "wait_inv tm k c" using inv by (simp_all add: kinv_def)
  have run: "state_of k ?t = Running" using s by (simp add: sched_inv_def)
  have ok: "task_ok (k_now k) (the_task k ?t) (deadlines (tm (k_timers k)) ?t) (c ?t)" by (rule wait_invD(1) [OF w])
  have free: "\<not> tk_in_wait_queue (the_task k ?t)" using ok c True run by (auto simp: task_ok_def)
  have "wait_inv tm k (c(?t := TimeoutPoll w d))"
    by (rule wait_inv_change [OF w, where t = ?t])
      (use ok c run free wait_invD(2,4,5) [OF w] in \<open>auto simp: task_ok_def\<close>)
  then show ?thesis using inv by (simp add: k' kinv_def)
qed

lemma woken_step:
  assumes "kinv rd tm (k, c)" and "woken_from k k'" and "sched_inv rd k'" and "wait_inv tm k' c" and "join_inv k'"
  shows "kinv rd tm (k', c) \<and> evolves (k_current k) k k'"
  using assms evolves_woken by (simp add: kinv_def)

lemma kstep_inv:
  assumes K: "documented_kernel K rd tm" and "kstep K U N s s'" and "kinv rd tm s" and U: "U \<subseteq> user_queues"
    and N: "''idle'' \<notin> N"
  shows "kinv rd tm s' \<and> evolves (k_current (fst s)) (fst s) (fst s')"
  using assms(2,3)
proof (induction rule: kstep.induct)
  case (clock k n c)
  then show ?case using wait_inv_clock [of tm k c n] by (simp add: kinv_def)
next
  case (alarm k k' c)
  then show ?case using check_event_inv [OF K, of k c k'] by (simp add: kinv_def)
next
  case (tick k c)
  then show ?case
    by (simp add: kinv_def scheduler_timer_tick_def sched_inv_sched documented_kernelD [OF K])
next
  case (priority k c prio)
  then show ?case using documented_kernelD(4) [OF K, of "k_sched k" "k_current k" prio]
    by (simp add: kinv_def set_current_priority_def sched_inv_sched case_prod_beta)
next
  case (yield c k k')
  have pre: "sched_pre rd k" using yield.prems by (simp add: kinv_def sched_inv_def)
  have k': "k' = resched K k False" using yield.hyps(2) by (simp add: yield_current_def split: if_splits)
  note r = resched_inv [OF K pre, of False]
  show ?case using yield.prems r(1) wait_inv_same [OF r(2)] evolves_same [OF r(2) evolves_refl]
    by (simp add: kinv_def k')
next
  case (spawn name k t k' c)
  have s: "sched_inv rd k" and w: "wait_inv tm k c" and j: "join_inv k" using spawn.prems by (simp_all add: kinv_def)
  have "name \<noteq> ''idle''" using spawn.hyps(1) N by auto
  then show ?case by (rule spawn_task_inv [OF K s w]) (use spawn.hyps(2) j in \<open>simp add: kinv_def\<close>)
next
  case (exits c k e k')
  have s: "sched_inv rd k" and w: "wait_inv tm k c" and j: "join_inv k" using exits.prems by (simp_all add: kinv_def)
  have n: "\<not> tk_is_idle (the_task k (k_current k))" "\<not> tk_is_init (the_task k (k_current k))"
    using exits.hyps(2) by (auto simp: exit_current_def Let_def split: if_splits)
  show ?case by (rule exit_current_inv [OF K s w j exits.hyps(1) n, of e]) (use exits.hyps(2) in \<open>simp add: kinv_def\<close>)
next
  case (sleep c k d k')
  have s: "sched_inv rd k" and w: "wait_inv tm k c" and j: "join_inv k" using sleep.prems by (simp_all add: kinv_def)
  have n: "\<not> tk_is_idle (the_task k (k_current k))"
    using sleep.hyps(2) by (auto simp: rq_sleep_until_def Let_def split: if_splits)
  show ?case by (rule sleep_until_inv [OF K s w sleep.hyps(1) n, of d]) (use sleep.hyps(2) j in \<open>simp add: kinv_def\<close>)
next
  case (wait c k w k')
  show ?case using block_step [OF K wait.prems wait.hyps(3), of "WaitEnd w"] wait.hyps(1)
      user_queuesD [OF wait.hyps(2) U] by simp
next
  case (wait_end c k w)
  show ?case using cancel_step [OF K wait_end.prems, of w] wait_end.hyps by simp
next
  case (until c k w b r k')
  show ?case using until_step [OF K until.prems until.hyps(1,3)] user_queuesD [OF until.hyps(2) U] by simp
next
  case (join c k t r k')
  show ?case using until_step [OF K join.prems join.hyps(1) join.hyps(2) [unfolded join_round_def]] by simp
next
  case (timeout c k w dur)
  have s: "sched_inv rd k" and w: "wait_inv tm k c" and j: "join_inv k" using timeout.prems by (simp_all add: kinv_def)
  show ?case using wait_timeout_start_inv [OF K s w timeout.hyps(1,2), of "TimeoutBlock w (k_now k + dur)" w dur] j by (simp add: kinv_def)
next
  case (timeout_block c k w d k')
  show ?case using block_step [OF K timeout_block.prems timeout_block.hyps(3), of "TimeoutEnd w"] timeout_block.hyps(1)
      user_queuesD [OF timeout_block.hyps(2) U] by simp
next
  case (timeout_end c k w)
  show ?case using cancel_step [OF K timeout_end.prems, of w] timeout_end.hyps by (simp add: wait_timeout_end_def)
next
  case (timeout_until c k w dur)
  have s: "sched_inv rd k" and w: "wait_inv tm k c" and j: "join_inv k" using timeout_until.prems by (simp_all add: kinv_def)
  show ?case using wait_timeout_start_inv [OF K s w timeout_until.hyps(1,2), of "TimeoutLoop w (k_now k + dur)" w dur] j
    by (simp add: kinv_def)
next
  case (timeout_test c k w d r k')
  show ?case using timeout_test_step [OF K timeout_test.prems timeout_test.hyps(1,3)] by simp
next
  case (timeout_round c k w d b r k')
  show ?case using timeout_round_step [OF K timeout_round.prems timeout_round.hyps(1) user_queuesD [OF timeout_round.hyps(2) U] timeout_round.hyps(3)] by simp
next
  case (notify_one w k c)
  then show ?case
    using woken_step [OF notify_one.prems notify_one_locked_inv(5) [OF K, of k w]] notify_one_locked_inv(1) [OF K, of k c w]
      notify_one_locked_inv(3,4) [OF K, of k w]
    by (auto simp: notify_one_def kinv_def)
next
  case (notify_all w k c)
  then show ?case
    using woken_step [OF notify_all.prems notify_all_locked_woken [of k K w]] notify_all_locked_inv(1) [OF K, of k c w]
      notify_all_locked_inv(3,4) [OF K, of k w]
    by (auto simp: notify_all_def kinv_def)
next
  case (notify_task w k c t)
  then show ?case
    using woken_step [OF notify_task.prems notify_task_inv(4) [OF K, of k w t]] notify_task_inv(1) [OF K, of k c w t]
      notify_task_inv(2,3) [OF K, of k w t]
    by (auto simp: kinv_def)
qed

definition keeps_exited :: "('q, 't) kernel \<Rightarrow> ('q, 't) kernel \<Rightarrow> bool" where
  "keeps_exited k k' \<longleftrightarrow> (\<forall>u. alive k u \<longrightarrow> alive k' u \<and> (state_of k u = Exited \<longrightarrow>
       state_of k' u = Exited \<and> tk_exit_code (the_task k' u) = tk_exit_code (the_task k u)))"

lemma keeps_exited_evolves:
  assumes "keeps_exited k k'" and "evolves t k' k''"
  shows "keeps_exited k k''"
  unfolding keeps_exited_def
proof (intro allI impI conjI)
  fix u
  assume "alive k u"
  then have a: "alive k' u" and x: "state_of k u = Exited \<Longrightarrow> state_of k' u = Exited"
    "state_of k u = Exited \<Longrightarrow> tk_exit_code (the_task k' u) = tk_exit_code (the_task k u)"
    using assms(1) by (simp_all add: keeps_exited_def)
  show "alive k'' u" by (rule evolvesD(2) [OF assms(2) a])
  show "state_of k'' u = Exited" "tk_exit_code (the_task k'' u) = tk_exit_code (the_task k u)" if "state_of k u = Exited"
    using evolvesD(3,4) [OF assms(2) a x(1) [OF that]] x(2) [OF that] by simp_all
qed

lemma kreach_inv:
  assumes K: "documented_kernel K rd tm" and "kreach K U N s s'" and "kinv rd tm s" and U: "U \<subseteq> user_queues"
    and N: "''idle'' \<notin> N"
  shows "kinv rd tm s' \<and> keeps_exited (fst s) (fst s')"
  using assms(2,3)
proof (induction rule: kreach.induct)
  case (kreach_refl s)
  then show ?case by (simp add: keeps_exited_def)
next
  case (kreach_step s s' s'')
  then have "kinv rd tm s'" "keeps_exited (fst s) (fst s')" by blast+
  then show ?case using kstep_inv [OF K kreach_step.hyps(2) _ U N] keeps_exited_evolves by blast
qed

lemma init_task:
  "the_task (init_scheduler K q l) 0 = task_new 1 ''idle''"
  "the_task (init_scheduler K q l) (Suc 0) = (task_new_init 2 ''main'')\<lparr>tk_state := Running\<rparr>"
  "the_task (init_scheduler K q l) 2 = task_new 3 ''gc''"
  "alive (init_scheduler K q l) t \<longleftrightarrow> t < 3"
  by (auto simp: init_scheduler_def into_arc_def Let_def set_task_def the_task_def alive_def numeral_2_eq_2)

lemmas init_states = init_task(1-3) task_new_def task_new_init_def new_common_def

lemma init_sel [simp]:
  "k_current (init_scheduler K q l) = 1" "k_idle (init_scheduler K q l) = 0" "k_next (init_scheduler K q l) = 3"
  "k_sched (init_scheduler K q l) = sc_add_task K q 2" "k_wq (init_scheduler K q l) w = []"
  "k_timers (init_scheduler K q l) = l" "k_now (init_scheduler K q l) = 0"
  by (simp_all add: init_scheduler_def into_arc_def Let_def numeral_2_eq_2)

lemma init_inv:
  assumes K: "documented_kernel K rd tm" and "rd q = {#}" and "tm l = {#}"
  shows "kinv rd tm (ksys_init K q l)"
proof -
  let ?k = "init_scheduler K q l"
  have cases: "t = 0 \<or> t = 1 \<or> t = 2 \<or> \<not> alive ?k t" for t unfolding init_task(4) by linarith
  have flags: "\<not> tk_in_wait_queue (the_task ?k t) \<and> \<not> tk_in_timer_list (the_task ?k t) \<and> state_of ?k t \<noteq> Blocked" for t
  proof (cases "alive ?k t")
    case False
    then show ?thesis using flags_alive [of ?k t] not_alive_Exited [of ?k t] by auto
  next
    case True
    then have "t = 0 \<or> t = 1 \<or> t = 2" using cases [of t] by blast
    then show ?thesis by (elim disjE; simp add: init_states)
  qed
  have st: "state_of ?k t = (if t = 0 then Ready else if t = 1 then Running else if t = 2 then Ready else Exited)"
    and idle: "tk_is_idle (the_task ?k t) \<longleftrightarrow> t = 0" for t
    using cases [of t] not_alive_Exited [of ?k t] flags_alive(3) [of ?k t] by (auto simp: init_states)
  have "sched_inv rd ?k"
    by (auto simp: sched_inv_def sched_pre_def st idle init_task(4) documented_kernelD [OF K] assms(2))
  moreover have "wait_inv tm ?k (\<lambda>_. Code)"
    by (rule wait_invI) (simp_all add: task_ok_def flags [THEN conjunct1] flags [THEN conjunct2, THEN conjunct1] flags [THEN conjunct2, THEN conjunct2] deadlines_def assms(3))
  ultimately show ?thesis by (simp add: kinv_def ksys_init_def join_inv_def)
qed

section \<open>Results\<close>

lemma blocked_registered:
  assumes "task_ok n x (deadlines m t) d" and "tk_state x = Blocked" and "\<not> tk_in_wait_queue x"
  shows "\<exists>d. (d, t) \<in># m"
proof -
  have "deadlines m t \<noteq> {#}" using assms by (auto simp: task_ok_def)
  then obtain d where "d \<in># deadlines m t" by auto
  then show ?thesis by (auto simp: deadlines_def)
qed

lemma reachable_inv:
  assumes "documented_kernel K rd tm" and "rd q = {#}" and "tm l = {#}" and "kreach K user_queues N (ksys_init K q l) s"
    and "''idle'' \<notin> N"
  shows "kinv rd tm s"
  using kreach_inv [OF assms(1,4) _ _ assms(5)] init_inv [OF assms(1-3)] by blast

text \<open>
  A kernel with a list of ready tasks served in order and a list of alarms.
\<close>

definition fifo_ops :: "(nat list, (nat \<times> nat) list) kernel_ops" where
  "fifo_ops = \<lparr>sc_add_task = (\<lambda>q t. q @ [t]), sc_put_prev_task = (\<lambda>q t p. q @ [t]),
     sc_pick_next_task = (\<lambda>q. case q of [] \<Rightarrow> (None, []) | t # r \<Rightarrow> (Some t, r)),
     sc_task_tick = (\<lambda>q t. (False, q)), sc_set_priority = (\<lambda>q t p. (p = 0, q)),
     tl_set = (\<lambda>l d t. l @ [(d, t)]), tl_cancel = (\<lambda>l P. filter (\<lambda>e. \<not> P (snd e)) l),
     tl_expire_one = (\<lambda>l now. case filter (\<lambda>e. fst e \<le> now) l of [] \<Rightarrow> (None, l) | e # _ \<Rightarrow> (Some e, remove1 e l))\<rparr>"

lemma fifo_documented: "documented_kernel fifo_ops mset mset"
proof -
  have e: "e \<in> set l \<and> fst e \<le> now" if "filter (\<lambda>e. fst e \<le> now) l = e # r" for l r now and e :: "nat \<times> nat"
  proof -
    have "e \<in> set (filter (\<lambda>e. fst e \<le> now) l)" using that by simp
    then show ?thesis by simp
  qed
  show ?thesis
    unfolding documented_kernel_def
    by (intro conjI allI)
      (auto simp: fifo_ops_def filter_empty_conv not_le mset_filter dest: e split: list.split)
qed

text \<open>Of a switch: the task left is ready, blocked, or exited and listed as such.\<close>

lemma resched_sel [simp]:
  "k_exited (resched K k p) = k_exited k" "k_idle (resched K k p) = k_idle k" "k_timers (resched K k p) = k_timers k"
  "k_wq (resched K k p) = k_wq k"
  by (simp_all add: resched_def switch_to_def Let_def split: prod.split)

lemma notify_exited [simp]:
  "k_exited (snd (notify_one_locked K k w)) = k_exited k" "k_current (snd (notify_one_locked K k w)) = k_current k"
  by (simp_all add: notify_one_locked_def split: list.split)

lemma cancel_events_current [simp]: "k_current (cancel_events K k w) = k_current k"
  by (simp add: cancel_events_def cancel_alarm_def Let_def)

lemma stopped_resched:
  assumes "documented_kernel K rd tm" and "sched_pre rd k" and "state_of k t \<noteq> Exited"
  shows "state_of (resched K k p) t \<noteq> Exited"
  using same_waitingD(2) [OF resched_inv(2) [OF assms(1,2)]] assms(3) by simp

lemma wait_block_not_Exited:
  assumes K: "documented_kernel K rd tm" and s: "sched_inv rd k" and b: "wait_block K k w = (Ok x, k')"
  shows "state_of k' (k_current k) \<noteq> Exited"
proof -
  let ?k = "push_waiter w (set_state k (k_current k) Blocked) (k_current k)"
  have k': "k' = resched K ?k False" using b by (simp add: wait_block_def block_current_def Let_def split: if_splits)
  have al: "alive k (k_current k)" using s by (simp add: sched_inv_def sched_pre_def)
  have "sched_pre rd (set_state k (k_current k) Blocked)"
    by (rule sched_inv_stop [OF s wait_block_not_idle [OF b]]) simp_all
  then have "sched_pre rd ?k" by (simp add: push_waiter_def sched_pre_flags)
  moreover have "state_of ?k (k_current k) \<noteq> Exited" using al by (simp add: push_waiter_def the_task_set_task)
  ultimately show ?thesis unfolding k' by (rule stopped_resched [OF K])
qed

lemma sleep_not_Exited:
  assumes K: "documented_kernel K rd tm" and s: "sched_inv rd k" and b: "rq_sleep_until K k d = (Ok x, k')"
    and sw: "k_current k' \<noteq> k_current k"
  shows "state_of k' (k_current k) \<noteq> Exited"
proof -
  let ?k = "set_state (set_alarm_wakeup K k d (k_current k)) (k_current k) Blocked"
  have idle: "\<not> tk_is_idle (the_task k (k_current k))" and k': "k' = resched K ?k False"
    using b sw by (auto simp: rq_sleep_until_def Let_def split: if_splits)
  have al: "alive k (k_current k)" using s by (simp add: sched_inv_def sched_pre_def)
  have s': "sched_inv rd (set_alarm_wakeup K k d (k_current k))"
    using s by (simp add: set_alarm_wakeup_sched)
  have "sched_pre rd ?k"
    using sched_inv_stop [OF s', of Blocked] idle al by (simp add: set_alarm_wakeup_def the_task_set_task)
  moreover have "state_of ?k (k_current k) \<noteq> Exited" using al by (simp add: set_alarm_wakeup_def the_task_set_task)
  ultimately show ?thesis unfolding k' by (rule stopped_resched [OF K])
qed

lemma until_round_cases:
  assumes "wait_until_round K k w b = (Ok r, k')"
  obtains "k' = cancel_events K k w" | x where "wait_block K k w = (Ok x, k')"
  using assms by (auto simp: wait_until_round_def split: if_splits outcome.splits prod.splits)

lemma timeout_round_cases:
  assumes "wait_timeout_until_round K k w b = (Ok r, k')"
  obtains "k' = cancel_events K k w" | x where "wait_block K k w = (Ok x, k')"
  using assms by (auto simp: wait_timeout_until_round_def split: if_splits outcome.splits prod.splits)

lemma exit_listed:
  assumes "exit_current K k e = (Ok True, k')"
  shows "k_current k \<in> set (k_exited k')"
  using assms by (auto simp: exit_current_def Let_def split: if_splits)

lemma switched_exited:
  assumes K: "documented_kernel K rd tm" and "kstep K U N s s'" and "kinv rd tm s"
    and "k_current (fst s') \<noteq> k_current (fst s)" and "state_of (fst s') (k_current (fst s)) = Exited"
  shows "k_current (fst s) \<in> set (k_exited (fst s'))"
  using assms(2-)
proof (induction rule: kstep.induct)
  case (alarm k k' c)
  then show ?case by (auto simp: check_event_def wakeup_callback_def split: prod.splits option.splits)
next
  case (yield c k k')
  have s: "sched_pre rd k" "state_of k (k_current k) \<noteq> Exited" using yield.prems(1) by (simp_all add: kinv_def sched_inv_def)
  then show ?case using yield stopped_resched [OF K s] by (auto simp: yield_current_def split: if_splits)
next
  case (spawn name k t k' c)
  then show ?case
    by (auto simp: spawn_task_def into_arc_def rq_add_task_def split: if_splits)
next
  case (exits c k e k')
  then show ?case using exit_listed by simp
next
  case (sleep c k d k')
  then show ?case using sleep_not_Exited [OF K, of k d "()" k'] by (simp add: kinv_def)
next
  case (wait c k w k')
  then show ?case using wait_block_not_Exited [OF K, of k w "()" k'] by (simp add: kinv_def)
next
  case (until c k w b r k')
  show ?case using until.hyps(3)
    by (cases rule: until_round_cases) (use until.prems wait_block_not_Exited [OF K, of k w] in \<open>auto simp: kinv_def\<close>)
next
  case (join c k t r k')
  show ?case using join.hyps(2) [unfolded join_round_def]
    by (cases rule: until_round_cases) (use join.prems wait_block_not_Exited [OF K, of k "ExitOf t"] in \<open>auto simp: kinv_def\<close>)
next
  case (timeout_block c k w d k')
  then show ?case using wait_block_not_Exited [OF K, of k w "()" k'] by (simp add: kinv_def)
next
  case (timeout_test c k w d r k')
  then show ?case by (auto simp: wait_timeout_until_test_def split: if_splits)
next
  case (timeout_round c k w d b r k')
  show ?case using timeout_round.hyps(3)
    by (cases rule: timeout_round_cases) (use timeout_round.prems wait_block_not_Exited [OF K, of k w] in \<open>auto simp: kinv_def\<close>)
next
  case (notify_one w k c)
  then show ?case by (auto simp: notify_one_def split: if_splits)
next
  case (notify_all w k c)
  then show ?case using notify_all_locked_woken [of k K w] by (simp add: notify_all_def woken_from_def)
next
  case (notify_task w k c t)
  then show ?case by (auto simp: notify_task_def split: if_splits)
qed (simp_all add: scheduler_timer_tick_def set_current_priority_def wait_timeout_start_def set_alarm_wakeup_def
    wait_timeout_end_def case_prod_beta split: if_splits)

lemma switch_held:
  assumes K: "documented_kernel K rd tm" and st: "kstep K user_queues N (k, c) (k', c')" and inv: "kinv rd tm (k, c)"
    and N: "''idle'' \<notin> N" and sw: "k_current k' \<noteq> k_current k"
  shows "still_held rd tm k' (k_current k)"
proof -
  let ?t = "k_current k"
  have inv': "sched_inv rd k'" "wait_inv tm k' c'"
    using kstep_inv [OF K st inv _ N] by (simp_all add: kinv_def)
  then have pre: "sched_pre rd k'" by (simp add: sched_inv_def)
  have not_run: "state_of k' ?t \<noteq> Running" using sched_preD(2) [OF pre, of ?t] sw by metis
  show ?thesis
  proof (cases "state_of k' ?t")
    case Ready
    then have "?t \<noteq> k_idle k' \<Longrightarrow> count (rd (k_sched k')) ?t = 1" using sched_preD(6) [OF pre, of ?t] by simp
    then show ?thesis by (metis count_eq_zero_iff still_held_def zero_neq_one)
  next
    case Blocked
    then show ?thesis
      using blocked_registered [OF wait_invD(1) [OF inv'(2), of ?t]] wait_invD(4) [OF inv'(2), of ?t]
      by (auto simp: still_held_def)
  next
    case Exited
    then show ?thesis using switched_exited [OF K st inv] sw by (simp add: still_held_def)
  qed (use not_run in simp)
qed

text \<open>
  C1. As long as no task is spawned under the name \<^verbatim>\<open>idle\<close>, in every state the task kernel can reach,
  through any interleaving of its operations with the clock and with timer interrupts: exactly the
  current task runs; the scheduler holds exactly the ready tasks, each once, and never the idle task; a
  blocked task is in a wait queue or has a pending alarm; no task is queued twice; nobody is queued on a
  task that has exited; the operations that assert that the current task runs and is not the idle task
  do not panic; and after every switch to another task the one left is still held somewhere, as the
  assertion on its reference count demands.
\<close>

theorem kernel_safe:
  assumes "documented_kernel K rd tm" and "rd q = {#}" and "tm l = {#}" and "kreach K user_queues N (ksys_init K q l) (k, c)"
    and "''idle'' \<notin> N"
  shows "(\<forall>t. state_of k t = Running \<longleftrightarrow> t = k_current k) \<and>
    (\<forall>t. count (rd (k_sched k)) t = of_bool (state_of k t = Ready \<and> t \<noteq> k_idle k)) \<and>
    (\<forall>t. state_of k t = Blocked \<longrightarrow> (\<exists>w. t \<in> set (k_wq k w)) \<or> (\<exists>d. (d, t) \<in># tm (k_timers k))) \<and>
    (\<forall>w. distinct (k_wq k w)) \<and> (\<forall>t w w'. t \<in> set (k_wq k w) \<and> t \<in> set (k_wq k w') \<longrightarrow> w = w') \<and>
    (\<forall>t u. t \<in> set (k_wq k (ExitOf u)) \<longrightarrow> state_of k u \<noteq> Exited) \<and>
    fst (yield_current K k) = Ok () \<and>
    (k_current k \<noteq> k_idle k \<longrightarrow> (\<forall>w d e. fst (wait_block K k w) = Ok () \<and> fst (rq_sleep_until K k d) = Ok () \<and>
      fst (exit_current K k e) \<noteq> Panic)) \<and>
    (\<forall>k' c'. kstep K user_queues N (k, c) (k', c') \<and> k_current k' \<noteq> k_current k \<longrightarrow> still_held rd tm k' (k_current k))"
proof (intro conjI allI impI)
  have s: "sched_inv rd k" and w: "wait_inv tm k c" and j: "join_inv k"
    using reachable_inv [OF assms] by (simp_all add: kinv_def)
  show "still_held rd tm k' (k_current k)"
    if "kstep K user_queues N (k, c) (k', c') \<and> k_current k' \<noteq> k_current k" for k' c'
    using that switch_held [OF assms(1) _ reachable_inv [OF assms] assms(5)] by blast
  have pre: "sched_pre rd k" and run: "state_of k (k_current k) = Running" using s by (simp_all add: sched_inv_def)
  show "state_of k t = Running \<longleftrightarrow> t = k_current k" for t using sched_preD(2) [OF pre, of t] run by blast
  show "count (rd (k_sched k)) t = of_bool (state_of k t = Ready \<and> t \<noteq> k_idle k)" for t by (rule sched_preD(6) [OF pre])
  show "distinct (k_wq k v)" for v by (rule wait_invD(2) [OF w])
  show "v = v'" if "t \<in> set (k_wq k v) \<and> t \<in> set (k_wq k v')" for t v v'
    using wait_invD(3) [OF w, of t v] wait_invD(3) [OF w, of t v'] that waits_on_unique [of "c t" v v'] by simp
  show "state_of k u \<noteq> Exited" if "t \<in> set (k_wq k (ExitOf u))" for t u using j that by (simp add: join_inv_def)
  show "fst (yield_current K k) = Ok ()" using run by (simp add: yield_current_def is_running_def)
  have "\<not> tk_is_idle (the_task k (k_current k))" if "k_current k \<noteq> k_idle k"
    using that sched_preD(4) [OF pre, of "k_current k"] by simp
  then show "fst (wait_block K k v) = Ok ()" "fst (rq_sleep_until K k d) = Ok ()" "fst (exit_current K k e) \<noteq> Panic"
    if "k_current k \<noteq> k_idle k" for v d e
    using run that by (simp_all add: wait_block_def block_current_def rq_sleep_until_def exit_current_def is_running_def Let_def)
  show "(\<exists>v. t \<in> set (k_wq k v)) \<or> (\<exists>d. (d, t) \<in># tm (k_timers k))" if "state_of k t = Blocked" for t
    using blocked_registered [OF wait_invD(1) [OF w, of t] that] wait_invD(4) [OF w, of t] by blast
qed

text \<open>
  The main task spawns a task and joins it; the task that frees exited ones goes to wait; the spawned
  task exits with code 7.
\<close>

definition example_spawned :: "(nat list, (nat \<times> nat) list) kernel" where
  "example_spawned = snd (spawn_task fifo_ops (init_scheduler fifo_ops [] []) ''t'')"
definition example_joining :: "(nat list, (nat \<times> nat) list) kernel" where
  "example_joining = snd (join_round fifo_ops example_spawned 3)"
definition example_running :: "(nat list, (nat \<times> nat) list) kernel" where
  "example_running = snd (wait_block fifo_ops example_joining WaitForExit)"
definition example_exited :: "(nat list, (nat \<times> nat) list) kernel" where
  "example_exited = snd (exit_current fifo_ops example_running 7)"
definition example_cont :: "nat \<Rightarrow> cont" where
  "example_cont = (\<lambda>_. Code)(1 := UntilLoop (ExitOf 3), 2 := WaitEnd WaitForExit)"

lemma example_spawned_eq: "spawn_task fifo_ops (init_scheduler fifo_ops [] []) ''t'' = (Ok 3, example_spawned)"
  unfolding example_spawned_def by (rule prod_eqI) (code_simp, simp)
lemma example_joining_eq: "join_round fifo_ops example_spawned 3 = (Ok False, example_joining)"
  unfolding example_joining_def by (rule prod_eqI) (code_simp, simp)
lemma example_running_eq: "wait_block fifo_ops example_joining WaitForExit = (Ok (), example_running)"
  unfolding example_running_def by (rule prod_eqI) (code_simp, simp)
lemma example_exited_eq: "exit_current fifo_ops example_running 7 = (Ok True, example_exited)"
  unfolding example_exited_def by (rule prod_eqI) (code_simp, simp)
lemma example_current: "k_current example_spawned = 1" "k_current example_joining = 2" "k_current example_running = 3"
  "k_idle example_running = 0"
  by code_simp+

lemma example_reach: "kreach fifo_ops user_queues {''t''} (ksys_init fifo_ops [] []) (example_running, example_cont)"
proof -
  let ?U = user_queues and ?c = "\<lambda>_. Code"
  have "kstep fifo_ops ?U {''t''} (init_scheduler fifo_ops [] [], ?c) (example_spawned, ?c)"
    by (rule kstep.spawn [OF _ example_spawned_eq]) simp
  moreover have "kstep fifo_ops ?U {''t''} (example_spawned, ?c) (example_joining, ?c(1 := UntilLoop (ExitOf 3)))"
    using kstep.join [where K = fifo_ops and U = ?U and N = "{''t''}" and c = ?c, OF _ example_joining_eq] by (simp add: example_current)
  moreover have "kstep fifo_ops ?U {''t''} (example_joining, ?c(1 := UntilLoop (ExitOf 3))) (example_running, example_cont)"
    using kstep.wait [where K = fifo_ops and U = ?U and N = "{''t''}" and c = "?c(1 := UntilLoop (ExitOf 3))", OF _ _ example_running_eq]
    by (simp add: example_current user_queues_def example_cont_def)
  ultimately show ?thesis unfolding ksys_init_def by (rule kreach_step [OF kreach_step [OF kreach_step [OF kreach_refl]]])
qed

theorem kernel_safe_witness:
  "k_current example_running = 3 \<and> (\<forall>t. state_of example_running t = Running \<longleftrightarrow> t = 3) \<and>
   state_of example_running 1 = Blocked \<and> (\<exists>w. 1 \<in> set (k_wq example_running w)) \<and>
   fst (exit_current fifo_ops example_running 7) \<noteq> Panic \<and> still_held mset mset example_exited 3"
proof -
  note safe = kernel_safe [OF fifo_documented _ _ example_reach, simplified]
  have "kstep fifo_ops user_queues {''t''} (example_running, example_cont) (example_exited, example_cont)"
    by (rule kstep.exits [OF _ example_exited_eq]) (simp add: example_current example_cont_def)
  moreover have "k_current example_exited \<noteq> 3" by code_simp
  ultimately have "still_held mset mset example_exited 3" using safe [unfolded example_current(3)] by blast
  moreover have "state_of example_running 1 = Blocked" "1 \<in> set (k_wq example_running (ExitOf 3))" by code_simp+
  ultimately show ?thesis using safe example_current by auto
qed

text \<open>
  C38. What the name \<^verbatim>\<open>idle\<close> does to a task that is not the idle task: the task spawned under it is
  ready and held by the scheduler, but flagged as the idle one. When such a task runs and yields to
  another, it is made ready without being given back to the scheduler: if nothing else holds it then
  nothing does afterwards, and the assertion of the switch fails of a ready task.
\<close>

theorem idle_name_lost:
  assumes "documented_kernel K rd tm" and "k_current k \<noteq> k_idle k" and "tk_is_idle (the_task k (k_current k))"
    and "\<not> still_held rd tm k (k_current k)" and "yield_current K k = (Ok (), k')" and "k_current k' \<noteq> k_current k"
  shows "(\<forall>k0 t k1. spawn_task K k0 ''idle'' = (Ok t, k1) \<longrightarrow>
      tk_is_idle (the_task k1 t) \<and> state_of k1 t = Ready \<and> t \<in># rd (k_sched k1)) \<and>
    state_of k' (k_current k) = Ready \<and> \<not> still_held rd tm k' (k_current k)"
proof (intro conjI allI impI)
  fix k0 t k1
  assume "spawn_task K k0 ''idle'' = (Ok t, k1)"
  then show "tk_is_idle (the_task k1 t)" "state_of k1 t = Ready" "t \<in># rd (k_sched k1)"
    by (auto simp: spawn_task_def into_arc_def rq_add_task_def is_ready_def the_task_def task_new_def new_common_def
        documented_kernelD(1) [OF assms(1)] split: if_splits)
next
  let ?t = "k_current k"
  define k1 where "k1 = put_back K k False"
  have run: "state_of k ?t = Running" and k': "k' = resched K k False"
    using assms(5) by (auto simp: yield_current_def is_running_def split: if_splits)
  have al: "alive k ?t" using run not_alive_Exited [of k ?t] by auto
  have k1: "k_sched k1 = k_sched k" "state_of k1 ?t = Ready"
    using assms(3) run by (simp_all add: k1_def put_back_sched put_back_task [OF al])
  obtain n q where pick: "k' = switch_to (k1\<lparr>k_sched := q\<rparr>) n" and sub: "set_mset (rd q) \<subseteq> set_mset (rd (k_sched k))"
  proof (cases rule: documented_pick [OF assms(1), of "k_sched k1"])
    case (1 q')
    show ?thesis by (rule that [of q' "k_idle k1"]) (use 1 in \<open>simp_all add: k' resched_def Let_def flip: k1_def\<close>)
  next
    case (2 x q')
    show ?thesis
      by (rule that [of q' x]) (use 2 k1(1) in \<open>simp_all add: k' resched_def Let_def flip: k1_def\<close>, blast)
  qed
  have "n \<noteq> ?t" using assms(6) by (simp add: pick switch_to_def)
  then show "state_of k' ?t = Ready" using k1(2) by (simp add: pick switch_to_def the_task_set_task)
  show "\<not> still_held rd tm k' ?t"
    using assms(4) sub by (auto simp: still_held_def pick switch_to_def k1_def)
qed

text \<open>The main task spawns a task named \<^verbatim>\<open>idle\<close>; the task that frees exited ones goes to wait; the spawned one runs.\<close>

definition example_idle_spawned :: "(nat list, (nat \<times> nat) list) kernel" where
  "example_idle_spawned = snd (spawn_task fifo_ops (init_scheduler fifo_ops [] []) ''idle'')"
definition example_idle_yielded :: "(nat list, (nat \<times> nat) list) kernel" where
  "example_idle_yielded = snd (yield_current fifo_ops example_idle_spawned)"
definition example_misnamed :: "(nat list, (nat \<times> nat) list) kernel" where
  "example_misnamed = snd (wait_block fifo_ops example_idle_yielded WaitForExit)"

lemma example_misnamed_wq: "k_wq example_misnamed = (\<lambda>_. [])(WaitForExit := [2])"
proof -
  have "is_running example_idle_spawned (k_current example_idle_spawned)" by code_simp
  then have y: "k_wq example_idle_yielded = k_wq example_idle_spawned"
    by (simp add: example_idle_yielded_def yield_current_def)
  have s: "k_wq example_idle_spawned = (\<lambda>_. [])"
    by (rule ext) (simp add: example_idle_spawned_def spawn_task_def into_arc_def rq_add_task_def)
  have "is_running example_idle_yielded (k_current example_idle_yielded)"
    "\<not> tk_is_idle (the_task example_idle_yielded (k_current example_idle_yielded))" "k_current example_idle_yielded = 2"
    by code_simp+
  then show ?thesis
    using y s by (simp add: example_misnamed_def wait_block_def block_current_def push_waiter_def Let_def)
qed

theorem idle_name_lost_witness:
  "k_current example_misnamed = 3 \<and> fst (yield_current fifo_ops example_misnamed) = Ok () \<and>
   state_of (snd (yield_current fifo_ops example_misnamed)) 3 = Ready \<and>
   \<not> still_held mset mset (snd (yield_current fifo_ops example_misnamed)) 3"
proof -
  have e: "k_current example_misnamed = 3" "k_idle example_misnamed = 0" "tk_is_idle (the_task example_misnamed 3)"
    "3 \<notin> set (k_sched example_misnamed)" "k_timers example_misnamed = []" "k_exited example_misnamed = []"
    "fst (yield_current fifo_ops example_misnamed) = Ok ()"
    "k_current (snd (yield_current fifo_ops example_misnamed)) \<noteq> 3" by code_simp+
  then have "\<not> still_held mset mset example_misnamed 3" by (simp add: still_held_def example_misnamed_wq)
  moreover have "yield_current fifo_ops example_misnamed = (Ok (), snd (yield_current fifo_ops example_misnamed))"
    using e(7) by (metis prod.collapse)
  ultimately show ?thesis using idle_name_lost [OF fifo_documented, of example_misnamed] e by simp
qed

text \<open>
  C11. Joining: when a task exits with a code, every task that was joining it is woken, and in every
  state reached afterwards, whatever runs in between, a join of that task returns at once, with that
  code, and nobody is asleep on it.
\<close>

theorem join_exit_code:
  assumes "documented_kernel K rd tm" and "rd q = {#}" and "tm l = {#}" and "kreach K user_queues N (ksys_init K q l) (k, c)"
    and "c (k_current k) = Code" and "exit_current K k e = (Ok True, k')" and "kreach K user_queues N (k', c) (k2, c2)"
    and "''idle'' \<notin> N"
  shows "(\<forall>t \<in> set (k_wq k (ExitOf (k_current k))). state_of k' t \<noteq> Blocked) \<and>
    fst (join_round K k2 (k_current k)) = Ok True \<and> join_value k2 (k_current k) = Some e \<and>
    k_wq k2 (ExitOf (k_current k)) = []"
proof -
  let ?t = "k_current k"
  have inv: "kinv rd tm (k, c)" by (rule reachable_inv [OF assms(1-4,8)])
  then have s: "sched_inv rd k" and w: "wait_inv tm k c" and j: "join_inv k" by (simp_all add: kinv_def)
  have n: "\<not> tk_is_idle (the_task k ?t)" "\<not> tk_is_init (the_task k ?t)"
    using assms(6) by (auto simp: exit_current_def Let_def split: if_splits)
  have x: "alive k' ?t" "state_of k' ?t = Exited" "tk_exit_code (the_task k' ?t) = e" "kinv rd tm (k', c)"
    "\<forall>t \<in> set (k_wq k (ExitOf ?t)). state_of k' t \<noteq> Blocked"
    using exit_current_inv [OF assms(1) s w j assms(5) n, of e] assms(6) by (simp_all add: kinv_def) blast+
  have later: "kinv rd tm (k2, c2)" "keeps_exited k' k2" using kreach_inv [OF assms(1,7) x(4) _ assms(8)] by simp_all
  then have ex: "state_of k2 ?t = Exited" "tk_exit_code (the_task k2 ?t) = e" using x(1-3) by (simp_all add: keeps_exited_def)
  have "t \<notin> set (k_wq k2 (ExitOf ?t))" for t using later(1) ex(1) by (auto simp: kinv_def join_inv_def)
  then have "set (k_wq k2 (ExitOf ?t)) = {}" by (intro equals0I) simp
  then show ?thesis using ex x(5) by (simp add: join_round_def wait_until_round_def join_value_def)
qed

theorem join_exit_code_witness:
  "fst (join_round fifo_ops example_exited 3) = Ok True \<and> join_value example_exited 3 = Some 7 \<and>
   1 \<in> set (k_wq example_running (ExitOf 3)) \<and> state_of example_exited 1 \<noteq> Blocked"
proof -
  have c: "example_cont (k_current example_running) = Code" by (simp add: example_current example_cont_def)
  have "1 \<in> set (k_wq example_running (ExitOf 3))" by code_simp
  then show ?thesis
    using join_exit_code [OF fifo_documented _ _ example_reach c example_exited_eq kreach_refl] example_current by simp
qed

text \<open>
  C37. The alarm of a timed wait is lost when it fires between the moment it is set and the moment the
  task blocks: the task then blocks, although its deadline has passed, with no alarm pending.
\<close>

theorem wait_timeout_lost:
  assumes "documented_kernel K rd tm" and "rd q = {#}" and "tm l = {#}" and "kreach K user_queues N (ksys_init K q l) (k, c)"
    and "''idle'' \<notin> N" and "c (k_current k) = TimeoutBlock w d" and "\<not> tk_in_timer_list (the_task k (k_current k))"
  shows "d \<le> k_now k \<and> (\<exists>k'. wait_block K k w = (Ok (), k') \<and> state_of k' (k_current k) = Blocked \<and>
    (\<forall>d. (d, k_current k) \<notin># tm (k_timers k')))"
proof -
  let ?t = "k_current k"
  have s: "sched_inv rd k" and w: "wait_inv tm k c"
    using reachable_inv [OF assms(1-5)] by (simp_all add: kinv_def)
  have ok: "task_ok (k_now k) (the_task k ?t) (deadlines (tm (k_timers k)) ?t) (TimeoutBlock w d)"
    using wait_invD(1) [OF w, of ?t] assms(6) by simp
  then have free: "\<not> tk_in_wait_queue (the_task k ?t)" and no: "deadlines (tm (k_timers k)) ?t = {#}"
    and late: "d \<le> k_now k"
    using assms(7) by (simp_all add: task_ok_def)
  have none: "(d, ?t) \<notin># tm (k_timers k)" for d using no by (force simp: deadlines_def)
  have ok': "task_ok (k_now k) ((the_task k ?t)\<lparr>tk_state := Blocked, tk_in_wait_queue := True\<rparr>)
      (deadlines (tm (k_timers k)) ?t) (TimeoutEnd w)" using no assms(7) by (simp add: task_ok_def)
  have idle: "\<not> tk_is_idle (the_task k ?t)" using current_idle [OF s w] assms(6) by simp
  show ?thesis
    by (rule wait_block_inv [OF assms(1) s w idle free ok', of w]) (use none late in \<open>simp_all\<close>)
qed

text \<open>The main task calls a wait of at most 5 ticks; the alarm fires before it blocks.\<close>

definition example_timed :: "(nat list, (nat \<times> nat) list) kernel" where
  "example_timed = (wait_timeout_start fifo_ops (init_scheduler fifo_ops [] []) 5)\<lparr>k_now := 5\<rparr>"
definition example_fired :: "(nat list, (nat \<times> nat) list) kernel" where
  "example_fired = wakeup_callback fifo_ops (example_timed\<lparr>k_timers := []\<rparr>) 1"

lemma example_fired_reach:
  "kreach fifo_ops user_queues {''t''} (ksys_init fifo_ops [] []) (example_fired, (\<lambda>_. Code)(1 := TimeoutBlock (Other 0) 5))"
proof -
  let ?k = "init_scheduler fifo_ops [] []" and ?c = "(\<lambda>_. Code)(1 := TimeoutBlock (Other 0) 5)"
  have "kreach fifo_ops user_queues {''t''} (ksys_init fifo_ops [] []) (wait_timeout_start fifo_ops ?k 5, ?c)"
    using kreach_step [OF kreach_refl kstep.timeout [where c = "\<lambda>_. Code" and k = ?k and w = "Other 0" and K = fifo_ops and U = user_queues and N = "{''t''}" and dur = 5]]
    by (simp add: ksys_init_def user_queues_def init_states)
  then have "kreach fifo_ops user_queues {''t''} (ksys_init fifo_ops [] []) (example_timed, ?c)"
    unfolding example_timed_def by (rule kreach_step [OF _ kstep.clock]) (simp add: wait_timeout_start_def)
  moreover have "tl_expire_one fifo_ops (k_timers example_timed) (k_now example_timed) = (Some (5, 1), [])" by code_simp
  then have "check_event fifo_ops example_timed = Some example_fired"
    by (simp add: check_event_def example_fired_def)
  ultimately show ?thesis by (rule kreach_step [OF _ kstep.alarm])
qed

theorem wait_timeout_lost_witness:
  "k_now example_fired = 5 \<and> (\<exists>k'. wait_block fifo_ops example_fired (Other 0) = (Ok (), k') \<and> state_of k' 1 = Blocked \<and>
     (\<forall>d. (d, 1) \<notin># mset (k_timers k')))"
proof -
  have "k_current example_fired = 1" "k_now example_fired = 5" "\<not> tk_in_timer_list (the_task example_fired 1)" by code_simp+
  then show ?thesis using wait_timeout_lost [OF fifo_documented _ _ example_fired_reach, of "Other 0"] by simp
qed

end
