(* ===== verification/Sleep_Mutex.thy ===== *)
theory Sleep_Mutex
  imports Task_Safety
begin

text \<open>
  The sleeping mutex of \<^verbatim>\<open>axsync/src/mutex.rs\<close>, over the task kernel: locking is a loop of attempts to
  claim the owner field and of waits on the queue of the mutex; unlocking clears the field and then
  notifies one waiter. Between any two of these, and while a task sleeps, the rest of the kernel runs.
  The results: mutual exclusion, no failing assertion, and no lost wake-up.
\<close>

section \<open>The mutex\<close>

record 'a mutex =
  mx_wq :: wq
  mx_owner_id :: u64
  mx_data :: 'a

definition mutex_new :: "wq \<Rightarrow> 'a \<Rightarrow> 'a mutex" where
  "mutex_new w d = \<lparr>mx_wq = w, mx_owner_id = 0, mx_data = d\<rparr>"

definition mutex_into_inner :: "'a mutex \<Rightarrow> 'a" where
  "mutex_into_inner m = mx_data m"

definition is_locked :: "'a mutex \<Rightarrow> bool" where
  "is_locked m = (mx_owner_id m \<noteq> 0)"

definition current_id :: "('q, 't) kernel \<Rightarrow> u64" where
  "current_id k = tk_id (the_task k (k_current k))"

text \<open>
  One attempt of \<open>lock\<close>: a weak compare-and-exchange, which may fail although the field is 0
  (\<open>spurious\<close>), and the assertion on failure. When it fails, the task waits on the queue, in rounds.
\<close>

definition lock_attempt :: "('q, 't) kernel \<Rightarrow> 'a mutex \<Rightarrow> bool \<Rightarrow> (unit, bool) outcome \<times> 'a mutex" where
  "lock_attempt k m spurious =
    (if mx_owner_id m = 0 \<and> \<not> spurious then (Ok True, m\<lparr>mx_owner_id := current_id k\<rparr>)
     else if mx_owner_id m = current_id k then (Panic, m)
     else (Ok False, m))"

definition lock_wait ::
    "('q, 't) kernel_ops \<Rightarrow> ('q, 't) kernel \<Rightarrow> 'a mutex \<Rightarrow> (unit, bool) outcome \<times> ('q, 't) kernel" where
  "lock_wait K k m = wait_until_round K k (mx_wq m) (\<not> is_locked m)"

definition mutex_try_lock :: "('q, 't) kernel \<Rightarrow> 'a mutex \<Rightarrow> bool \<times> 'a mutex" where
  "mutex_try_lock k m =
    (if mx_owner_id m = 0 then (True, m\<lparr>mx_owner_id := current_id k\<rparr>) else (False, m))"

text \<open>\<open>force_unlock\<close>: the field is cleared, the old value checked, then one waiter is notified.\<close>

definition unlock_release :: "('q, 't) kernel \<Rightarrow> 'a mutex \<Rightarrow> (unit, unit) outcome \<times> 'a mutex" where
  "unlock_release k m = (if mx_owner_id m = current_id k then Ok () else Panic, m\<lparr>mx_owner_id := 0\<rparr>)"

definition unlock_notify :: "('q, 't) kernel_ops \<Rightarrow> ('q, 't) kernel \<Rightarrow> 'a mutex \<Rightarrow> ('q, 't) kernel" where
  "unlock_notify K k m = snd (notify_one K k (mx_wq m))"

definition force_unlock ::
    "('q, 't) kernel_ops \<Rightarrow> ('q, 't) kernel \<Rightarrow> 'a mutex \<Rightarrow> (unit, unit) outcome \<times> 'a mutex \<times> ('q, 't) kernel" where
  "force_unlock K k m =
    (case unlock_release k m of (Ok _, m') \<Rightarrow> (Ok (), m', unlock_notify K k m') | (r, m') \<Rightarrow> (r, m', k))"

text \<open>The guard: reading and writing through it, and dropping it.\<close>

definition guard_deref :: "'a mutex \<Rightarrow> 'a" where
  "guard_deref m = mx_data m"

definition guard_deref_mut :: "'a mutex \<Rightarrow> ('a \<Rightarrow> 'a) \<Rightarrow> 'a mutex" where
  "guard_deref_mut m f = m\<lparr>mx_data := f (mx_data m)\<rparr>"

definition guard_drop ::
    "('q, 't) kernel_ops \<Rightarrow> ('q, 't) kernel \<Rightarrow> 'a mutex \<Rightarrow> (unit, unit) outcome \<times> 'a mutex \<times> ('q, 't) kernel" where
  "guard_drop K k m = force_unlock K k m"

section \<open>The system\<close>

text \<open>Where a task is: outside, about to attempt, waiting, holding the mutex, or about to notify.\<close>

datatype mpc = Out | Try | Wait | Hold | Notify

record ('q, 't, 'a) msys =
  ms_k :: "('q, 't) kernel"
  ms_c :: "nat \<Rightarrow> cont"
  ms_m :: "'a mutex"
  ms_pc :: "nat \<Rightarrow> mpc"

text \<open>
  The rest of the kernel, whose steps do not use the queue of the mutex, runs while the current task
  is outside or holds the mutex; interrupts come at any time. Fewer than \<open>2^64 - 1\<close> tasks are created.
\<close>

inductive mstep :: "('q, 't) kernel_ops \<Rightarrow> string set \<Rightarrow> ('q, 't, 'a) msys \<Rightarrow> ('q, 't, 'a) msys \<Rightarrow> bool" for K N where
  other: "pc (k_current k) \<in> {Out, Hold} \<Longrightarrow> kstep K (user_queues - {mx_wq m}) N (k, c) (k', c') \<Longrightarrow> k_next k' < 2 ^ 64 - 1 \<Longrightarrow>
    mstep K N \<lparr>ms_k = k, ms_c = c, ms_m = m, ms_pc = pc\<rparr> \<lparr>ms_k = k', ms_c = c', ms_m = m, ms_pc = pc\<rparr>"
| clocks: "k_now k \<le> n \<Longrightarrow>
    mstep K N \<lparr>ms_k = k, ms_c = c, ms_m = m, ms_pc = pc\<rparr> \<lparr>ms_k = k\<lparr>k_now := n\<rparr>, ms_c = c, ms_m = m, ms_pc = pc\<rparr>"
| alarms: "check_event K k = Some k' \<Longrightarrow>
    mstep K N \<lparr>ms_k = k, ms_c = c, ms_m = m, ms_pc = pc\<rparr> \<lparr>ms_k = k', ms_c = c, ms_m = m, ms_pc = pc\<rparr>"
| lock: "pc (k_current k) = Out \<Longrightarrow> c (k_current k) = Code \<Longrightarrow> \<not> tk_is_idle (the_task k (k_current k)) \<Longrightarrow>
    mstep K N \<lparr>ms_k = k, ms_c = c, ms_m = m, ms_pc = pc\<rparr> \<lparr>ms_k = k, ms_c = c, ms_m = m, ms_pc = pc(k_current k := Try)\<rparr>"
| attempt: "pc (k_current k) = Try \<Longrightarrow> lock_attempt k m spurious = (Ok r, m') \<Longrightarrow>
    mstep K N \<lparr>ms_k = k, ms_c = c, ms_m = m, ms_pc = pc\<rparr>
      \<lparr>ms_k = k, ms_c = c, ms_m = m', ms_pc = pc(k_current k := if r then Hold else Wait)\<rparr>"
| waits: "pc (k_current k) = Wait \<Longrightarrow> lock_wait K k m = (Ok r, k') \<Longrightarrow>
    mstep K N \<lparr>ms_k = k, ms_c = c, ms_m = m, ms_pc = pc\<rparr>
      \<lparr>ms_k = k', ms_c = c(k_current k := if r then Code else UntilLoop (mx_wq m)), ms_m = m,
       ms_pc = pc(k_current k := if r then Try else Wait)\<rparr>"
| tries: "pc (k_current k) = Out \<Longrightarrow> c (k_current k) = Code \<Longrightarrow> mutex_try_lock k m = (r, m') \<Longrightarrow>
    mstep K N \<lparr>ms_k = k, ms_c = c, ms_m = m, ms_pc = pc\<rparr>
      \<lparr>ms_k = k, ms_c = c, ms_m = m', ms_pc = pc(k_current k := if r then Hold else Out)\<rparr>"
| access: "pc (k_current k) = Hold \<Longrightarrow> c (k_current k) = Code \<Longrightarrow>
    mstep K N \<lparr>ms_k = k, ms_c = c, ms_m = m, ms_pc = pc\<rparr> \<lparr>ms_k = k, ms_c = c, ms_m = guard_deref_mut m f, ms_pc = pc\<rparr>"
| release: "pc (k_current k) = Hold \<Longrightarrow> c (k_current k) = Code \<Longrightarrow> unlock_release k m = (Ok (), m') \<Longrightarrow>
    mstep K N \<lparr>ms_k = k, ms_c = c, ms_m = m, ms_pc = pc\<rparr> \<lparr>ms_k = k, ms_c = c, ms_m = m', ms_pc = pc(k_current k := Notify)\<rparr>"
| notifies: "pc (k_current k) = Notify \<Longrightarrow>
    mstep K N \<lparr>ms_k = k, ms_c = c, ms_m = m, ms_pc = pc\<rparr>
      \<lparr>ms_k = unlock_notify K k m, ms_c = c, ms_m = m, ms_pc = pc(k_current k := Out)\<rparr>"

inductive mreach :: "('q, 't) kernel_ops \<Rightarrow> string set \<Rightarrow> ('q, 't, 'a) msys \<Rightarrow> ('q, 't, 'a) msys \<Rightarrow> bool" for K N where
  mreach_refl: "mreach K N s s"
| mreach_step: "mreach K N s s' \<Longrightarrow> mstep K N s' s'' \<Longrightarrow> mreach K N s s''"

definition msys_init :: "('q, 't) kernel_ops \<Rightarrow> 'q \<Rightarrow> 't \<Rightarrow> nat \<Rightarrow> 'a \<Rightarrow> ('q, 't, 'a) msys" where
  "msys_init K q l n d = \<lparr>ms_k = init_scheduler K q l, ms_c = (\<lambda>_. Code), ms_m = mutex_new (Other n) d, ms_pc = (\<lambda>_. Out)\<rparr>"

section \<open>What the rest of the kernel leaves alone\<close>

lemma notify_all_locked_wq: "w' \<noteq> w \<Longrightarrow> k_wq (notify_all_locked K k w) w' = k_wq k w'"
  using notify_all_locked_induct [of "\<lambda>k'. k_wq k' w' = k_wq k w'" k w K] by simp

lemma notify_one_locked_wq: "w' \<noteq> w \<Longrightarrow> k_wq (snd (notify_one_locked K k w)) w' = k_wq k w'"
  by (simp add: notify_one_locked_wake split: list.split)

lemma wait_block_wq: "w' \<noteq> w \<Longrightarrow> k_wq (snd (wait_block K k w)) w' = k_wq k w'"
  by (simp add: wait_block_def block_current_def Let_def)

lemma cancel_events_wq: "w' \<noteq> w \<Longrightarrow> k_wq (cancel_events K k w) w' = k_wq k w'"
  by (simp add: cancel_events_def cancel_alarm_def Let_def)

lemma wait_until_round_wq: "w' \<noteq> w \<Longrightarrow> k_wq (snd (wait_until_round K k w b)) w' = k_wq k w'"
  using wait_block_wq [of w' w K k]
  by (cases "wait_block K k w") (simp add: wait_until_round_def cancel_events_wq split: outcome.split)

lemma wait_timeout_until_round_wq: "w' \<noteq> w \<Longrightarrow> k_wq (snd (wait_timeout_until_round K k w b)) w' = k_wq k w'"
  using wait_block_wq [of w' w K k]
  by (cases "wait_block K k w") (simp add: wait_timeout_until_round_def cancel_events_wq split: outcome.split)

lemma exit_current_wq: "k_wq (snd (exit_current K k e)) (Other n) = k_wq k (Other n)"
  by (simp add: exit_current_def Let_def notify_one_locked_wq notify_all_locked_wq notify_exit_def)

lemma plain_wq:
  "k_wq (snd (yield_current K k)) = k_wq k" "k_wq (snd (spawn_task K k name)) = k_wq k"
  "k_wq (snd (rq_sleep_until K k d)) = k_wq k" "check_event K k = Some k' \<Longrightarrow> k_wq k' = k_wq k"
  "k_wq (scheduler_timer_tick K k) = k_wq k" "k_wq (snd (set_current_priority K k p)) = k_wq k"
  "k_wq (wait_timeout_start K k dur) = k_wq k"
  by (auto simp: yield_current_def spawn_task_def into_arc_def rq_add_task_def rq_sleep_until_def Let_def check_event_def
      scheduler_timer_tick_def set_current_priority_def wait_timeout_start_def split: outcome.splits prod.splits option.splits)

lemmas frame_wq = plain_wq exit_current_wq wait_block_wq cancel_events_wq wait_until_round_wq wait_timeout_until_round_wq
  notify_one_locked_wq notify_all_locked_wq

lemma kstep_cont:
  assumes "kstep K U N s s'" and "Other n \<notin> U"
  shows "(t \<noteq> k_current (fst s) \<longrightarrow> snd s' t = snd s t) \<and> (snd s' t = snd s t \<or> \<not> waits_on (snd s' t) (Other n))"
  using assms by (induction rule: kstep.induct) auto

lemma kstep_wq:
  assumes "kstep K U N s s'" and "Other n \<notin> U"
  shows "k_wq (fst s') (Other n) = k_wq (fst s) (Other n)"
  using assms
proof (induction rule: kstep.induct)
  case (yield c k k')
  then show ?case using plain_wq(1) [of K k] by simp
next
  case (spawn name k t k' c)
  then show ?case using plain_wq(2) [of K k name] by simp
next
  case (exits c k e k')
  then show ?case using exit_current_wq [of K k e n] by simp
next
  case (sleep c k d k')
  then show ?case using plain_wq(3) [of K k d] by simp
next
  case (wait c k w k')
  then show ?case using wait_block_wq [of "Other n" w K k] by auto
next
  case (timeout_block c k w k')
  then show ?case using wait_block_wq [of "Other n" w K k] by auto
next
  case (until c k w b r k')
  then show ?case using wait_until_round_wq [of "Other n" w K k b] by auto
next
  case (join c k t r k')
  then show ?case using wait_until_round_wq [of "Other n" "ExitOf t" K k "state_of k t = Exited"] by (simp add: join_round_def)
next
  case (timeout_round c k w d b r k')
  then show ?case using wait_timeout_until_round_wq [of "Other n" w K k b] by auto
next
  case (timeout_test c k w d r k')
  then show ?case using cancel_events_wq [of "Other n" w K k] by (auto simp: wait_timeout_until_test_def split: if_splits)
qed (auto simp: plain_wq wait_timeout_end_def notify_one_def notify_all_def notify_task_wake
    intro!: cancel_events_wq notify_one_locked_wq notify_all_locked_wq)

section \<open>The invariant\<close>

abbreviation busy :: "mpc \<Rightarrow> bool" where
  "busy p \<equiv> p \<in> {Try, Wait, Notify}"

definition minv :: "('q \<Rightarrow> nat multiset) \<Rightarrow> ('t \<Rightarrow> (nat \<times> nat) multiset) \<Rightarrow> nat \<Rightarrow> ('q, 't, 'a) msys \<Rightarrow> bool" where
  "minv rd tm n s \<longleftrightarrow> kinv rd tm (ms_k s, ms_c s) \<and> id_inv (ms_k s) \<and> k_next (ms_k s) < 2 ^ 64 - 1 \<and> mx_wq (ms_m s) = Other n \<and>
    (\<forall>t. ms_pc s t = Hold \<longrightarrow> alive (ms_k s) t \<and> mx_owner_id (ms_m s) = tk_id (the_task (ms_k s) t)) \<and>
    (mx_owner_id (ms_m s) \<noteq> 0 \<longrightarrow> (\<exists>t. ms_pc s t = Hold)) \<and>
    (\<forall>t. waits_on (ms_c s t) (Other n) \<longrightarrow> ms_c s t = UntilLoop (Other n) \<and> ms_pc s t = Wait) \<and>
    (\<forall>t. busy (ms_pc s t) \<longrightarrow> ms_c s t = Code \<or> ms_pc s t = Wait \<and> ms_c s t = UntilLoop (Other n)) \<and>
    (\<forall>t. busy (ms_pc s t) \<longrightarrow> alive (ms_k s) t \<and> state_of (ms_k s) t \<noteq> Exited \<and>
       (state_of (ms_k s) t = Blocked \<longrightarrow> t \<in> set (k_wq (ms_k s) (Other n)))) \<and>
    (mx_owner_id (ms_m s) = 0 \<and> k_wq (ms_k s) (Other n) \<noteq> [] \<longrightarrow>
       (\<exists>u. busy (ms_pc s u) \<and> u \<notin> set (k_wq (ms_k s) (Other n))))"

lemma minvD:
  assumes "minv rd tm n s"
  shows "kinv rd tm (ms_k s, ms_c s)" "id_inv (ms_k s)" "k_next (ms_k s) < 2 ^ 64 - 1" "mx_wq (ms_m s) = Other n"
    "ms_pc s t = Hold \<Longrightarrow> alive (ms_k s) t" "ms_pc s t = Hold \<Longrightarrow> mx_owner_id (ms_m s) = tk_id (the_task (ms_k s) t)"
    "mx_owner_id (ms_m s) \<noteq> 0 \<Longrightarrow> \<exists>t. ms_pc s t = Hold"
    "waits_on (ms_c s t) (Other n) \<Longrightarrow> ms_c s t = UntilLoop (Other n) \<and> ms_pc s t = Wait"
    "busy (ms_pc s t) \<Longrightarrow> ms_c s t = Code \<or> ms_pc s t = Wait \<and> ms_c s t = UntilLoop (Other n)"
    "busy (ms_pc s t) \<Longrightarrow> alive (ms_k s) t" "busy (ms_pc s t) \<Longrightarrow> state_of (ms_k s) t \<noteq> Exited"
    "busy (ms_pc s t) \<Longrightarrow> state_of (ms_k s) t = Blocked \<Longrightarrow> t \<in> set (k_wq (ms_k s) (Other n))"
    "mx_owner_id (ms_m s) = 0 \<Longrightarrow> k_wq (ms_k s) (Other n) \<noteq> [] \<Longrightarrow> \<exists>u. busy (ms_pc s u) \<and> u \<notin> set (k_wq (ms_k s) (Other n))"
  using assms unfolding minv_def by blast+

lemma minvI:
  assumes "kinv rd tm (ms_k s, ms_c s)" "id_inv (ms_k s)" "k_next (ms_k s) < 2 ^ 64 - 1" "mx_wq (ms_m s) = Other n"
    "\<And>t. ms_pc s t = Hold \<Longrightarrow> alive (ms_k s) t \<and> mx_owner_id (ms_m s) = tk_id (the_task (ms_k s) t)"
    "mx_owner_id (ms_m s) \<noteq> 0 \<Longrightarrow> \<exists>t. ms_pc s t = Hold"
    "\<And>t. waits_on (ms_c s t) (Other n) \<Longrightarrow> ms_c s t = UntilLoop (Other n) \<and> ms_pc s t = Wait"
    "\<And>t. busy (ms_pc s t) \<Longrightarrow> ms_c s t = Code \<or> ms_pc s t = Wait \<and> ms_c s t = UntilLoop (Other n)"
    "\<And>t. busy (ms_pc s t) \<Longrightarrow> alive (ms_k s) t \<and> state_of (ms_k s) t \<noteq> Exited \<and>
       (state_of (ms_k s) t = Blocked \<longrightarrow> t \<in> set (k_wq (ms_k s) (Other n)))"
    "mx_owner_id (ms_m s) = 0 \<Longrightarrow> k_wq (ms_k s) (Other n) \<noteq> [] \<Longrightarrow> \<exists>u. busy (ms_pc s u) \<and> u \<notin> set (k_wq (ms_k s) (Other n))"
  shows "minv rd tm n s"
  using assms unfolding minv_def by blast

text \<open>Task identities tell tasks apart, and none is 0.\<close>

lemma ids:
  assumes "id_inv k" and "k_next k < 2 ^ 64 - 1" and "kinv rd tm (k, c)" and "alive k t"
  shows "tk_id (the_task k t) \<noteq> 0" and "alive k u \<Longrightarrow> tk_id (the_task k u) = tk_id (the_task k t) \<Longrightarrow> u = t"
proof -
  have pre: "sched_pre rd k" using assms(3) by (simp add: kinv_def sched_inv_def)
  have lt: "v < k_next k" if "alive k v" for v using that sched_preD(7) [OF pre, of v] not_le by blast
  have un: "unat (tk_id (the_task k v)) = v + 1" if "alive k v" for v
  proof -
    have "tk_id (the_task k v) = of_nat (v + 1)" using that assms(1) by (simp add: id_inv_def)
    then show ?thesis using lt [OF that] assms(2) by (simp only: unat_of_nat) simp
  qed
  show "tk_id (the_task k t) \<noteq> 0" using un [OF assms(4)] by auto
  show "u = t" if "alive k u" "tk_id (the_task k u) = tk_id (the_task k t)" using un [OF assms(4)] un [OF that(1)] that(2) by simp
qed

text \<open>Steps that leave the mutex and its queue alone.\<close>

lemma minv_quiet:
  assumes inv: "minv rd tm n \<lparr>ms_k = k, ms_c = c, ms_m = m, ms_pc = pc\<rparr>" and ev: "evolves v k k'" and v: "\<not> busy (pc v)"
    and wq: "k_wq k' (Other n) = k_wq k (Other n)" and c: "\<And>t. busy (pc t) \<Longrightarrow> c' t = c t \<or> c' t = Code"
    and w: "\<And>t. c' t = c t \<or> \<not> waits_on (c' t) (Other n)" and ki: "kinv rd tm (k', c')" and nx: "k_next k' < 2 ^ 64 - 1"
  shows "minv rd tm n \<lparr>ms_k = k', ms_c = c', ms_m = m, ms_pc = pc\<rparr>"
proof -
  note d = minvD [OF inv, simplified]
  have idi: "id_inv k'" by (rule evolvesD(1) [OF ev d(2)])
  show ?thesis
  proof (rule minvI, goal_cases)
    case (5 t)
    then have "alive k t" "mx_owner_id m = tk_id (the_task k t)" using d(5,6) [of t] by simp_all
    moreover have "alive k' t" by (rule evolvesD(2) [OF ev calculation(1)])
    ultimately show ?case using d(2) idi by (simp add: id_inv_def)
  next
    case (7 t)
    then show ?case using w [of t] d(8) [of t] by auto
  next
    case (8 t)
    then show ?case using c [of t] d(9) [of t] by auto
  next
    case (9 t)
    then have t: "t \<noteq> v" "alive k t" using v d(10) [of t] by auto
    then show ?case
      using evolvesD(2) [OF ev t(2)] evolvesD(5,6) [OF ev t] d(11,12) [of t] 9 wq by auto
  qed (use d(4,7,13) idi ki nx wq in simp_all)
qed

lemma minv_other:
  assumes K: "documented_kernel K rd tm" and N: "''idle'' \<notin> N" and inv: "minv rd tm n \<lparr>ms_k = k, ms_c = c, ms_m = m, ms_pc = pc\<rparr>"
    and p: "pc (k_current k) \<in> {Out, Hold}" and st: "kstep K (user_queues - {mx_wq m}) N (k, c) (k', c')" and nx: "k_next k' < 2 ^ 64 - 1"
  shows "minv rd tm n \<lparr>ms_k = k', ms_c = c', ms_m = m, ms_pc = pc\<rparr>"
proof (rule minv_quiet [OF inv _ _ _ _ _ _ nx])
  note d = minvD [OF inv, simplified]
  have U: "Other n \<notin> user_queues - {mx_wq m}" by (simp add: d(4))
  have "kinv rd tm (k', c') \<and> evolves (k_current k) k k'" using kstep_inv [OF K st d(1) _ N] by simp
  then show "kinv rd tm (k', c')" "evolves (k_current k) k k'" by simp_all
  show "\<not> busy (pc (k_current k))" using p by auto
  show "k_wq k' (Other n) = k_wq k (Other n)" using kstep_wq [OF st U] by simp
  show "c' t = c t \<or> c' t = Code" if "busy (pc t)" for t using kstep_cont [OF st U, of t] that p by auto
  show "c' t = c t \<or> \<not> waits_on (c' t) (Other n)" for t using kstep_cont [OF st U, of t] by simp
qed

text \<open>The current task's own steps; it runs, so it is not queued.\<close>

lemma current_unqueued:
  assumes inv: "minv rd tm n \<lparr>ms_k = k, ms_c = c, ms_m = m, ms_pc = pc\<rparr>"
  shows "alive k (k_current k)" "state_of k (k_current k) = Running" "k_current k \<notin> set (k_wq k (Other n))"
proof -
  note d = minvD [OF inv, simplified]
  have s: "sched_inv rd k" and w: "wait_inv tm k c" using d(1) by (simp_all add: kinv_def)
  show "alive k (k_current k)" and run: "state_of k (k_current k) = Running" using s sched_preD(1) by (auto simp: sched_inv_def)
  show "k_current k \<notin> set (k_wq k (Other n))"
  proof
    assume q: "k_current k \<in> set (k_wq k (Other n))"
    then have "c (k_current k) = UntilLoop (Other n)" using wait_invD(3) [OF w q] d(8) by blast
    moreover have "tk_in_wait_queue (the_task k (k_current k))" using wait_invD(4) [OF w] q by blast
    ultimately show False using wait_invD(1) [OF w, of "k_current k"] run by (simp add: task_ok_def)
  qed
qed

lemma minv_pc:
  assumes inv: "minv rd tm n \<lparr>ms_k = k, ms_c = c, ms_m = m, ms_pc = pc\<rparr>" and code: "c (k_current k) = Code"
    and m': "mx_wq m' = mx_wq m"
    and p: "p = Hold \<and> mx_owner_id m' = current_id k \<and> (\<forall>t. pc t \<noteq> Hold) \<or>
      p \<noteq> Hold \<and> pc (k_current k) \<noteq> Hold \<and> mx_owner_id m' = mx_owner_id m \<and> (busy p \<or> \<not> busy (pc (k_current k))) \<or>
      p = Notify \<and> pc (k_current k) = Hold \<and> mx_owner_id m' = 0"
  shows "minv rd tm n \<lparr>ms_k = k, ms_c = c, ms_m = m', ms_pc = pc(k_current k := p)\<rparr>"
proof -
  let ?t = "k_current k"
  note d = minvD [OF inv, simplified] and cu = current_unqueued [OF inv]
  have hold: "t = ?t" if "pc ?t = Hold" "pc t = Hold" for t
    using ids(2) [of k rd tm c ?t t] d(1-3) d(5,6) [of t] d(5,6) [of ?t] that by simp
  have nz: "current_id k \<noteq> 0" using ids(1) [of k rd tm c ?t] d(1-3) cu(1) by (simp add: current_id_def)
  show ?thesis
  proof (rule minvI, goal_cases)
    case (5 t)
    then show ?case using p d(5,6) [of t] hold [of t] cu(1) by (cases "t = ?t") (auto simp: current_id_def)
  next
    case 6
    show ?case
    proof (cases "p = Hold")
      case False
      then have "mx_owner_id m \<noteq> 0" "pc ?t \<noteq> Hold" using p 6 by auto
      moreover from this obtain t where "pc t = Hold" using d(7) by auto
      ultimately show ?thesis by (auto intro!: exI [of _ t])
    qed (auto intro: exI [of _ ?t])
  next
    case (7 t)
    then show ?case using d(8) [of t] code by (cases "t = ?t") auto
  next
    case (8 t)
    then show ?case using d(9) [of t] code by (cases "t = ?t") auto
  next
    case (9 t)
    then show ?case using d(10-12) [of t] cu by (cases "t = ?t") auto
  next
    case 10
    show ?case
    proof (cases "busy p")
      case True
      then show ?thesis using cu(3) by (intro exI [of _ ?t]) simp
    next
      case False
      then have o: "mx_owner_id m = 0" "\<not> busy (pc ?t)" using p 10 nz by auto
      then obtain u where "busy (pc u)" "u \<notin> set (k_wq k (Other n))" using d(13) 10 by auto
      then show ?thesis using o(2) by (intro exI [of _ u]) auto
    qed
  qed (use d(1-4) m' in simp_all)
qed

lemma wait_block_queued:
  "wait_block K k w = (Ok x, k') \<Longrightarrow> k_wq k' w = k_wq k w @ [k_current k]"
  by (auto simp: wait_block_def block_current_def Let_def split: if_splits)

lemma wait_block_next: "wait_block K k w = (Ok x, k') \<Longrightarrow> k_next k' = k_next k"
  by (auto simp: wait_block_def block_current_def Let_def resched_def switch_to_def split: if_splits prod.splits)

lemma minv_waits:
  assumes K: "documented_kernel K rd tm" and inv: "minv rd tm n \<lparr>ms_k = k, ms_c = c, ms_m = m, ms_pc = pc\<rparr>"
    and p: "pc (k_current k) = Wait" and r: "lock_wait K k m = (Ok r, k')"
  shows "minv rd tm n \<lparr>ms_k = k', ms_c = c(k_current k := if r then Code else UntilLoop (mx_wq m)), ms_m = m,
    ms_pc = pc(k_current k := if r then Try else Wait)\<rparr>"
proof -
  let ?t = "k_current k"
  note d = minvD [OF inv, simplified] and cu = current_unqueued [OF inv]
  have w: "mx_wq m = Other n" by (rule d(4))
  have ct: "c ?t \<in> {Code, UntilLoop (Other n)}" using d(9) [of ?t] p by auto
  have round: "wait_until_round K k (Other n) (\<not> is_locked m) = (Ok r, k')" using r by (simp add: lock_wait_def w)
  have ki: "kinv rd tm (k', c(?t := if r then Code else UntilLoop (Other n)))" and ev: "evolves ?t k k'"
    using until_step [OF K d(1) ct round] by simp_all
  show ?thesis
  proof (cases "is_locked m")
    case False
    then have k': "k' = cancel_events K k (Other n)" "r" using round by (simp_all add: wait_until_round_def)
    have s: "sched_inv rd k" "wait_inv tm k c" using d(1) by (simp_all add: kinv_def)
    have on: "?t \<in> set (k_wq k w') \<Longrightarrow> w' = Other n" for w'
      using wait_invD(3) [OF s(2), of ?t w'] ct by auto
    have wq: "k_wq k' (Other n) = k_wq k (Other n)"
      using cu(3) by (simp add: k' cancel_events_def cancel_alarm_def Let_def filter_id_conv) blast
    have v: "\<not> busy (pc (k_next k))"
      using d(10) [of "k_next k"] sched_preD(7) [of rd k "k_next k"] s(1) by (auto simp: sched_inv_def)
    have "minv rd tm n \<lparr>ms_k = k', ms_c = c(?t := Code), ms_m = m, ms_pc = pc\<rparr>"
      by (rule minv_quiet [OF inv _ v wq])
        (use cancel_events_inv(4) [OF K s on, of "k_next k"] ki k'(2) d(3) in \<open>simp_all add: k'(1)\<close>)
    from minv_pc [OF this, of m Try] show ?thesis using p k'(2) by (simp add: k'(1))
  next
    case True
    then obtain x where b: "wait_block K k (Other n) = (Ok x, k')" and nr: "\<not> r"
      using round by (auto simp: wait_until_round_def split: outcome.splits prod.splits)
    have q: "k_wq k' (Other n) = k_wq k (Other n) @ [?t]" by (rule wait_block_queued [OF b])
    have k1: "wait_inv tm k' (c(?t := UntilLoop (Other n)))" using ki nr by (simp add: kinv_def)
    have "tk_in_wait_queue (the_task k' ?t)" using wait_invD(4) [OF k1, of ?t] q by (auto intro!: exI [of _ "Other n"])
    then have bl: "state_of k' ?t = Blocked" using wait_invD(1) [OF k1, of ?t] by (simp add: task_ok_def)
    have idi: "id_inv k'" by (rule evolvesD(1) [OF ev d(2)])
    have nx: "k_next k' < 2 ^ 64 - 1" using d(3) wait_block_next [OF b] by simp
    have "minv rd tm n \<lparr>ms_k = k', ms_c = c(?t := UntilLoop (Other n)), ms_m = m, ms_pc = pc\<rparr>"
    proof (rule minvI, goal_cases)
      case (5 t)
      then have "alive k t" "mx_owner_id m = tk_id (the_task k t)" using d(5,6) [of t] by simp_all
      moreover have "alive k' t" by (rule evolvesD(2) [OF ev calculation(1)])
      ultimately show ?case using d(2) idi by (simp add: id_inv_def)
    next
      case (9 t)
      then have a: "alive k t" using d(10) [of t] by simp
      show ?case
        using evolvesD(2) [OF ev a] evolvesD(5,6) [OF ev _ a] d(11,12) [of t] 9 bl q by (cases "t = ?t") auto
    next
      case (7 t)
      then show ?case using d(8) [of t] p by (cases "t = ?t") auto
    next
      case (8 t)
      then show ?case using d(9) [of t] p by (cases "t = ?t") auto
    qed (use d(4,7) idi ki nr nx True in \<open>simp_all add: is_locked_def\<close>)
    then show ?thesis using nr p by (simp add: w fun_upd_idem)
  qed
qed

lemma minv_notifies:
  assumes K: "documented_kernel K rd tm" and inv: "minv rd tm n \<lparr>ms_k = k, ms_c = c, ms_m = m, ms_pc = pc\<rparr>"
    and p: "pc (k_current k) = Notify"
  shows "minv rd tm n \<lparr>ms_k = unlock_notify K k m, ms_c = c, ms_m = m, ms_pc = pc(k_current k := Out)\<rparr>"
proof -
  let ?t = "k_current k" and ?k = "unlock_notify K k m"
  note d = minvD [OF inv, simplified] and cu = current_unqueued [OF inv]
  have code: "c ?t = Code" using d(9) [of ?t] p by simp
  have k': "?k = (case k_wq k (Other n) of t # rest \<Rightarrow> wake K k (Other n) t | [] \<Rightarrow> k)"
    by (simp add: unlock_notify_def notify_one_def notify_one_locked_wake d(4) split: list.split)
  have wf: "woken_from k ?k"
    unfolding k' by (auto simp: woken_from_refl woken_from_wake [OF woken_from_refl] split: list.split)
  have s: "sched_inv rd k" "wait_inv tm k c" "join_inv k" using d(1) by (simp_all add: kinv_def)
  have ki: "kinv rd tm (?k, c)"
    using wake_sched(2) [OF K s(1)] wake_waiting [OF s(2)] wake_joins [OF s(3)] d(1)
    by (auto simp: k' kinv_def split: list.split)
  note ev = evolves_woken [OF wf, of ?t]
  have idi: "id_inv ?k" by (rule evolvesD(1) [OF ev d(2)])
  have awake: "u \<in> set (k_wq ?k (Other n))" if "u \<in> set (k_wq k (Other n))" "state_of ?k u = Blocked" for u
    using that by (cases "k_wq k (Other n)") (auto simp: k' wake_task not_alive_Exited split: if_splits)
  have woken: "\<exists>u. u \<noteq> ?t \<and> pc u = Wait \<and> u \<notin> set (k_wq ?k (Other n))" if ne: "k_wq k (Other n) \<noteq> []"
  proof -
    obtain t rest where q: "k_wq k (Other n) = t # rest" using ne by (cases "k_wq k (Other n)") auto
    have "waits_on (c t) (Other n)" using wait_invD(3) [OF s(2), of t "Other n"] q by simp
    then have "pc t = Wait" using d(8) by blast
    moreover have "t \<notin> set (k_wq ?k (Other n))" using wait_invD(2) [OF s(2), of "Other n"] q by (simp add: k')
    ultimately show ?thesis using cu(3) q by (intro exI [of _ t]) auto
  qed
  show ?thesis
  proof (rule minvI, goal_cases)
    case (5 t)
    then have "alive k t" "mx_owner_id m = tk_id (the_task k t)" using d(5,6) [of t] by (auto split: if_splits)
    then show ?case using woken_fromD(3,6) [OF wf, of t] by simp
  next
    case 6
    then obtain t where "pc t = Hold" using d(7) by auto
    then show ?case using p by (intro exI [of _ t]) auto
  next
    case (7 t)
    then show ?case using d(8) [of t] code by auto
  next
    case (8 t)
    then show ?case using d(9) [of t] by (auto split: if_splits)
  next
    case (9 t)
    then have t: "t \<noteq> ?t" "busy (pc t)" by (auto split: if_splits)
    then have a: "alive k t" using d(10) [of t] by simp
    show ?case
      using evolvesD(2) [OF ev a] evolvesD(5,6) [OF ev t(1) a] d(11,12) [of t] t(2) awake [of t] by auto
  next
    case 10
    then have "k_wq k (Other n) \<noteq> []" by (auto simp: k')
    then show ?case using woken by fastforce
  qed (use d(3,4) idi ki wf in \<open>simp_all add: woken_from_def\<close>)
qed

text \<open>Interrupts.\<close>

lemma minv_other_irq:
  assumes K: "documented_kernel K rd tm" and inv: "minv rd tm n \<lparr>ms_k = k, ms_c = c, ms_m = m, ms_pc = pc\<rparr>"
    and st: "kstep K {} {} (k, c) (k', c)" and nx: "k_next k' = k_next k" and ev: "\<And>v. evolves v k k'"
  shows "minv rd tm n \<lparr>ms_k = k', ms_c = c, ms_m = m, ms_pc = pc\<rparr>"
proof (rule minv_quiet [OF inv ev])
  note d = minvD [OF inv, simplified]
  have "sched_pre rd k" using d(1) by (simp add: kinv_def sched_inv_def)
  then have "\<not> alive k (k_next k)" using sched_preD(7) by blast
  then show "\<not> busy (pc (k_next k))" using d(10) [of "k_next k"] by auto
  show "k_wq k' (Other n) = k_wq k (Other n)" using kstep_wq [OF st] by simp
  show "kinv rd tm (k', c)" using kstep_inv [OF K st d(1)] by simp
  show "k_next k' < 2 ^ 64 - 1" using d(3) nx by simp
qed simp_all

lemma minv_free:
  assumes "minv rd tm n s" and "mx_owner_id (ms_m s) = 0"
  shows "ms_pc s t \<noteq> Hold"
  using ids(1) [of "ms_k s" rd tm "ms_c s" t] minvD(1-3) [OF assms(1)] minvD(5,6) [OF assms(1), of t] assms(2) by auto

lemma mstep_inv:
  assumes K: "documented_kernel K rd tm" and "mstep K N s s'" and "minv rd tm n s" and N: "''idle'' \<notin> N"
  shows "minv rd tm n s'"
  using assms(2,3)
proof (induction rule: mstep.induct)
  case (other pc k m c k' c')
  then show ?case using minv_other [OF K N] by blast
next
  case (clocks k n' c m pc)
  show ?case
  proof (rule minv_other_irq [OF K clocks.prems])
    show "kstep K {} {} (k, c) (k\<lparr>k_now := n'\<rparr>, c)" using clocks.hyps by (rule kstep.clock)
  qed simp_all
next
  case (alarms k k' c m pc)
  show ?case
  proof (rule minv_other_irq [OF K alarms.prems])
    show "kstep K {} {} (k, c) (k', c)" using alarms.hyps by (rule kstep.alarm)
    show "k_next k' = k_next k" using alarms.hyps by (auto simp: check_event_def split: prod.splits option.splits)
    show "evolves v k k'" for v
      using check_event_inv(4) [OF K _ _ alarms.hyps, of c] minvD(1) [OF alarms.prems] by (simp add: kinv_def)
  qed
next
  case (lock pc k c m)
  then show ?case using minv_pc [OF lock.prems, of m Try] by simp
next
  case (attempt pc k m spurious r m' c)
  have code: "c (k_current k) = Code" using minvD(9) [OF attempt.prems, of "k_current k"] attempt.hyps(1) by simp
  have "mx_owner_id m = 0 \<Longrightarrow> pc t \<noteq> Hold" for t using minv_free [OF attempt.prems] by simp
  then show ?case
    using minv_pc [OF attempt.prems code, of m'] attempt.hyps by (auto simp: lock_attempt_def split: if_splits)
next
  case (waits pc k m r k' c)
  show ?case by (rule minv_waits [OF K waits.prems waits.hyps])
next
  case (tries pc k c m r m')
  have "mx_owner_id m = 0 \<Longrightarrow> pc t \<noteq> Hold" for t using minv_free [OF tries.prems] by simp
  then show ?case
    using minv_pc [OF tries.prems tries.hyps(2), of m'] tries.hyps by (auto simp: mutex_try_lock_def split: if_splits)
next
  case (access pc k c m f)
  have "minv rd tm n \<lparr>ms_k = k, ms_c = c, ms_m = guard_deref_mut m f, ms_pc = pc\<rparr> =
      minv rd tm n \<lparr>ms_k = k, ms_c = c, ms_m = m, ms_pc = pc\<rparr>"
    by (simp add: minv_def guard_deref_mut_def)
  then show ?case using access.prems by blast
next
  case (release pc k c m m')
  then show ?case using minv_pc [OF release.prems release.hyps(2), of m' Notify]
    by (auto simp: unlock_release_def split: if_splits)
next
  case (notifies pc k c m)
  show ?case by (rule minv_notifies [OF K notifies.prems notifies.hyps])
qed

lemma mreach_inv:
  assumes K: "documented_kernel K rd tm" and "mreach K N s s'" and "minv rd tm n s" and N: "''idle'' \<notin> N"
  shows "minv rd tm n s'"
  using assms(2,3) by (induction rule: mreach.induct) (auto intro: mstep_inv [OF K _ _ N])

lemma msys_init_inv:
  assumes K: "documented_kernel K rd tm" and "rd q = {#}" and "tm l = {#}"
  shows "minv rd tm n (msys_init K q l n d)"
proof -
  have "kinv rd tm (init_scheduler K q l, \<lambda>_. Code)" using init_inv [OF assms] by (simp add: ksys_init_def)
  moreover have "id_inv (init_scheduler K q l)"
    unfolding id_inv_def
  proof (intro conjI allI impI)
    show "k_id_counter (init_scheduler K q l) = of_nat (k_next (init_scheduler K q l) + 1)"
      by (simp add: init_scheduler_def into_arc_def Let_def)
    fix t
    assume "alive (init_scheduler K q l) t"
    then have "t = 0 \<or> t = Suc 0 \<or> t = 2" unfolding init_task(4) by linarith
    then show "tk_id (the_task (init_scheduler K q l) t) = of_nat (t + 1)" by (elim disjE) (simp_all add: init_states)
  qed
  ultimately show ?thesis by (simp add: minv_def msys_init_def mutex_new_def)
qed

section \<open>Results\<close>

text \<open>
  C2. Mutual exclusion: in every reachable state at most one task holds the mutex, the owner field
  names it, and is 0 exactly when nobody does; the assertions of locking by a task that does not hold
  the mutex and of unlocking by its holder do not fail.
\<close>

theorem mutex_exclusive:
  assumes "documented_kernel K rd tm" and "rd q = {#}" and "tm l = {#}" and "mreach K N (msys_init K q l n d) s"
    and "''idle'' \<notin> N"
  shows "(\<forall>t u. ms_pc s t = Hold \<and> ms_pc s u = Hold \<longrightarrow> t = u) \<and>
    (\<forall>t. ms_pc s t = Hold \<longrightarrow> mx_owner_id (ms_m s) = tk_id (the_task (ms_k s) t)) \<and>
    (is_locked (ms_m s) \<longleftrightarrow> (\<exists>t. ms_pc s t = Hold)) \<and>
    (ms_pc s (k_current (ms_k s)) = Try \<longrightarrow> (\<forall>b. fst (lock_attempt (ms_k s) (ms_m s) b) \<noteq> Panic)) \<and>
    (ms_pc s (k_current (ms_k s)) = Hold \<longrightarrow> fst (unlock_release (ms_k s) (ms_m s)) = Ok ())"
proof (intro conjI allI impI)
  have inv: "minv rd tm n s" by (rule mreach_inv [OF assms(1,4) msys_init_inv [OF assms(1-3)] assms(5)])
  note m = minvD [OF inv]
  note i = ids [OF m(2,3,1)]
  show own: "mx_owner_id (ms_m s) = tk_id (the_task (ms_k s) t)" if "ms_pc s t = Hold" for t by (rule m(6) [OF that])
  have uniq: "t = u" if "ms_pc s t = Hold" "alive (ms_k s) u" "mx_owner_id (ms_m s) = tk_id (the_task (ms_k s) u)" for t u
    using i(2) [OF that(2) m(5) [OF that(1)]] own [OF that(1)] that(3) by simp
  show "t = u" if "ms_pc s t = Hold \<and> ms_pc s u = Hold" for t u using uniq [of t u] m(5) [of u] own [of u] that by simp
  show "is_locked (ms_m s) \<longleftrightarrow> (\<exists>t. ms_pc s t = Hold)" using m(7) minv_free [OF inv] by (auto simp: is_locked_def)
  show "fst (unlock_release (ms_k s) (ms_m s)) = Ok ()" if "ms_pc s (k_current (ms_k s)) = Hold"
    using own [OF that] by (simp add: unlock_release_def current_id_def)
  show "fst (lock_attempt (ms_k s) (ms_m s) b) \<noteq> Panic" if p: "ms_pc s (k_current (ms_k s)) = Try" for b
  proof -
    have a: "alive (ms_k s) (k_current (ms_k s))" using m(10) p by simp
    have "mx_owner_id (ms_m s) \<noteq> current_id (ms_k s)"
    proof
      assume o: "mx_owner_id (ms_m s) = current_id (ms_k s)"
      then have "mx_owner_id (ms_m s) \<noteq> 0" using i(1) [OF a] by (simp add: current_id_def)
      then obtain u where u: "ms_pc s u = Hold" using m(7) by blast
      have "u = k_current (ms_k s)" by (rule uniq [OF u a]) (use o in \<open>simp add: current_id_def\<close>)
      then show False using u p by simp
    qed
    then show ?thesis by (simp add: lock_attempt_def)
  qed
qed

text \<open>
  C10. No lost wake-up: whenever a task sleeps on the mutex, or is inside \<open>lock\<close> or \<open>unlock\<close>, then some
  task holds the mutex, or some task inside \<open>lock\<close> or \<open>unlock\<close> is ready or running: the mutex is never
  free with everybody who wants it asleep.
\<close>

theorem mutex_no_lost_wakeup:
  assumes "documented_kernel K rd tm" and "rd q = {#}" and "tm l = {#}" and "mreach K N (msys_init K q l n d) s"
    and "t \<in> set (k_wq (ms_k s) (Other n)) \<or> ms_pc s t \<in> {Try, Wait, Notify}"
    and "''idle'' \<notin> N"
  shows "(\<exists>u. ms_pc s u = Hold) \<or>
    (\<exists>u. ms_pc s u \<in> {Try, Wait, Notify} \<and> state_of (ms_k s) u \<in> {Ready, Running})"
proof (cases "is_locked (ms_m s)")
  case True
  have inv: "minv rd tm n s" by (rule mreach_inv [OF assms(1,4) msys_init_inv [OF assms(1-3)] assms(6)])
  then show ?thesis using True minvD(7) [OF inv] by (auto simp: is_locked_def)
next
  case False
  have inv: "minv rd tm n s" by (rule mreach_inv [OF assms(1,4) msys_init_inv [OF assms(1-3)] assms(6)])
  note m = minvD [OF inv]
  have "\<exists>u. busy (ms_pc s u) \<and> u \<notin> set (k_wq (ms_k s) (Other n))"
  proof (cases "k_wq (ms_k s) (Other n) = []")
    case True
    then show ?thesis using assms(5) by auto
  next
    case ne: False
    then show ?thesis using m(13) False by (simp add: is_locked_def)
  qed
  then obtain u where u: "busy (ms_pc s u)" "u \<notin> set (k_wq (ms_k s) (Other n))" by blast
  then have "state_of (ms_k s) u \<noteq> Exited" "state_of (ms_k s) u \<noteq> Blocked" using m(11,12) by blast+
  then show ?thesis using u(1) by (cases "state_of (ms_k s) u") auto
qed

text \<open>The main task takes the mutex and yields; the next task tries to lock and goes to sleep; main releases.\<close>

definition example_mutex :: "nat mutex" where
  "example_mutex = (mutex_new (Other 0) 0)\<lparr>mx_owner_id := 2\<rparr>"
definition example_yielded :: "(nat list, (nat \<times> nat) list) kernel" where
  "example_yielded = snd (yield_current fifo_ops (init_scheduler fifo_ops [] []))"
definition example_asleep :: "(nat list, (nat \<times> nat) list) kernel" where
  "example_asleep = snd (lock_wait fifo_ops example_yielded example_mutex)"
definition example_held :: "(nat list, (nat \<times> nat) list, nat) msys" where
  "example_held = \<lparr>ms_k = example_asleep, ms_c = (\<lambda>_. Code)(2 := UntilLoop (Other 0)), ms_m = example_mutex,
     ms_pc = (\<lambda>_. Out)(1 := Hold, 2 := Wait)\<rparr>"
definition example_released :: "(nat list, (nat \<times> nat) list, nat) msys" where
  "example_released = \<lparr>ms_k = example_asleep, ms_c = (\<lambda>_. Code)(2 := UntilLoop (Other 0)), ms_m = mutex_new (Other 0) 0,
     ms_pc = (\<lambda>_. Out)(1 := Notify, 2 := Wait)\<rparr>"

lemma example_yielded_eq: "yield_current fifo_ops (init_scheduler fifo_ops [] []) = (Ok (), example_yielded)"
  unfolding example_yielded_def by (rule prod_eqI) (code_simp, simp)
lemma example_asleep_eq: "lock_wait fifo_ops example_yielded example_mutex = (Ok False, example_asleep)"
  unfolding example_asleep_def by (rule prod_eqI) (code_simp, simp)

lemma example_mutex_steps:
  "lock_attempt (init_scheduler fifo_ops [] []) (mutex_new (Other 0) (0 :: nat)) False = (Ok True, example_mutex)"
  "lock_attempt example_yielded example_mutex False = (Ok False, example_mutex)"
  "unlock_release example_asleep example_mutex = (Ok (), mutex_new (Other 0) 0)"
  "k_current example_yielded = 2" "k_current example_asleep = 1" "k_next example_yielded = 3"
  "tk_is_idle (the_task example_yielded 2) = False" "k_wq example_asleep (Other 0) = [2]" "state_of example_asleep 1 = Running"
  by code_simp+

lemma example_held_reach: "mreach fifo_ops {} (msys_init fifo_ops [] [] 0 0) example_held"
proof -
  let ?c = "\<lambda>_. Code" and ?m = "mutex_new (Other 0) 0" and ?k = "init_scheduler fifo_ops [] []"
  note st = example_mutex_steps
  have "mstep fifo_ops {} (msys_init fifo_ops [] [] 0 0) \<lparr>ms_k = ?k, ms_c = ?c, ms_m = ?m, ms_pc = (\<lambda>_. Out)(1 := Try)\<rparr>"
    using mstep.lock [where pc = "\<lambda>_. Out" and k = ?k and c = ?c and m = ?m and K = fifo_ops and N = "{}"]
    by (simp add: msys_init_def init_states)
  moreover have "mstep fifo_ops {} \<lparr>ms_k = ?k, ms_c = ?c, ms_m = ?m, ms_pc = (\<lambda>_. Out)(1 := Try)\<rparr>
      \<lparr>ms_k = ?k, ms_c = ?c, ms_m = example_mutex, ms_pc = (\<lambda>_. Out)(1 := Hold)\<rparr>"
    using mstep.attempt [where pc = "(\<lambda>_. Out)(1 := Try)" and c = ?c and K = fifo_ops and N = "{}", OF _ st(1)] by simp
  moreover have "kstep fifo_ops (user_queues - {Other 0}) {} (?k, ?c) (example_yielded, ?c)"
    by (rule kstep.yield) (simp_all add: example_yielded_eq)
  then have "mstep fifo_ops {} \<lparr>ms_k = ?k, ms_c = ?c, ms_m = example_mutex, ms_pc = (\<lambda>_. Out)(1 := Hold)\<rparr>
      \<lparr>ms_k = example_yielded, ms_c = ?c, ms_m = example_mutex, ms_pc = (\<lambda>_. Out)(1 := Hold)\<rparr>"
    by (intro mstep.other) (simp_all add: st example_mutex_def mutex_new_def)
  moreover have "mstep fifo_ops {} \<lparr>ms_k = example_yielded, ms_c = ?c, ms_m = example_mutex, ms_pc = (\<lambda>_. Out)(1 := Hold)\<rparr>
      \<lparr>ms_k = example_yielded, ms_c = ?c, ms_m = example_mutex, ms_pc = (\<lambda>_. Out)(1 := Hold, 2 := Try)\<rparr>"
    using mstep.lock [where pc = "(\<lambda>_. Out)(1 := Hold)" and k = example_yielded and c = ?c and m = example_mutex and K = fifo_ops and N = "{}"]
    by (simp add: st)
  moreover have "mstep fifo_ops {} \<lparr>ms_k = example_yielded, ms_c = ?c, ms_m = example_mutex, ms_pc = (\<lambda>_. Out)(1 := Hold, 2 := Try)\<rparr>
      \<lparr>ms_k = example_yielded, ms_c = ?c, ms_m = example_mutex, ms_pc = (\<lambda>_. Out)(1 := Hold, 2 := Wait)\<rparr>"
    using mstep.attempt [where pc = "(\<lambda>_. Out)(1 := Hold, 2 := Try)" and c = ?c and K = fifo_ops and N = "{}", OF _ st(2)] by (simp add: st)
  moreover have "mstep fifo_ops {} \<lparr>ms_k = example_yielded, ms_c = ?c, ms_m = example_mutex, ms_pc = (\<lambda>_. Out)(1 := Hold, 2 := Wait)\<rparr>
      example_held"
    using mstep.waits [where pc = "(\<lambda>_. Out)(1 := Hold, 2 := Wait)" and c = ?c and N = "{}", OF _ example_asleep_eq]
    by (simp add: st example_held_def) (simp add: example_mutex_def mutex_new_def)
  ultimately show ?thesis
    by (rule mreach_step [OF mreach_step [OF mreach_step [OF mreach_step [OF mreach_step [OF mreach_step [OF mreach_refl]]]]]])
qed

theorem mutex_exclusive_witness:
  "(\<forall>u. ms_pc example_held u = Hold \<longleftrightarrow> u = 1) \<and> is_locked (ms_m example_held) \<and>
   fst (unlock_release (ms_k example_held) (ms_m example_held)) = Ok ()"
proof -
  have "ms_pc example_held 1 = Hold" "k_current (ms_k example_held) = 1" by (simp_all add: example_held_def example_mutex_steps)
  then show ?thesis using mutex_exclusive [OF fifo_documented _ _ example_held_reach] by auto
qed

theorem mutex_no_lost_wakeup_witness:
  "2 \<in> set (k_wq (ms_k example_released) (Other 0)) \<and>
   (\<exists>u. ms_pc example_released u \<in> {Try, Wait, Notify} \<and> state_of (ms_k example_released) u \<in> {Ready, Running})"
proof -
  have "mstep fifo_ops {} example_held example_released"
    using mstep.release [where pc = "(\<lambda>_. Out)(1 := Hold, 2 := Wait)" and c = "(\<lambda>_. Code)(2 := UntilLoop (Other 0))" and K = fifo_ops and N = "{}",
        OF _ _ example_mutex_steps(3)]
    by (simp add: example_held_def example_released_def example_mutex_steps fun_upd_twist)
  with example_held_reach have r: "mreach fifo_ops {} (msys_init fifo_ops [] [] 0 0) example_released" by (rule mreach_step)
  have q: "2 \<in> set (k_wq (ms_k example_released) (Other 0))" by (simp add: example_released_def example_mutex_steps)
  have "ms_pc example_released u \<noteq> Hold" for u by (simp add: example_released_def)
  then show ?thesis using mutex_no_lost_wakeup [OF fifo_documented _ _ r, of 2] q by auto
qed

end
