(* ===== verification/Elf_Parse.thy ===== *)
theory Elf_Parse
  imports Prelude
begin

text \<open>
  The parsing core of the ELF reader: \<^verbatim>\<open>elf/src/endian.rs\<close> and \<^verbatim>\<open>elf/src/parse.rs\<close>. Integers are read
  from a byte slice in either byte order, at an offset that moves past what was read and stays where
  it was on an error; a table is a slice read entry by entry, by index or by an iterator. The contract
  of an entry type (\<^verbatim>\<open>trait ParseAt\<close>) is the locale \<open>parsable\<close>; the lemmas on tables and iterators are
  proved once over it. A length is that of a Rust slice, less than \<open>2^63\<close>.
\<close>

section \<open>Errors, classes, byte orders\<close>

datatype parse_error =
    BadMagic u8 u8 u8 u8
  | UnsupportedElfClass u8
  | UnsupportedElfEndianness u8
  | UnsupportedVersion u64 u64
  | BadOffset u64
  | StringTableMissingNul u64
  | BadEntsize u64 u64
  | UnexpectedSectionType "32 word" "32 word"
  | UnexpectedSegmentType "32 word" "32 word"
  | UnexpectedAlignment usize
  | SliceReadError usize usize
  | IntegerOverflow
  | Utf8Error
  | TryFromSliceError
  | TryFromIntError

datatype elf_class = ELF32 | ELF64

text \<open>\<^verbatim>\<open>AnyEndian\<close>; the types \<^verbatim>\<open>LittleEndian\<close> and \<^verbatim>\<open>BigEndian\<close> have one value each and read as it does.\<close>

datatype endian = Little | Big

definition ELFDATA2LSB :: u8 where "ELFDATA2LSB = 1"
definition ELFDATA2MSB :: u8 where "ELFDATA2MSB = 2"

definition any_from_ei_data :: "u8 \<Rightarrow> (parse_error, endian) outcome" where
  "any_from_ei_data ei_data =
    (if ei_data = ELFDATA2LSB then Ok Little else if ei_data = ELFDATA2MSB then Ok Big
     else Err (UnsupportedElfEndianness ei_data))"

definition little_from_ei_data :: "u8 \<Rightarrow> (parse_error, endian) outcome" where
  "little_from_ei_data ei_data = (if ei_data = ELFDATA2LSB then Ok Little else Err (UnsupportedElfEndianness ei_data))"

definition big_from_ei_data :: "u8 \<Rightarrow> (parse_error, endian) outcome" where
  "big_from_ei_data ei_data = (if ei_data = ELFDATA2MSB then Ok Big else Err (UnsupportedElfEndianness ei_data))"

definition is_little :: "endian \<Rightarrow> bool" where
  "is_little e = (case e of Little \<Rightarrow> True | Big \<Rightarrow> False)"

definition is_big :: "endian \<Rightarrow> bool" where
  "is_big e = (\<not> is_little e)"

section \<open>Integers\<close>

text \<open>\<^verbatim>\<open>slice.get(a..b)\<close> and \<^verbatim>\<open>slice.get(a..)\<close>.\<close>

definition slice_get :: "'a list \<Rightarrow> usize \<Rightarrow> usize \<Rightarrow> 'a list option" where
  "slice_get xs a b =
    (if a \<le> b \<and> unat b \<le> length xs then Some (take (unat b - unat a) (drop (unat a) xs)) else None)"

definition slice_from :: "'a list \<Rightarrow> usize \<Rightarrow> 'a list option" where
  "slice_from xs a = (if unat a \<le> length xs then Some (drop (unat a) xs) else None)"

definition get_bytes :: "u8 list \<Rightarrow> usize \<Rightarrow> usize \<Rightarrow> (parse_error, u8 list) outcome" where
  "get_bytes data a b = ok_or (SliceReadError a b) (slice_get data a b)"

primrec le_nat :: "u8 list \<Rightarrow> nat" where
  "le_nat [] = 0"
| "le_nat (b # bs) = unat b + 256 * le_nat bs"

definition from_le_bytes :: "u8 list \<Rightarrow> 'a::len word" where
  "from_le_bytes bs = of_nat (le_nat bs)"

definition from_be_bytes :: "u8 list \<Rightarrow> 'a::len word" where
  "from_be_bytes bs = of_nat (le_nat (rev bs))"

text \<open>
  The macro \<^verbatim>\<open>safe_from!\<close> at a type of \<open>n\<close> bytes. The slice it takes has that many bytes, so its
  conversion to an array does not fail.
\<close>

definition safe_from :: "nat \<Rightarrow> endian \<Rightarrow> usize \<Rightarrow> u8 list \<Rightarrow> (parse_error, 'a::len word) outcome \<times> usize" where
  "safe_from n e off data =
    (case checked_add off (of_nat n) of
       None \<Rightarrow> (Err IntegerOverflow, off)
     | Some stop \<Rightarrow>
         (case slice_get data off stop of
            None \<Rightarrow> (Err (SliceReadError off stop), off)
          | Some buf \<Rightarrow> (Ok (if is_little e then from_le_bytes buf else from_be_bytes buf), stop)))"

definition parse_u8_at :: "endian \<Rightarrow> usize \<Rightarrow> u8 list \<Rightarrow> (parse_error, u8) outcome \<times> usize" where
  "parse_u8_at = safe_from 1"
definition parse_u16_at :: "endian \<Rightarrow> usize \<Rightarrow> u8 list \<Rightarrow> (parse_error, 16 word) outcome \<times> usize" where
  "parse_u16_at = safe_from 2"
definition parse_u32_at :: "endian \<Rightarrow> usize \<Rightarrow> u8 list \<Rightarrow> (parse_error, 32 word) outcome \<times> usize" where
  "parse_u32_at = safe_from 4"
definition parse_u64_at :: "endian \<Rightarrow> usize \<Rightarrow> u8 list \<Rightarrow> (parse_error, u64) outcome \<times> usize" where
  "parse_u64_at = safe_from 8"
definition parse_i32_at :: "endian \<Rightarrow> usize \<Rightarrow> u8 list \<Rightarrow> (parse_error, 32 word) outcome \<times> usize" where
  "parse_i32_at = safe_from 4"
definition parse_i64_at :: "endian \<Rightarrow> usize \<Rightarrow> u8 list \<Rightarrow> (parse_error, u64) outcome \<times> usize" where
  "parse_i64_at = safe_from 8"

section \<open>Entries, iterators and tables\<close>

text \<open>The methods of \<^verbatim>\<open>trait ParseAt\<close> a type implements.\<close>

record 's parse_at =
  pa_parse_at :: "endian \<Rightarrow> elf_class \<Rightarrow> usize \<Rightarrow> u8 list \<Rightarrow> (parse_error, 's) outcome \<times> usize"
  pa_size_for :: "elf_class \<Rightarrow> usize"

definition validate_entsize :: "'s parse_at \<Rightarrow> elf_class \<Rightarrow> usize \<Rightarrow> (parse_error, usize) outcome" where
  "validate_entsize P class entsize =
    (let expected = pa_size_for P class in if entsize = expected then Ok entsize else Err (BadEntsize entsize expected))"

text \<open>
  Loops over an iterator, which is a state \<open>it\<close> with a function \<open>nxt\<close>: the list of what it yields, a
  \<^verbatim>\<open>for\<close> loop whose body may leave the loop with a value, and \<^verbatim>\<open>Iterator::find\<close>. A loop that does not
  end has the value \<open>None\<close>.
\<close>

partial_function (option) iter_collect :: "('i \<Rightarrow> 'x option \<times> 'i) \<Rightarrow> 'i \<Rightarrow> 'x list option" where
  "iter_collect nxt it =
    (case nxt it of
       (None, it') \<Rightarrow> Some []
     | (Some x, it') \<Rightarrow> Option.bind (iter_collect nxt it') (\<lambda>xs. Some (x # xs)))"

partial_function (option) iter_try ::
    "('i \<Rightarrow> 'x option \<times> 'i) \<Rightarrow> 'i \<Rightarrow> ('x \<Rightarrow> 'y option option) \<Rightarrow> 'y option option" where
  "iter_try nxt it f =
    (case nxt it of
       (None, it') \<Rightarrow> Some None
     | (Some x, it') \<Rightarrow>
         Option.bind (f x) (\<lambda>r. case r of Some y \<Rightarrow> Some (Some y) | None \<Rightarrow> iter_try nxt it' f))"

definition iter_find :: "('i \<Rightarrow> 'x option \<times> 'i) \<Rightarrow> 'i \<Rightarrow> ('x \<Rightarrow> bool) \<Rightarrow> 'x option option" where
  "iter_find nxt it p = iter_try nxt it (\<lambda>x. Some (if p x then Some x else None))"

text \<open>A \<^verbatim>\<open>for\<close> loop whose body changes variables, and may fail or \<^verbatim>\<open>break\<close> (the flag).\<close>

partial_function (option) iter_fold ::
    "('i \<Rightarrow> 'x option \<times> 'i) \<Rightarrow> 'i \<Rightarrow> 's \<Rightarrow> ('x \<Rightarrow> 's \<Rightarrow> ('e, 's \<times> bool) outcome) \<Rightarrow> ('e, 's) outcome option" where
  "iter_fold nxt it s body =
    (case nxt it of
       (None, it') \<Rightarrow> Some (Ok s)
     | (Some x, it') \<Rightarrow>
         (case body x s of
            Ok (s', stop) \<Rightarrow> if stop then Some (Ok s') else iter_fold nxt it' s' body
          | Err e \<Rightarrow> Some (Err e)
          | Panic \<Rightarrow> Some Panic))"

record parsing_iterator =
  pi_endian :: endian
  pi_class :: elf_class
  pi_data :: "u8 list"
  pi_offset :: usize

definition iterator_new :: "endian \<Rightarrow> elf_class \<Rightarrow> u8 list \<Rightarrow> parsing_iterator" where
  "iterator_new e c data = \<lparr>pi_endian = e, pi_class = c, pi_data = data, pi_offset = 0\<rparr>"

definition iterator_next :: "'s parse_at \<Rightarrow> parsing_iterator \<Rightarrow> 's option \<times> parsing_iterator" where
  "iterator_next P it =
    (if pi_data it = [] then (None, it)
     else (case pa_parse_at P (pi_endian it) (pi_class it) (pi_offset it) (pi_data it) of
             (Ok x, off) \<Rightarrow> (Some x, it\<lparr>pi_offset := off\<rparr>)
           | (_, off) \<Rightarrow> (None, it\<lparr>pi_offset := off\<rparr>)))"

record parsing_table =
  pt_endian :: endian
  pt_class :: elf_class
  pt_data :: "u8 list"

definition table_new :: "endian \<Rightarrow> elf_class \<Rightarrow> u8 list \<Rightarrow> parsing_table" where
  "table_new e c data = \<lparr>pt_endian = e, pt_class = c, pt_data = data\<rparr>"

definition table_iter :: "parsing_table \<Rightarrow> parsing_iterator" where
  "table_iter t = iterator_new (pt_endian t) (pt_class t) (pt_data t)"

definition table_len :: "'s parse_at \<Rightarrow> parsing_table \<Rightarrow> usize" where
  "table_len P t = of_nat (length (pt_data t)) div pa_size_for P (pt_class t)"

definition table_is_empty :: "'s parse_at \<Rightarrow> parsing_table \<Rightarrow> bool" where
  "table_is_empty P t = (table_len P t = 0)"

definition table_get :: "'s parse_at \<Rightarrow> parsing_table \<Rightarrow> usize \<Rightarrow> (parse_error, 's) outcome" where
  "table_get P t index =
    (if pt_data t = [] then Err (BadOffset index)
     else
       and_then (ok_or IntegerOverflow (checked_mul index (pa_size_for P (pt_class t)))) (\<lambda>start.
         if unat start > length (pt_data t) then Err (BadOffset index)
         else fst (pa_parse_at P (pt_endian t) (pt_class t) start (pt_data t))))"


section \<open>Writing integers\<close>

text \<open>The bytes of an integer in a byte order: what the reading routines invert.\<close>

primrec nat_bytes :: "nat \<Rightarrow> nat \<Rightarrow> u8 list" where
  "nat_bytes 0 x = []"
| "nat_bytes (Suc n) x = of_nat x # nat_bytes n (x div 256)"

definition enc :: "nat \<Rightarrow> endian \<Rightarrow> 'a::len word \<Rightarrow> u8 list" where
  "enc n e w = (if is_little e then nat_bytes n (unat w) else rev (nat_bytes n (unat w)))"

lemma length_nat_bytes [simp]: "length (nat_bytes n x) = n"
  by (induction n arbitrary: x) auto

lemma length_enc [simp]: "length (enc n e w) = n"
  by (simp add: enc_def)

lemma le_nat_nat_bytes: "le_nat (nat_bytes n x) = x mod 256 ^ n"
proof (induction n arbitrary: x)
  case (Suc n)
  have "unat (of_nat x :: u8) = x mod 256" by (simp add: unat_of_nat)
  moreover have "x mod (256 * 256 ^ n) = x mod 256 + 256 * (x div 256 mod 256 ^ n)"
    by (simp add: mod_mult2_eq)
  ultimately show ?case by (simp add: Suc)
qed simp

lemma nat_bytes_le_nat: "nat_bytes (length bs) (le_nat bs) = bs"
proof (induction bs)
  case (Cons b bs)
  have b: "unat b < 256" using unsigned_less [of b] by simp
  have "of_nat (unat b + 256 * le_nat bs) = (of_nat (unat b) + of_nat 256 * of_nat (le_nat bs) :: u8)"
    by (simp only: of_nat_add of_nat_mult)
  also have "of_nat 256 = (0 :: u8)" by (subst word_of_nat_eq_0_iff) simp
  finally have "of_nat (unat b + 256 * le_nat bs) = b" by simp
  moreover have "(unat b + 256 * le_nat bs) div 256 = le_nat bs" using b by simp
  ultimately show ?case using Cons by simp
qed simp

lemma le_nat_less: "le_nat bs < 256 ^ length bs"
  using le_nat_nat_bytes [of "length bs" "le_nat bs"] mod_less_divisor [of "256 ^ length bs" "le_nat bs"]
  by (simp add: nat_bytes_le_nat)

definition dec :: "endian \<Rightarrow> u8 list \<Rightarrow> 'a::len word" where
  "dec e bs = (if is_little e then from_le_bytes bs else from_be_bytes bs)"

lemma pow_256: "LENGTH('a::len) = 8 * n \<Longrightarrow> (256::nat) ^ n = 2 ^ LENGTH('a)"
  by (simp add: power_mult)

lemma dec_enc: "LENGTH('a::len) = 8 * n \<Longrightarrow> dec e (enc n e w) = (w :: 'a word)"
proof -
  assume len: "LENGTH('a) = 8 * n"
  have "unat w < 2 ^ LENGTH('a)" by (rule unsigned_less)
  then have "unat w mod 256 ^ n = unat w" by (simp only: pow_256 [OF len] mod_less)
  then show ?thesis by (simp add: dec_def enc_def from_le_bytes_def from_be_bytes_def le_nat_nat_bytes)
qed

lemma enc_dec:
  assumes "LENGTH('a::len) = 8 * n" and "length bs = n"
  shows "enc n e (dec e bs :: 'a word) = bs"
proof -
  have f: "unat (of_nat (le_nat xs) :: 'a word) = le_nat xs" if "length xs = n" for xs
    using le_nat_less [of xs] that by (simp add: unat_of_nat pow_256 [OF assms(1)])
  show ?thesis
    using assms(2) nat_bytes_le_nat [of bs] nat_bytes_le_nat [of "rev bs"]
    by (simp add: enc_def dec_def from_le_bytes_def from_be_bytes_def f)
qed

section \<open>Reading at an offset\<close>

definition usz :: "nat \<Rightarrow> usize" where
  "usz n = of_nat n"

lemma unat_usz [simp]: "n < 2 ^ 64 \<Longrightarrow> unat (usz n) = n"
  by (simp add: usz_def unat_of_nat)

lemma usz_unat [simp]: "usz (unat x) = x"
  by (simp add: usz_def)

lemma unat_incr: "i < n \<Longrightarrow> unat (i + 1 :: usize) = Suc (unat i)"
  using unat_add_usize [of i 1] unat_usize_less [of n] by (simp add: word_less_nat_alt)

definition is_slice :: "'a list \<Rightarrow> bool" where
  "is_slice xs = (length xs < 2 ^ 63)"

text \<open>The bytes \<open>bs\<close> stand at position \<open>i\<close>.\<close>

definition holds_at :: "u8 list \<Rightarrow> nat \<Rightarrow> u8 list \<Rightarrow> bool" where
  "holds_at data i bs = (i + length bs \<le> length data \<and> take (length bs) (drop i data) = bs)"

lemma holds_at_append: "holds_at data i (a @ b) \<longleftrightarrow> holds_at data i a \<and> holds_at data (i + length a) b"
proof
  assume h: "holds_at data i (a @ b)"
  then have "drop i data = a @ b @ drop (length (a @ b)) (drop i data)"
    by (metis append.assoc append_take_drop_id holds_at_def)
  then have "take (length a) (drop i data) = a" "drop (length a) (drop i data) = b @ drop (length (a @ b)) (drop i data)"
    by (metis append_eq_conv_conj)+
  then show "holds_at data i a \<and> holds_at data (i + length a) b"
    using h by (simp add: holds_at_def add.commute)
next
  assume "holds_at data i a \<and> holds_at data (i + length a) b"
  then show "holds_at data i (a @ b)"
    by (simp add: holds_at_def take_add add.commute add.left_commute)
qed

lemma holds_at_Nil [simp]: "holds_at data i [] \<longleftrightarrow> i \<le> length data"
  by (simp add: holds_at_def)

lemma slice_get_usz:
  assumes "is_slice data" and "i + n \<le> length data"
  shows "slice_get data (usz i) (usz (i + n)) = Some (take n (drop i data))"
  using assms by (simp add: slice_get_def is_slice_def word_le_nat_alt)

lemma get_bytes_at: "is_slice data \<Longrightarrow> holds_at data i bs \<Longrightarrow> get_bytes data (usz i) (usz (i + length bs)) = Ok bs"
  by (simp add: get_bytes_def holds_at_def slice_get_usz)

lemma checked_add_usz: "i + n < 2 ^ 64 \<Longrightarrow> checked_add (usz i) (usz n) = Some (usz (i + n))"
  by (simp add: checked_add_def) (simp add: usz_def)

lemma checked_mul_usz: "i * n < 2 ^ 64 \<Longrightarrow> i < 2 ^ 64 \<Longrightarrow> n < 2 ^ 64 \<Longrightarrow> checked_mul (usz i) (usz n) = Some (usz (i * n))"
  by (simp add: checked_mul_def) (simp add: usz_def)

lemma safe_from_fits:
  assumes "is_slice data" and "i + n \<le> length data"
  shows "safe_from n e (usz i) data = (Ok (dec e (take n (drop i data))), usz (i + n))"
proof -
  have b: "i + n < 2 ^ 63" using assms by (simp add: is_slice_def)
  then have "checked_add (usz i) (of_nat n) = Some (usz (i + n))"
    by (simp add: checked_add_def unat_of_nat usz_def)
  then show ?thesis using slice_get_usz [OF assms] by (simp add: safe_from_def dec_def)
qed

lemma safe_from_short:
  assumes "is_slice data" and "i \<le> length data" and "\<not> i + n \<le> length data" and "n < 2 ^ 63"
  shows "safe_from n e (usz i) data = (Err (SliceReadError (usz i) (usz (i + n))), usz i)"
proof -
  have b: "i + n < 2 ^ 64" using assms by (simp add: is_slice_def)
  then have "checked_add (usz i) (of_nat n) = Some (usz (i + n))"
    by (simp add: checked_add_def unat_of_nat usz_def)
  then show ?thesis using assms(3) b by (simp add: safe_from_def slice_get_def)
qed

lemma safe_from_at:
  assumes "LENGTH('a::len) = 8 * n" and "is_slice data" and "holds_at data i (enc n e (w :: 'a word))"
  shows "safe_from n e (usz i) data = (Ok w, usz (i + n))"
proof -
  have "i + n \<le> length data" "take n (drop i data) = enc n e w" using assms(3) by (auto simp: holds_at_def)
  then show ?thesis by (simp add: safe_from_fits [OF assms(2)] dec_enc [OF assms(1)])
qed

lemma and_then_st_Ok: "and_then_st r k = (Ok y, s') \<Longrightarrow> (\<And>x s. r = (Ok x, s) \<Longrightarrow> k x s = (Ok y, s') \<Longrightarrow> thesis) \<Longrightarrow> thesis"
  by (auto simp: and_then_st_eq_Ok)

lemma safe_from_Ok:
  "safe_from n e off data = (Ok x, off') \<Longrightarrow> n < 2 ^ 64 \<Longrightarrow> unat off' = unat off + n \<and> unat off' \<le> length data"
  by (auto simp: safe_from_def checked_add_def unat_add_usize unat_of_nat slice_get_def split: option.splits if_splits)

named_theorems elf_at \<open>reading a field whose bytes stand at the offset\<close>

lemma parse_at_elf [elf_at]:
  "is_slice data \<Longrightarrow> holds_at data i (enc 1 e a) \<Longrightarrow> parse_u8_at e (usz i) data = (Ok a, usz (i + 1))"
  "is_slice data \<Longrightarrow> holds_at data i (enc 2 e b) \<Longrightarrow> parse_u16_at e (usz i) data = (Ok b, usz (i + 2))"
  "is_slice data \<Longrightarrow> holds_at data i (enc 4 e c) \<Longrightarrow> parse_u32_at e (usz i) data = (Ok c, usz (i + 4))"
  "is_slice data \<Longrightarrow> holds_at data i (enc 8 e d) \<Longrightarrow> parse_u64_at e (usz i) data = (Ok d, usz (i + 8))"
  "is_slice data \<Longrightarrow> holds_at data i (enc 4 e c) \<Longrightarrow> parse_i32_at e (usz i) data = (Ok c, usz (i + 4))"
  "is_slice data \<Longrightarrow> holds_at data i (enc 8 e d) \<Longrightarrow> parse_i64_at e (usz i) data = (Ok d, usz (i + 8))"
  by (simp_all add: parse_u8_at_def parse_u16_at_def parse_u32_at_def parse_u64_at_def parse_i32_at_def
      parse_i64_at_def safe_from_at)

section \<open>Readers\<close>

text \<open>
  \<open>reads data n Q q\<close>: the reader \<open>q\<close> succeeds exactly when \<open>n\<close> bytes are left, moves past them and
  returns a value that stands in \<open>Q\<close> to these bytes; with fewer bytes it fails with a read error, its
  offset moved past the fields it could read.
\<close>

definition reads ::
    "u8 list \<Rightarrow> nat \<Rightarrow> ('s \<Rightarrow> u8 list \<Rightarrow> bool) \<Rightarrow> (usize \<Rightarrow> (parse_error, 's) outcome \<times> usize) \<Rightarrow> bool" where
  "reads data n Q q =
    (\<forall>i \<le> length data.
       if i + n \<le> length data then \<exists>x. q (usz i) = (Ok x, usz (i + n)) \<and> Q x (take n (drop i data))
       else \<exists>a b j. q (usz i) = (Err (SliceReadError a b), usz j) \<and> i \<le> j \<and> j \<le> length data)"

lemma reads_safe_from:
  assumes "is_slice data" and "LENGTH('a::len) = 8 * n" and "n \<le> 8"
  shows "reads data n (\<lambda>x bs. enc n e x = bs) (\<lambda>off. safe_from n e off data :: (parse_error, 'a word) outcome \<times> usize)"
  unfolding reads_def
proof (intro allI impI)
  fix i assume i: "i \<le> length data"
  show "if i + n \<le> length data
        then \<exists>x. (safe_from n e (usz i) data :: (parse_error, 'a word) outcome \<times> usize) = (Ok x, usz (i + n)) \<and>
          enc n e x = take n (drop i data)
        else \<exists>a b j. (safe_from n e (usz i) data :: (parse_error, 'a word) outcome \<times> usize) =
          (Err (SliceReadError a b), usz j) \<and> i \<le> j \<and> j \<le> length data"
    using i assms by (auto simp: safe_from_fits safe_from_short enc_dec)
qed

lemma reads_field:
  "is_slice data \<Longrightarrow> reads data 1 (\<lambda>x bs. enc 1 e x = bs) (\<lambda>off. parse_u8_at e off data)"
  "is_slice data \<Longrightarrow> reads data 2 (\<lambda>x bs. enc 2 e x = bs) (\<lambda>off. parse_u16_at e off data)"
  "is_slice data \<Longrightarrow> reads data 4 (\<lambda>x bs. enc 4 e x = bs) (\<lambda>off. parse_u32_at e off data)"
  "is_slice data \<Longrightarrow> reads data 8 (\<lambda>x bs. enc 8 e x = bs) (\<lambda>off. parse_u64_at e off data)"
  "is_slice data \<Longrightarrow> reads data 4 (\<lambda>x bs. enc 4 e x = bs) (\<lambda>off. parse_i32_at e off data)"
  "is_slice data \<Longrightarrow> reads data 8 (\<lambda>x bs. enc 8 e x = bs) (\<lambda>off. parse_i64_at e off data)"
  unfolding parse_u8_at_def parse_u16_at_def parse_u32_at_def parse_u64_at_def parse_i32_at_def parse_i64_at_def
  by (rule reads_safe_from; simp)+

lemma reads_ret: "Q x [] \<Longrightarrow> reads data 0 Q (\<lambda>off. (Ok x, off))"
  by (simp add: reads_def)

lemma reads_bind:
  assumes q: "reads data n P q"
    and f: "\<And>x bs. P x bs \<Longrightarrow> length bs = n \<Longrightarrow> reads data m (\<lambda>y bs'. Q y (bs @ bs')) (f x)"
  shows "reads data (n + m) Q (\<lambda>off. and_then_st (q off) f)"
  unfolding reads_def
proof (intro allI impI)
  fix i assume i: "i \<le> length data"
  note q' = q [unfolded reads_def, rule_format, OF i]
  show "if i + (n + m) \<le> length data
        then \<exists>x. and_then_st (q (usz i)) f = (Ok x, usz (i + (n + m))) \<and> Q x (take (n + m) (drop i data))
        else \<exists>a b j. and_then_st (q (usz i)) f = (Err (SliceReadError a b), usz j) \<and> i \<le> j \<and> j \<le> length data"
  proof (cases "i + n \<le> length data")
    case True
    then obtain x where x: "q (usz i) = (Ok x, usz (i + n))" "P x (take n (drop i data))" using q' by auto
    have "reads data m (\<lambda>y bs'. Q y (take n (drop i data) @ bs')) (f x)" using f [OF x(2)] True by simp
    note fx = this [unfolded reads_def, rule_format, OF True]
    show ?thesis
    proof (cases "i + n + m \<le> length data")
      case True
      then show ?thesis using fx x(1) by (auto simp: add.assoc take_add add.commute [of n i])
    next
      case False
      then obtain a b j where "f x (usz (i + n)) = (Err (SliceReadError a b), usz j)" "i + n \<le> j" "j \<le> length data"
        using fx by auto
      then show ?thesis using False x(1) by (auto simp: add.assoc intro!: exI [of _ j])
    qed
  next
    case False
    then show ?thesis using q' by auto
  qed
qed

lemma reads_cong: "reads data m Q q \<Longrightarrow> m = n \<Longrightarrow> reads data n Q q"
  by simp

lemma reads_weaken: "reads data n P q \<Longrightarrow> (\<And>x bs. P x bs \<Longrightarrow> Q x bs) \<Longrightarrow> reads data n Q q"
  unfolding reads_def by (metis (mono_tags, lifting))

lemma reads_fits:
  "reads data n Q q \<Longrightarrow> i + n \<le> length data \<Longrightarrow> \<exists>x. q (usz i) = (Ok x, usz (i + n)) \<and> Q x (take n (drop i data))"
  by (auto simp: reads_def dest!: spec [of _ i])

lemma reads_short:
  "reads data n Q q \<Longrightarrow> i \<le> length data \<Longrightarrow> length data < i + n \<Longrightarrow>
    \<exists>a b j. q (usz i) = (Err (SliceReadError a b), usz j) \<and> i \<le> j \<and> j \<le> length data"
  by (auto simp: reads_def dest!: spec [of _ i])

section \<open>Loops over iterators\<close>

primrec list_try :: "'x list \<Rightarrow> ('x \<Rightarrow> 'y option option) \<Rightarrow> 'y option option" where
  "list_try [] f = Some None"
| "list_try (x # xs) f = Option.bind (f x) (\<lambda>r. case r of Some y \<Rightarrow> Some (Some y) | None \<Rightarrow> list_try xs f)"

lemma iter_try_list: "iter_collect nxt it = Some xs \<Longrightarrow> iter_try nxt it f = list_try xs f"
proof (induction xs arbitrary: it)
  case Nil
  then have "fst (nxt it) = None"
    by (subst (asm) iter_collect.simps) (auto split: prod.splits option.splits simp: bind_eq_Some_conv)
  then show ?case by (subst iter_try.simps) (auto split: prod.splits option.splits)
next
  case (Cons x xs)
  then obtain it' where "nxt it = (Some x, it')" "iter_collect nxt it' = Some xs"
    by (subst (asm) (2) iter_collect.simps) (auto split: prod.splits option.splits simp: bind_eq_Some_conv)
  then show ?case using Cons.IH by (subst iter_try.simps) (auto split: option.splits)
qed

lemma iter_find_list: "iter_collect nxt it = Some xs \<Longrightarrow> iter_find nxt it p = Some (List.find p xs)"
proof -
  have "list_try xs (\<lambda>x. Some (if p x then Some x else None)) = Some (List.find p xs)"
    by (induction xs) auto
  then show "iter_collect nxt it = Some xs \<Longrightarrow> ?thesis" by (simp add: iter_find_def iter_try_list)
qed

primrec list_fold :: "'x list \<Rightarrow> 's \<Rightarrow> ('x \<Rightarrow> 's \<Rightarrow> ('e, 's \<times> bool) outcome) \<Rightarrow> ('e, 's) outcome" where
  "list_fold [] s body = Ok s"
| "list_fold (x # xs) s body =
    and_then (body x s) (\<lambda>(s', stop). if stop then Ok s' else list_fold xs s' body)"

lemma iter_fold_list: "iter_collect nxt it = Some xs \<Longrightarrow> iter_fold nxt it s body = Some (list_fold xs s body)"
proof (induction xs arbitrary: it s)
  case Nil
  then have "fst (nxt it) = None"
    by (subst (asm) iter_collect.simps) (auto split: prod.splits option.splits simp: bind_eq_Some_conv)
  then show ?case by (subst iter_fold.simps) (auto split: prod.splits option.splits)
next
  case (Cons x xs)
  then obtain it' where "nxt it = (Some x, it')" "iter_collect nxt it' = Some xs"
    by (subst (asm) (2) iter_collect.simps) (auto split: prod.splits option.splits simp: bind_eq_Some_conv)
  then show ?case using Cons.IH by (subst iter_fold.simps) (auto split: outcome.splits)
qed

lemma list_fold_not_Panic:
  "(\<And>x s. x \<in> set xs \<Longrightarrow> body x s \<noteq> Panic) \<Longrightarrow> list_fold xs s body \<noteq> Panic"
  by (induction xs arbitrary: s) (auto simp: and_then_eq_Panic split: if_splits)

text \<open>An iterator whose every step decreases a measure ends.\<close>

lemma iter_collect_ends:
  assumes step: "\<And>it x it'. I it \<Longrightarrow> nxt it = (Some x, it') \<Longrightarrow> I it' \<and> m it' < (m it :: nat)" and "I it"
  shows "\<exists>xs. iter_collect nxt it = Some xs \<and> length xs \<le> m it"
  using \<open>I it\<close>
proof (induction "m it" arbitrary: it rule: less_induct)
  case less
  show ?case
  proof (cases "fst (nxt it)")
    case None
    then show ?thesis by (subst iter_collect.simps) (auto split: prod.splits)
  next
    case (Some x)
    then obtain it' where n: "nxt it = (Some x, it')" by (metis prod.collapse)
    then obtain xs where "iter_collect nxt it' = Some xs" "length xs \<le> m it'" "m it' < m it"
      using less step [OF less.prems n] by blast
    then show ?thesis using n by (subst iter_collect.simps) auto
  qed
qed

lemma iter_collect_all:
  assumes step: "\<And>it x it'. I it \<Longrightarrow> nxt it = (Some x, it') \<Longrightarrow> I it' \<and> Q x"
  shows "I it \<Longrightarrow> iter_collect nxt it = Some xs \<Longrightarrow> x \<in> set xs \<Longrightarrow> Q x"
proof (induction xs arbitrary: it)
  case (Cons y ys)
  then obtain it' where "nxt it = (Some y, it')" "iter_collect nxt it' = Some ys"
    by (subst (asm) (2) iter_collect.simps) (auto split: prod.splits option.splits simp: bind_eq_Some_conv)
  then show ?case using Cons.IH [of it'] step [OF Cons.prems(1)] Cons.prems(3) by auto
qed simp

lemma list_try_cong: "(\<And>x. x \<in> set xs \<Longrightarrow> f x = g x) \<Longrightarrow> list_try xs f = list_try xs g"
proof (induction xs)
  case (Cons x xs)
  then have "list_try xs f = list_try xs g" "f x = g x" by simp_all
  then show ?case by (simp only: list_try.simps)
qed simp

lemma list_try_find:
  "list_try xs (\<lambda>x. Some (if p x then Some (r x) else None)) = Some (map_option r (List.find p xs))"
  by (induction xs) auto

lemma find_append: "List.find q (as @ bs) = (case List.find q as of None \<Rightarrow> List.find q bs | Some a \<Rightarrow> Some a)"
  by (induction as) auto

lemma list_try_nested:
  "list_try xs (\<lambda>x. list_try (ys x) (\<lambda>y. Some (if p x y then Some (r x y) else None))) =
    Some (map_option (\<lambda>(x, y). r x y) (List.find (\<lambda>(x, y). p x y) (concat (map (\<lambda>x. map (Pair x) (ys x)) xs))))"
proof (induction xs)
  case (Cons x xs)
  have "List.find (\<lambda>(x, y). p x y) (map (Pair x) l) = map_option (Pair x) (List.find (p x) l)" for l
    by (induction l) auto
  then show ?case using Cons by (auto simp: list_try_find find_append split: option.splits)
qed simp

end
