(* ===== verification/Elf_Table.thy ===== *)
theory Elf_Table
  imports Elf_Parse
begin

text \<open>
  The contract of \<^verbatim>\<open>trait ParseAt\<close> (\<^verbatim>\<open>elf/src/parse.rs\<close>) as the locale \<open>parsable\<close>, and what tables and
  iterators over a type that keeps it do: a table of any bytes has one entry for every whole entry size,
  \<^verbatim>\<open>get\<close> returns these and an error beyond them, and iteration ends after exactly these.
\<close>

section \<open>The contract of an entry type\<close>

text \<open>
  \<open>wr\<close> writes an entry, \<open>ok\<close> says which values an entry of a class can have. Reading inverts writing,
  and reads exactly the entry's size, whatever the bytes are. In an \<open>exact_parsable\<close> type the entry
  determines all its bytes.
\<close>

locale parsable =
  fixes P :: "'s parse_at"
    and wr :: "endian \<Rightarrow> elf_class \<Rightarrow> 's \<Rightarrow> u8 list"
    and ok :: "elf_class \<Rightarrow> 's \<Rightarrow> bool"
  assumes entry_size: "0 < unat (pa_size_for P c)" "unat (pa_size_for P c) \<le> 64"
    and entry_length: "length (wr e c x) = unat (pa_size_for P c)"
    and read_back: "is_slice data \<Longrightarrow> ok c x \<Longrightarrow> holds_at data i (wr e c x) \<Longrightarrow>
          pa_parse_at P e c (usz i) data = (Ok x, usz (i + unat (pa_size_for P c)))"
    and entry_reads: "is_slice data \<Longrightarrow>
          reads data (unat (pa_size_for P c)) (\<lambda>x bs. ok c x) (\<lambda>off. pa_parse_at P e c off data)"

locale exact_parsable = parsable +
  assumes entry_exact: "is_slice data \<Longrightarrow>
          reads data (unat (pa_size_for P c)) (\<lambda>x bs. ok c x \<and> wr e c x = bs) (\<lambda>off. pa_parse_at P e c off data)"

lemma parsableI:
  fixes P :: "'s parse_at" and ok :: "elf_class \<Rightarrow> 's \<Rightarrow> bool"
  assumes "\<And>c. 0 < unat (pa_size_for P c) \<and> unat (pa_size_for P c) \<le> 64"
    and "\<And>e c x. length (wr e c x) = unat (pa_size_for P c)"
    and "\<And>data e c x i. is_slice data \<Longrightarrow> ok c x \<Longrightarrow> holds_at data i (wr e c x) \<Longrightarrow>
          pa_parse_at P e c (usz i) data = (Ok x, usz (i + unat (pa_size_for P c)))"
    and "\<And>data e c. is_slice data \<Longrightarrow>
          reads data (unat (pa_size_for P c)) (\<lambda>x bs. ok c x) (\<lambda>off. pa_parse_at P e c off data)"
  shows "parsable P wr ok"
  using assms by unfold_locales blast+

lemma exact_parsableI:
  fixes P :: "'s parse_at" and ok :: "elf_class \<Rightarrow> 's \<Rightarrow> bool"
  assumes "\<And>c. 0 < unat (pa_size_for P c) \<and> unat (pa_size_for P c) \<le> 64"
    and "\<And>e c x. length (wr e c x) = unat (pa_size_for P c)"
    and "\<And>data e c x i. is_slice data \<Longrightarrow> ok c x \<Longrightarrow> holds_at data i (wr e c x) \<Longrightarrow>
          pa_parse_at P e c (usz i) data = (Ok x, usz (i + unat (pa_size_for P c)))"
    and exact: "\<And>data e c. is_slice data \<Longrightarrow>
          reads data (unat (pa_size_for P c)) (\<lambda>x bs. ok c x \<and> wr e c x = bs) (\<lambda>off. pa_parse_at P e c off data)"
  shows "exact_parsable P wr ok"
  by (rule exact_parsable.intro [OF parsableI], (fact assms)+)
    (auto intro: exact_parsable_axioms.intro exact reads_weaken [OF exact])

section \<open>Tables and iterators\<close>

text \<open>The entries of a table, read one after the other at multiples of the entry size.\<close>

definition entry_count :: "'s parse_at \<Rightarrow> parsing_table \<Rightarrow> nat" where
  "entry_count P t = length (pt_data t) div unat (pa_size_for P (pt_class t))"

definition table_entries :: "'s parse_at \<Rightarrow> parsing_table \<Rightarrow> 's list" where
  "table_entries P t =
    map (\<lambda>i. case fst (pa_parse_at P (pt_endian t) (pt_class t) (usz (i * unat (pa_size_for P (pt_class t)))) (pt_data t)) of
               Ok x \<Rightarrow> x) [0..<entry_count P t]"

lemma length_table_entries [simp]: "length (table_entries P t) = entry_count P t"
  by (simp add: table_entries_def)

text \<open>
  What an entry type promises of its reader, and of a table of its entries: at any position in any bytes,
  the reader succeeds exactly when an entry's size is left, moves past it, and returns a value of the class
  that writes back to these bytes; a table has as many entries as fit whole, and length, indexing,
  iteration and search are those of the list of these entries.
\<close>

definition exact_reader ::
    "'s parse_at \<Rightarrow> (endian \<Rightarrow> elf_class \<Rightarrow> 's \<Rightarrow> u8 list) \<Rightarrow> (elf_class \<Rightarrow> 's \<Rightarrow> bool) \<Rightarrow> bool" where
  "exact_reader P wr ok =
    (\<forall>data e c i. is_slice data \<longrightarrow> i \<le> length data \<longrightarrow>
       (if i + unat (pa_size_for P c) \<le> length data
        then \<exists>x. pa_parse_at P e c (usz i) data = (Ok x, usz (i + unat (pa_size_for P c))) \<and> ok c x \<and>
               wr e c x = take (unat (pa_size_for P c)) (drop i data)
        else \<exists>a b j. pa_parse_at P e c (usz i) data = (Err (SliceReadError a b), usz j) \<and> i \<le> j \<and> j \<le> length data))"

text \<open>A reader that may drop bytes: it reads the size, and the value fits the class.\<close>

definition typed_reader :: "'s parse_at \<Rightarrow> (elf_class \<Rightarrow> 's \<Rightarrow> bool) \<Rightarrow> bool" where
  "typed_reader P ok =
    (\<forall>data e c i. is_slice data \<longrightarrow> i \<le> length data \<longrightarrow>
       (if i + unat (pa_size_for P c) \<le> length data
        then \<exists>x. pa_parse_at P e c (usz i) data = (Ok x, usz (i + unat (pa_size_for P c))) \<and> ok c x
        else \<exists>a b j. pa_parse_at P e c (usz i) data = (Err (SliceReadError a b), usz j) \<and> i \<le> j \<and> j \<le> length data))"

definition exact_tables ::
    "'s parse_at \<Rightarrow> (endian \<Rightarrow> elf_class \<Rightarrow> 's \<Rightarrow> u8 list) \<Rightarrow> (elf_class \<Rightarrow> 's \<Rightarrow> bool) \<Rightarrow> bool" where
  "exact_tables P wr ok =
    (\<forall>t. is_slice (pt_data t) \<longrightarrow>
       (\<exists>xs. length xs = length (pt_data t) div unat (pa_size_for P (pt_class t)) \<and>
          (\<forall>x \<in> set xs. ok (pt_class t) x) \<and>
          concat (map (wr (pt_endian t) (pt_class t)) xs) = take (length xs * unat (pa_size_for P (pt_class t))) (pt_data t) \<and>
          unat (table_len P t) = length xs \<and> (table_is_empty P t \<longleftrightarrow> xs = []) \<and>
          (\<forall>i. if unat i < length xs then table_get P t i = Ok (xs ! unat i) else \<exists>err. table_get P t i = Err err) \<and>
          iter_collect (iterator_next P) (table_iter t) = Some xs \<and>
          (\<forall>p. iter_find (iterator_next P) (table_iter t) p = Some (List.find p xs))))"

context parsable
begin

abbreviation sz :: "elf_class \<Rightarrow> nat" where
  "sz c \<equiv> unat (pa_size_for P c)"

lemma entry_fits: "i < entry_count P t \<Longrightarrow> i * sz (pt_class t) + sz (pt_class t) \<le> length (pt_data t)"
proof -
  assume "i < entry_count P t"
  then have "Suc i * sz (pt_class t) \<le> entry_count P t * sz (pt_class t)" by (intro mult_le_mono1) simp
  also have "\<dots> \<le> length (pt_data t)" by (simp add: entry_count_def)
  finally show ?thesis by simp
qed

lemma entry_short: "entry_count P t \<le> i \<Longrightarrow> length (pt_data t) < i * sz (pt_class t) + sz (pt_class t)"
proof -
  assume "entry_count P t \<le> i"
  then have "entry_count P t * sz (pt_class t) \<le> i * sz (pt_class t)" by (rule mult_le_mono1)
  moreover have "length (pt_data t) < sz (pt_class t) + entry_count P t * sz (pt_class t)"
    using dividend_less_div_times [OF entry_size(1)] by (simp add: entry_count_def)
  ultimately show ?thesis by linarith
qed

lemma entry_at:
  assumes "is_slice (pt_data t)" and "i < entry_count P t"
  shows "pa_parse_at P (pt_endian t) (pt_class t) (usz (i * sz (pt_class t))) (pt_data t) =
      (Ok (table_entries P t ! i), usz (Suc i * sz (pt_class t)))"
    and "ok (pt_class t) (table_entries P t ! i)"
  using reads_fits [OF entry_reads [OF assms(1)] entry_fits [OF assms(2)], of "pt_endian t"] assms(2)
  by (auto simp: table_entries_def add.commute)

lemma entries_wf: "is_slice (pt_data t) \<Longrightarrow> x \<in> set (table_entries P t) \<Longrightarrow> ok (pt_class t) x"
  by (auto simp: in_set_conv_nth entry_at)

lemma table_len: "is_slice (pt_data t) \<Longrightarrow> unat (table_len P t) = entry_count P t"
  by (simp add: table_len_def entry_count_def unat_div unat_of_nat is_slice_def)

lemma table_is_empty: "is_slice (pt_data t) \<Longrightarrow> table_is_empty P t \<longleftrightarrow> entry_count P t = 0"
  by (metis table_is_empty_def table_len unat_0 unsigned_word_eqI)

lemma index_start:
  "unat (index :: usize) * sz c < 2 ^ 64 \<Longrightarrow>
     checked_mul index (pa_size_for P c) = Some (usz (unat index * sz c))"
  by (simp add: checked_mul_def usz_def)

lemma table_get:
  assumes "is_slice (pt_data t)" and "unat index < entry_count P t"
  shows "table_get P t index = Ok (table_entries P t ! unat index)"
proof -
  have l: "unat index * sz (pt_class t) + sz (pt_class t) \<le> length (pt_data t)" by (rule entry_fits [OF assms(2)])
  then have ne: "pt_data t \<noteq> []" using entry_size(1) [of "pt_class t"] by auto
  have "unat index * sz (pt_class t) < 2 ^ 64" using l assms(1) by (simp add: is_slice_def)
  then show ?thesis
    using ne l by (simp add: table_get_def index_start entry_at [OF assms])
qed

lemma table_get_beyond:
  assumes "is_slice (pt_data t)" and "entry_count P t \<le> unat index"
  shows "\<exists>err. table_get P t index = Err err"
proof (cases "pt_data t = [] \<or> 2 ^ 64 \<le> unat index * sz (pt_class t) \<or> length (pt_data t) < unat index * sz (pt_class t)")
  case True
  then show ?thesis
    by (cases "unat index * sz (pt_class t) < 2 ^ 64") (auto simp: table_get_def checked_mul_def unat_mult_usize)
next
  case False
  then have i: "unat index * sz (pt_class t) \<le> length (pt_data t)" "unat index * sz (pt_class t) < 2 ^ 64" by auto
  obtain a b j where "pa_parse_at P (pt_endian t) (pt_class t) (usz (unat index * sz (pt_class t))) (pt_data t) =
      (Err (SliceReadError a b), usz j)"
    using reads_short [OF entry_reads [OF assms(1)] i(1) entry_short [OF assms(2)]] by blast
  then show ?thesis using False i by (simp add: table_get_def index_start)
qed

lemma iterator_next_at:
  assumes "is_slice (pt_data t)"
  shows "iterator_next P ((table_iter t)\<lparr>pi_offset := usz (i * sz (pt_class t))\<rparr>) =
      (if i < entry_count P t
       then (Some (table_entries P t ! i), (table_iter t)\<lparr>pi_offset := usz (Suc i * sz (pt_class t))\<rparr>)
       else iterator_next P ((table_iter t)\<lparr>pi_offset := usz (i * sz (pt_class t))\<rparr>))"
  using entry_at [OF assms, of i] entry_fits [of i t] entry_size(1) [of "pt_class t"]
  by (auto simp: iterator_next_def table_iter_def iterator_new_def)

lemma iterator_next_stop:
  assumes "is_slice (pt_data t)"
  shows "\<exists>it'. iterator_next P ((table_iter t)\<lparr>pi_offset := usz (entry_count P t * sz (pt_class t))\<rparr>) = (None, it')"
proof -
  have "entry_count P t * sz (pt_class t) \<le> length (pt_data t)" by (simp add: entry_count_def)
  from reads_short [OF entry_reads [OF assms] this entry_short [OF order.refl], of "pt_endian t"]
  obtain a b j where "pa_parse_at P (pt_endian t) (pt_class t) (usz (entry_count P t * sz (pt_class t))) (pt_data t) =
      (Err (SliceReadError a b), usz j)" by blast
  then show ?thesis by (simp add: iterator_next_def table_iter_def iterator_new_def)
qed

lemma iterate_from:
  assumes "is_slice (pt_data t)" and "i \<le> entry_count P t"
  shows "iter_collect (iterator_next P) ((table_iter t)\<lparr>pi_offset := usz (i * sz (pt_class t))\<rparr>) =
    Some (drop i (table_entries P t))"
  using assms(2)
proof (induction "entry_count P t - i" arbitrary: i)
  case 0
  then show ?case using iterator_next_stop [OF assms(1)] by (subst iter_collect.simps) (auto split: prod.split)
next
  case (Suc n)
  then have i: "i < entry_count P t" "n = entry_count P t - Suc i" by auto
  then have d: "drop i (table_entries P t) = table_entries P t ! i # drop (Suc i) (table_entries P t)"
    by (simp add: Cons_nth_drop_Suc)
  note nxt = iterator_next_at [OF assms(1), of i, unfolded if_P [OF i(1)]]
  show ?case using i(1) Suc.hyps(1) [OF i(2)] by (subst iter_collect.simps) (simp add: nxt d)
qed

lemma table_iter_start: "(table_iter t)\<lparr>pi_offset := usz (0 * n)\<rparr> = table_iter t"
  by (simp add: table_iter_def iterator_new_def usz_def)

lemma table_collect: "is_slice (pt_data t) \<Longrightarrow> iter_collect (iterator_next P) (table_iter t) = Some (table_entries P t)"
  using iterate_from [of t 0] by (simp only: table_iter_start) simp

lemma table_find:
  "is_slice (pt_data t) \<Longrightarrow> iter_find (iterator_next P) (table_iter t) p = Some (List.find p (table_entries P t))"
  by (rule iter_find_list [OF table_collect])

lemma typed: "typed_reader P ok"
  using entry_reads unfolding typed_reader_def reads_def by simp

lemma length_written: "length (concat (map (wr e c) xs)) = length xs * sz c"
  by (induction xs) (simp_all add: entry_length)

lemma holds_at_written: "i < length xs \<Longrightarrow> holds_at (concat (map (wr e c) xs)) (i * sz c) (wr e c (xs ! i))"
proof (induction xs arbitrary: i)
  case (Cons x xs)
  show ?case
  proof (cases i)
    case 0
    then show ?thesis by (simp add: holds_at_def)
  next
    case (Suc j)
    then have "holds_at (concat (map (wr e c) xs)) (j * sz c) (wr e c (xs ! j))" using Cons by simp
    then show ?thesis using Suc by (simp add: holds_at_def entry_length)
  qed
qed simp

lemma written_entries:
  assumes "is_slice (concat (map (wr e c) xs))" and "\<And>x. x \<in> set xs \<Longrightarrow> ok c x"
  shows "table_entries P (table_new e c (concat (map (wr e c) xs))) = xs"
proof -
  let ?t = "table_new e c (concat (map (wr e c) xs))"
  have t: "pt_data ?t = concat (map (wr e c) xs)" "pt_class ?t = c" "pt_endian ?t = e" by (simp_all add: table_new_def)
  have n: "entry_count P ?t = length xs" using entry_size(1) [of c] by (simp add: entry_count_def t length_written)
  show ?thesis
  proof (rule nth_equalityI)
    fix i assume "i < length (table_entries P ?t)"
    then have i: "i < length xs" by (simp add: n)
    show "table_entries P ?t ! i = xs ! i"
      using read_back [OF assms(1) assms(2) holds_at_written [OF i]] entry_at(1) [of ?t i] i assms(1)
      by (simp add: t n)
  qed (simp add: n)
qed

end

context exact_parsable
begin

lemma entries_exact:
  assumes "is_slice (pt_data t)"
  shows "concat (map (wr (pt_endian t) (pt_class t)) (table_entries P t)) =
    take (entry_count P t * sz (pt_class t)) (pt_data t)"
proof -
  have "concat (map (wr (pt_endian t) (pt_class t)) (take i (table_entries P t))) = take (i * sz (pt_class t)) (pt_data t)"
    if "i \<le> entry_count P t" for i
    using that
  proof (induction i)
    case (Suc i)
    then have i: "i < entry_count P t" by simp
    from reads_fits [OF entry_exact [OF assms] entry_fits [OF i], of "pt_endian t"]
    have "wr (pt_endian t) (pt_class t) (table_entries P t ! i) =
        take (sz (pt_class t)) (drop (i * sz (pt_class t)) (pt_data t))"
      by (auto simp: entry_at [OF assms i])
    then show ?case
      using Suc.IH i by (simp add: take_Suc_conv_app_nth take_add add.commute [of "sz _"])
  qed simp
  from this [OF order.refl] show ?thesis by simp
qed

lemma reader: "exact_reader P wr ok"
  using entry_exact unfolding exact_reader_def reads_def by simp

lemma tables: "exact_tables P wr ok"
  unfolding exact_tables_def
proof (intro allI impI)
  fix t :: parsing_table assume t: "is_slice (pt_data t)"
  have beyond: "\<exists>err. table_get P t i = Err err" if "\<not> unat i < entry_count P t" for i
    using table_get_beyond [OF t, of i] that by simp
  have e: "table_entries P t = [] \<longleftrightarrow> entry_count P t = 0" by (metis length_0_conv length_table_entries)
  show "\<exists>xs. length xs = length (pt_data t) div sz (pt_class t) \<and> (\<forall>x \<in> set xs. ok (pt_class t) x) \<and>
      concat (map (wr (pt_endian t) (pt_class t)) xs) = take (length xs * sz (pt_class t)) (pt_data t) \<and>
      unat (table_len P t) = length xs \<and> (table_is_empty P t \<longleftrightarrow> xs = []) \<and>
      (\<forall>i. if unat i < length xs then table_get P t i = Ok (xs ! unat i) else \<exists>err. table_get P t i = Err err) \<and>
      iter_collect (iterator_next P) (table_iter t) = Some xs \<and>
      (\<forall>p. iter_find (iterator_next P) (table_iter t) p = Some (List.find p xs))"
    by (rule exI [of _ "table_entries P t"])
      (use t beyond e in \<open>auto simp: entry_count_def [symmetric] entries_wf entries_exact table_len table_is_empty table_get
        table_collect table_find\<close>)
qed

end

end
