(* ===== verification/Elf_Structs.thy ===== *)
theory Elf_Structs
  imports Elf_Table
begin

text \<open>
  The fixed-size entries of an ELF file and their readers: section and program headers, symbols,
  relocations, dynamic entries and compression headers (\<^verbatim>\<open>elf/src/{section,segment,symbol,relocation,
  dynamic,compression}.rs\<close>). A 32-bit file stores addresses and sizes in 4 bytes, which the reader
  widens. For each type: the struct, its \<^verbatim>\<open>parse_at\<close> and \<^verbatim>\<open>size_for\<close>, the bytes the format gives it, which
  values a class can hold, and the interpretation of the contract of \<^verbatim>\<open>ParseAt\<close>.
\<close>

section \<open>Casts\<close>

definition u32_as_u64 :: "32 word \<Rightarrow> u64" where
  "u32_as_u64 x = ucast x"

definition i32_as_i64 :: "32 word \<Rightarrow> u64" where
  "i32_as_i64 x = scast x"

definition low32 :: "u64 \<Rightarrow> 32 word" where
  "low32 x = ucast x"

definition fits32 :: "u64 \<Rightarrow> bool" where
  "fits32 x = (unat x < 2 ^ 32)"

definition sfits32 :: "u64 \<Rightarrow> bool" where
  "sfits32 x = (- (2 ^ 31) \<le> sint x \<and> sint x < 2 ^ 31)"

lemma low32_widen [simp]: "low32 (u32_as_u64 x) = x"
  by (rule bit_word_eqI) (simp add: low32_def u32_as_u64_def bit_simps)

lemma widen_low32 [simp]: "fits32 x \<Longrightarrow> u32_as_u64 (low32 x) = x"
proof -
  assume "fits32 x"
  then have "take_bit 32 (unat x) = unat x" by (simp add: fits32_def take_bit_nat_eq_self_iff)
  then have "take_bit 32 x = x" by (metis unsigned_take_bit_eq unsigned_word_eqI)
  moreover have "u32_as_u64 (low32 x) = take_bit 32 x"
    by (rule bit_word_eqI) (auto simp: low32_def u32_as_u64_def bit_simps)
  ultimately show ?thesis by simp
qed

lemma fits32_widen [simp]: "fits32 (u32_as_u64 x)"
proof -
  have "unat x < 2 ^ LENGTH(32)" by (rule unsigned_less)
  then show ?thesis by (simp add: fits32_def u32_as_u64_def unsigned_ucast_eq take_bit_nat_eq_self)
qed

lemma unat_u32_as_u64 [simp]: "unat (u32_as_u64 x) = unat x"
proof -
  have "unat x < 2 ^ LENGTH(32)" by (rule unsigned_less)
  then show ?thesis by (simp add: u32_as_u64_def unsigned_ucast_eq take_bit_nat_eq_self)
qed

lemma u32_as_u64_usz: "u32_as_u64 x = usz (unat x)"
  by (metis unat_u32_as_u64 usz_unat)

lemma low32_sext [simp]: "low32 (i32_as_i64 x) = x"
  by (rule bit_word_eqI) (auto simp: low32_def i32_as_i64_def bit_simps)

lemma sint_sext: "sint (i32_as_i64 x) = sint x"
  unfolding i32_as_i64_def by (rule sint_up_scast) (simp add: is_up)

lemma sext_low32 [simp]: "sfits32 x \<Longrightarrow> i32_as_i64 (low32 x) = x"
proof -
  assume "sfits32 x"
  then have "signed_take_bit 31 (sint x) = sint x" by (simp add: sfits32_def signed_take_bit_int_eq_self_iff)
  moreover have "low32 x = scast x"
    by (rule bit_word_eqI) (auto simp: low32_def bit_simps)
  then have "sint (low32 x) = signed_take_bit (LENGTH(32) - 1) (sint x)" by (simp only: scast_eq sint_sbintrunc')
  ultimately have "sint (low32 x) = sint x" by simp
  then show ?thesis by (metis sint_sext signed_word_eqI)
qed

lemma sfits32_sext [simp]: "sfits32 (i32_as_i64 x)"
  using sint_greater_eq [of x] sint_less [of x] by (simp add: sfits32_def sint_sext)


section \<open>Section headers\<close>

record section_header =
  sh_name :: "32 word"
  sh_type :: "32 word"
  sh_flags :: u64
  sh_addr :: u64
  sh_offset :: u64
  sh_size :: u64
  sh_link :: "32 word"
  sh_info :: "32 word"
  sh_addralign :: u64
  sh_entsize :: u64

definition section_header_parse_at ::
    "endian \<Rightarrow> elf_class \<Rightarrow> usize \<Rightarrow> u8 list \<Rightarrow> (parse_error, section_header) outcome \<times> usize" where
  "section_header_parse_at e class offset data =
    (case class of
       ELF32 \<Rightarrow>
         and_then_st (parse_u32_at e offset data) (\<lambda>name offset.
         and_then_st (parse_u32_at e offset data) (\<lambda>type offset.
         and_then_st (parse_u32_at e offset data) (\<lambda>flags offset.
         and_then_st (parse_u32_at e offset data) (\<lambda>addr offset.
         and_then_st (parse_u32_at e offset data) (\<lambda>off offset.
         and_then_st (parse_u32_at e offset data) (\<lambda>sz offset.
         and_then_st (parse_u32_at e offset data) (\<lambda>link offset.
         and_then_st (parse_u32_at e offset data) (\<lambda>info offset.
         and_then_st (parse_u32_at e offset data) (\<lambda>addralign offset.
         and_then_st (parse_u32_at e offset data) (\<lambda>entsize offset.
           (Ok \<lparr>sh_name = name, sh_type = type, sh_flags = u32_as_u64 flags, sh_addr = u32_as_u64 addr,
                sh_offset = u32_as_u64 off, sh_size = u32_as_u64 sz, sh_link = link, sh_info = info,
                sh_addralign = u32_as_u64 addralign, sh_entsize = u32_as_u64 entsize\<rparr>, offset)))))))))))
     | ELF64 \<Rightarrow>
         and_then_st (parse_u32_at e offset data) (\<lambda>name offset.
         and_then_st (parse_u32_at e offset data) (\<lambda>type offset.
         and_then_st (parse_u64_at e offset data) (\<lambda>flags offset.
         and_then_st (parse_u64_at e offset data) (\<lambda>addr offset.
         and_then_st (parse_u64_at e offset data) (\<lambda>off offset.
         and_then_st (parse_u64_at e offset data) (\<lambda>sz offset.
         and_then_st (parse_u32_at e offset data) (\<lambda>link offset.
         and_then_st (parse_u32_at e offset data) (\<lambda>info offset.
         and_then_st (parse_u64_at e offset data) (\<lambda>addralign offset.
         and_then_st (parse_u64_at e offset data) (\<lambda>entsize offset.
           (Ok \<lparr>sh_name = name, sh_type = type, sh_flags = flags, sh_addr = addr, sh_offset = off,
                sh_size = sz, sh_link = link, sh_info = info, sh_addralign = addralign, sh_entsize = entsize\<rparr>, offset))))))))))))"

definition section_header_size_for :: "elf_class \<Rightarrow> usize" where
  "section_header_size_for class = (case class of ELF32 \<Rightarrow> 40 | ELF64 \<Rightarrow> 64)"

definition SectionHeader :: "section_header parse_at" where
  "SectionHeader = \<lparr>pa_parse_at = section_header_parse_at, pa_size_for = section_header_size_for\<rparr>"

text \<open>\<^verbatim>\<open>usize\<close> has 64 bits, so the conversions of the \<open>u64\<close> fields do not fail.\<close>

definition get_data_range :: "section_header \<Rightarrow> (parse_error, usize \<times> usize) outcome" where
  "get_data_range shdr =
    (let start = sh_offset shdr; sz = sh_size shdr in
     and_then (ok_or IntegerOverflow (checked_add start sz)) (\<lambda>stop. Ok (start, stop)))"

text \<open>The layouts \<^verbatim>\<open>Elf32_Shdr\<close> and \<^verbatim>\<open>Elf64_Shdr\<close>.\<close>

definition section_header_bytes :: "endian \<Rightarrow> elf_class \<Rightarrow> section_header \<Rightarrow> u8 list" where
  "section_header_bytes e class h =
    (case class of
       ELF32 \<Rightarrow>
         enc 4 e (sh_name h) @ enc 4 e (sh_type h) @ enc 4 e (low32 (sh_flags h)) @
         enc 4 e (low32 (sh_addr h)) @ enc 4 e (low32 (sh_offset h)) @ enc 4 e (low32 (sh_size h)) @
         enc 4 e (sh_link h) @ enc 4 e (sh_info h) @ enc 4 e (low32 (sh_addralign h)) @
         enc 4 e (low32 (sh_entsize h))
     | ELF64 \<Rightarrow>
         enc 4 e (sh_name h) @ enc 4 e (sh_type h) @ enc 8 e (sh_flags h) @ enc 8 e (sh_addr h) @
         enc 8 e (sh_offset h) @ enc 8 e (sh_size h) @ enc 4 e (sh_link h) @ enc 4 e (sh_info h) @
         enc 8 e (sh_addralign h) @ enc 8 e (sh_entsize h))"

definition section_header_wf :: "elf_class \<Rightarrow> section_header \<Rightarrow> bool" where
  "section_header_wf class h =
    (class = ELF32 \<longrightarrow>
       fits32 (sh_flags h) \<and> fits32 (sh_addr h) \<and> fits32 (sh_offset h) \<and>
       fits32 (sh_size h) \<and> fits32 (sh_addralign h) \<and> fits32 (sh_entsize h))"

lemmas section_header_defs =
  section_header_parse_at_def section_header_size_for_def section_header_bytes_def section_header_wf_def

lemma section_header_entry: "exact_parsable SectionHeader section_header_bytes section_header_wf"
proof (rule exact_parsableI)
  fix data :: "u8 list" and c e x i
  show "0 < unat (pa_size_for SectionHeader c) \<and> unat (pa_size_for SectionHeader c) \<le> 64"
    "length (section_header_bytes e c x) = unat (pa_size_for SectionHeader c)"
    by (cases c; simp add: SectionHeader_def section_header_defs)+
  assume d: "is_slice data"
  show "pa_parse_at SectionHeader e c (usz i) data = (Ok x, usz (i + unat (pa_size_for SectionHeader c)))"
    if "section_header_wf c x" "holds_at data i (section_header_bytes e c x)"
    using that d by (cases c) (auto simp: SectionHeader_def section_header_defs holds_at_append elf_at add.commute [of i])
  show "reads data (unat (pa_size_for SectionHeader c)) (\<lambda>x bs. section_header_wf c x \<and> section_header_bytes e c x = bs)
      (\<lambda>off. pa_parse_at SectionHeader e c off data)"
    using d by (cases c; simp add: SectionHeader_def section_header_defs)
        (rule reads_cong, (rule reads_bind reads_field reads_ret, assumption?)+, simp, simp)+
qed

interpretation shdr: exact_parsable SectionHeader section_header_bytes section_header_wf
  by (rule section_header_entry)

section \<open>Program headers\<close>

record program_header =
  p_type :: "32 word"
  p_offset :: u64
  p_vaddr :: u64
  p_paddr :: u64
  p_filesz :: u64
  p_memsz :: u64
  p_flags :: "32 word"
  p_align :: u64

definition program_header_parse_at ::
    "endian \<Rightarrow> elf_class \<Rightarrow> usize \<Rightarrow> u8 list \<Rightarrow> (parse_error, program_header) outcome \<times> usize" where
  "program_header_parse_at e class offset data =
    (case class of
       ELF32 \<Rightarrow>
         and_then_st (parse_u32_at e offset data) (\<lambda>type offset.
         and_then_st (parse_u32_at e offset data) (\<lambda>off offset.
         and_then_st (parse_u32_at e offset data) (\<lambda>vaddr offset.
         and_then_st (parse_u32_at e offset data) (\<lambda>paddr offset.
         and_then_st (parse_u32_at e offset data) (\<lambda>filesz offset.
         and_then_st (parse_u32_at e offset data) (\<lambda>memsz offset.
         and_then_st (parse_u32_at e offset data) (\<lambda>flags offset.
         and_then_st (parse_u32_at e offset data) (\<lambda>align offset.
           (Ok \<lparr>p_type = type, p_offset = u32_as_u64 off, p_vaddr = u32_as_u64 vaddr,
                p_paddr = u32_as_u64 paddr, p_filesz = u32_as_u64 filesz, p_memsz = u32_as_u64 memsz,
                p_flags = flags, p_align = u32_as_u64 align\<rparr>, offset)))))))))
     | ELF64 \<Rightarrow>
         and_then_st (parse_u32_at e offset data) (\<lambda>type offset.
         and_then_st (parse_u32_at e offset data) (\<lambda>flags offset.
         and_then_st (parse_u64_at e offset data) (\<lambda>off offset.
         and_then_st (parse_u64_at e offset data) (\<lambda>vaddr offset.
         and_then_st (parse_u64_at e offset data) (\<lambda>paddr offset.
         and_then_st (parse_u64_at e offset data) (\<lambda>filesz offset.
         and_then_st (parse_u64_at e offset data) (\<lambda>memsz offset.
         and_then_st (parse_u64_at e offset data) (\<lambda>align offset.
           (Ok \<lparr>p_type = type, p_offset = off, p_vaddr = vaddr, p_paddr = paddr, p_filesz = filesz,
                p_memsz = memsz, p_flags = flags, p_align = align\<rparr>, offset))))))))))"

definition program_header_size_for :: "elf_class \<Rightarrow> usize" where
  "program_header_size_for class = (case class of ELF32 \<Rightarrow> 32 | ELF64 \<Rightarrow> 56)"

definition ProgramHeader :: "program_header parse_at" where
  "ProgramHeader = \<lparr>pa_parse_at = program_header_parse_at, pa_size_for = program_header_size_for\<rparr>"

text \<open>\<^verbatim>\<open>usize\<close> has 64 bits, so the conversions of the \<open>u64\<close> fields do not fail.\<close>

definition get_file_data_range :: "program_header \<Rightarrow> (parse_error, usize \<times> usize) outcome" where
  "get_file_data_range phdr =
    (let start = p_offset phdr; sz = p_filesz phdr in
     and_then (ok_or IntegerOverflow (checked_add start sz)) (\<lambda>stop. Ok (start, stop)))"

text \<open>The layouts \<^verbatim>\<open>Elf32_Phdr\<close> and \<^verbatim>\<open>Elf64_Phdr\<close>: the flags move.\<close>

definition program_header_bytes :: "endian \<Rightarrow> elf_class \<Rightarrow> program_header \<Rightarrow> u8 list" where
  "program_header_bytes e class h =
    (case class of
       ELF32 \<Rightarrow>
         enc 4 e (p_type h) @ enc 4 e (low32 (p_offset h)) @ enc 4 e (low32 (p_vaddr h)) @
         enc 4 e (low32 (p_paddr h)) @ enc 4 e (low32 (p_filesz h)) @ enc 4 e (low32 (p_memsz h)) @
         enc 4 e (p_flags h) @ enc 4 e (low32 (p_align h))
     | ELF64 \<Rightarrow>
         enc 4 e (p_type h) @ enc 4 e (p_flags h) @ enc 8 e (p_offset h) @ enc 8 e (p_vaddr h) @
         enc 8 e (p_paddr h) @ enc 8 e (p_filesz h) @ enc 8 e (p_memsz h) @ enc 8 e (p_align h))"

definition program_header_wf :: "elf_class \<Rightarrow> program_header \<Rightarrow> bool" where
  "program_header_wf class h =
    (class = ELF32 \<longrightarrow>
       fits32 (p_offset h) \<and> fits32 (p_vaddr h) \<and> fits32 (p_paddr h) \<and>
       fits32 (p_filesz h) \<and> fits32 (p_memsz h) \<and> fits32 (p_align h))"

lemmas program_header_defs =
  program_header_parse_at_def program_header_size_for_def program_header_bytes_def program_header_wf_def

lemma program_header_entry: "exact_parsable ProgramHeader program_header_bytes program_header_wf"
proof (rule exact_parsableI)
  fix data :: "u8 list" and c e x i
  show "0 < unat (pa_size_for ProgramHeader c) \<and> unat (pa_size_for ProgramHeader c) \<le> 64"
    "length (program_header_bytes e c x) = unat (pa_size_for ProgramHeader c)"
    by (cases c; simp add: ProgramHeader_def program_header_defs)+
  assume d: "is_slice data"
  show "pa_parse_at ProgramHeader e c (usz i) data = (Ok x, usz (i + unat (pa_size_for ProgramHeader c)))"
    if "program_header_wf c x" "holds_at data i (program_header_bytes e c x)"
    using that d by (cases c) (auto simp: ProgramHeader_def program_header_defs holds_at_append elf_at add.commute [of i])
  show "reads data (unat (pa_size_for ProgramHeader c)) (\<lambda>x bs. program_header_wf c x \<and> program_header_bytes e c x = bs)
      (\<lambda>off. pa_parse_at ProgramHeader e c off data)"
    using d by (cases c; simp add: ProgramHeader_def program_header_defs)
        (rule reads_cong, (rule reads_bind reads_field reads_ret, assumption?)+, simp, simp)+
qed

interpretation phdr: exact_parsable ProgramHeader program_header_bytes program_header_wf
  by (rule program_header_entry)

section \<open>Symbols\<close>

record symbol =
  st_name :: "32 word"
  st_shndx :: "16 word"
  st_info :: u8
  st_other :: u8
  st_value :: u64
  st_size :: u64

definition symbol_parse_at ::
    "endian \<Rightarrow> elf_class \<Rightarrow> usize \<Rightarrow> u8 list \<Rightarrow> (parse_error, symbol) outcome \<times> usize" where
  "symbol_parse_at e class offset data =
    (case class of
       ELF32 \<Rightarrow>
         and_then_st (parse_u32_at e offset data) (\<lambda>name offset.
         and_then_st (parse_u32_at e offset data) (\<lambda>value offset.
         and_then_st (parse_u32_at e offset data) (\<lambda>sz offset.
         and_then_st (parse_u8_at e offset data) (\<lambda>info offset.
         and_then_st (parse_u8_at e offset data) (\<lambda>other offset.
         and_then_st (parse_u16_at e offset data) (\<lambda>shndx offset.
           (Ok \<lparr>st_name = name, st_shndx = shndx, st_info = info, st_other = other,
                st_value = u32_as_u64 value, st_size = u32_as_u64 sz\<rparr>, offset)))))))
     | ELF64 \<Rightarrow>
         and_then_st (parse_u32_at e offset data) (\<lambda>name offset.
         and_then_st (parse_u8_at e offset data) (\<lambda>info offset.
         and_then_st (parse_u8_at e offset data) (\<lambda>other offset.
         and_then_st (parse_u16_at e offset data) (\<lambda>shndx offset.
         and_then_st (parse_u64_at e offset data) (\<lambda>value offset.
         and_then_st (parse_u64_at e offset data) (\<lambda>sz offset.
           (Ok \<lparr>st_name = name, st_shndx = shndx, st_info = info, st_other = other, st_value = value,
                st_size = sz\<rparr>, offset))))))))"

definition symbol_size_for :: "elf_class \<Rightarrow> usize" where
  "symbol_size_for class = (case class of ELF32 \<Rightarrow> 16 | ELF64 \<Rightarrow> 24)"

definition Symbol :: "symbol parse_at" where
  "Symbol = \<lparr>pa_parse_at = symbol_parse_at, pa_size_for = symbol_size_for\<rparr>"

definition SHN_UNDEF :: "16 word" where "SHN_UNDEF = 0"

definition is_undefined :: "symbol \<Rightarrow> bool" where
  "is_undefined s = (st_shndx s = SHN_UNDEF)"

definition st_symtype :: "symbol \<Rightarrow> u8" where
  "st_symtype s = st_info s AND 0xF"

definition st_bind :: "symbol \<Rightarrow> u8" where
  "st_bind s = drop_bit 4 (st_info s)"

definition st_vis :: "symbol \<Rightarrow> u8" where
  "st_vis s = st_other s AND 0x3"

text \<open>The layouts the format gives a symbol; in both the section index has 2 bytes.\<close>

definition symbol_bytes :: "endian \<Rightarrow> elf_class \<Rightarrow> symbol \<Rightarrow> u8 list" where
  "symbol_bytes e class h =
    (case class of
       ELF32 \<Rightarrow>
         enc 4 e (st_name h) @ enc 4 e (low32 (st_value h)) @ enc 4 e (low32 (st_size h)) @
         enc 1 e (st_info h) @ enc 1 e (st_other h) @ enc 2 e (st_shndx h)
     | ELF64 \<Rightarrow>
         enc 4 e (st_name h) @ enc 1 e (st_info h) @ enc 1 e (st_other h) @ enc 2 e (st_shndx h) @
         enc 8 e (st_value h) @ enc 8 e (st_size h))"

definition symbol_wf :: "elf_class \<Rightarrow> symbol \<Rightarrow> bool" where
  "symbol_wf class h =
    (class = ELF32 \<longrightarrow>
       fits32 (st_value h) \<and> fits32 (st_size h))"

lemmas symbol_defs =
  symbol_parse_at_def symbol_size_for_def symbol_bytes_def symbol_wf_def

lemma symbol_entry: "exact_parsable Symbol symbol_bytes symbol_wf"
proof (rule exact_parsableI)
  fix data :: "u8 list" and c e x i
  show "0 < unat (pa_size_for Symbol c) \<and> unat (pa_size_for Symbol c) \<le> 64"
    "length (symbol_bytes e c x) = unat (pa_size_for Symbol c)"
    by (cases c; simp add: Symbol_def symbol_defs)+
  assume d: "is_slice data"
  show "pa_parse_at Symbol e c (usz i) data = (Ok x, usz (i + unat (pa_size_for Symbol c)))"
    if "symbol_wf c x" "holds_at data i (symbol_bytes e c x)"
    using that d by (cases c) (auto simp: Symbol_def symbol_defs holds_at_append elf_at add.commute [of i])
  show "reads data (unat (pa_size_for Symbol c)) (\<lambda>x bs. symbol_wf c x \<and> symbol_bytes e c x = bs)
      (\<lambda>off. pa_parse_at Symbol e c off data)"
    using d by (cases c; simp add: Symbol_def symbol_defs)
        (rule reads_cong, (rule reads_bind reads_field reads_ret, assumption?)+, simp, simp)+
qed

interpretation sym: exact_parsable Symbol symbol_bytes symbol_wf
  by (rule symbol_entry)

section \<open>Dynamic entries\<close>

record dyn_entry =
  d_tag :: u64
  d_un :: u64

definition dyn_entry_parse_at ::
    "endian \<Rightarrow> elf_class \<Rightarrow> usize \<Rightarrow> u8 list \<Rightarrow> (parse_error, dyn_entry) outcome \<times> usize" where
  "dyn_entry_parse_at e class offset data =
    (case class of
       ELF32 \<Rightarrow>
         and_then_st (parse_i32_at e offset data) (\<lambda>tag offset.
         and_then_st (parse_u32_at e offset data) (\<lambda>un offset.
           (Ok \<lparr>d_tag = i32_as_i64 tag, d_un = u32_as_u64 un\<rparr>, offset)))
     | ELF64 \<Rightarrow>
         and_then_st (parse_i64_at e offset data) (\<lambda>tag offset.
         and_then_st (parse_u64_at e offset data) (\<lambda>un offset.
           (Ok \<lparr>d_tag = tag, d_un = un\<rparr>, offset))))"

definition dyn_entry_size_for :: "elf_class \<Rightarrow> usize" where
  "dyn_entry_size_for class = (case class of ELF32 \<Rightarrow> 8 | ELF64 \<Rightarrow> 16)"

definition Dyn :: "dyn_entry parse_at" where
  "Dyn = \<lparr>pa_parse_at = dyn_entry_parse_at, pa_size_for = dyn_entry_size_for\<rparr>"

definition d_val :: "dyn_entry \<Rightarrow> u64" where
  "d_val d = d_un d"

definition d_ptr :: "dyn_entry \<Rightarrow> u64" where
  "d_ptr d = d_un d"

text \<open>The layouts \<^verbatim>\<open>Elf32_Dyn\<close> and \<^verbatim>\<open>Elf64_Dyn\<close>; the tag is signed.\<close>

definition dyn_entry_bytes :: "endian \<Rightarrow> elf_class \<Rightarrow> dyn_entry \<Rightarrow> u8 list" where
  "dyn_entry_bytes e class h =
    (case class of
       ELF32 \<Rightarrow>
         enc 4 e (low32 (d_tag h)) @ enc 4 e (low32 (d_un h))
     | ELF64 \<Rightarrow>
         enc 8 e (d_tag h) @ enc 8 e (d_un h))"

definition dyn_entry_wf :: "elf_class \<Rightarrow> dyn_entry \<Rightarrow> bool" where
  "dyn_entry_wf class h =
    (class = ELF32 \<longrightarrow>
       sfits32 (d_tag h) \<and> fits32 (d_un h))"

lemmas dyn_entry_defs =
  dyn_entry_parse_at_def dyn_entry_size_for_def dyn_entry_bytes_def dyn_entry_wf_def

lemma dyn_entry_entry: "exact_parsable Dyn dyn_entry_bytes dyn_entry_wf"
proof (rule exact_parsableI)
  fix data :: "u8 list" and c e x i
  show "0 < unat (pa_size_for Dyn c) \<and> unat (pa_size_for Dyn c) \<le> 64"
    "length (dyn_entry_bytes e c x) = unat (pa_size_for Dyn c)"
    by (cases c; simp add: Dyn_def dyn_entry_defs)+
  assume d: "is_slice data"
  show "pa_parse_at Dyn e c (usz i) data = (Ok x, usz (i + unat (pa_size_for Dyn c)))"
    if "dyn_entry_wf c x" "holds_at data i (dyn_entry_bytes e c x)"
    using that d by (cases c) (auto simp: Dyn_def dyn_entry_defs holds_at_append elf_at add.commute [of i])
  show "reads data (unat (pa_size_for Dyn c)) (\<lambda>x bs. dyn_entry_wf c x \<and> dyn_entry_bytes e c x = bs)
      (\<lambda>off. pa_parse_at Dyn e c off data)"
    using d by (cases c; simp add: Dyn_def dyn_entry_defs)
        (rule reads_cong, (rule reads_bind reads_field reads_ret, assumption?)+, simp, simp)+
qed

interpretation dyn: exact_parsable Dyn dyn_entry_bytes dyn_entry_wf
  by (rule dyn_entry_entry)

section \<open>Compression headers\<close>

record compression_header =
  ch_type :: "32 word"
  ch_size :: u64
  ch_addralign :: u64

definition compression_header_parse_at ::
    "endian \<Rightarrow> elf_class \<Rightarrow> usize \<Rightarrow> u8 list \<Rightarrow> (parse_error, compression_header) outcome \<times> usize" where
  "compression_header_parse_at e class offset data =
    (case class of
       ELF32 \<Rightarrow>
         and_then_st (parse_u32_at e offset data) (\<lambda>type offset.
         and_then_st (parse_u32_at e offset data) (\<lambda>sz offset.
         and_then_st (parse_u32_at e offset data) (\<lambda>addralign offset.
           (Ok \<lparr>ch_type = type, ch_size = u32_as_u64 sz, ch_addralign = u32_as_u64 addralign\<rparr>, offset))))
     | ELF64 \<Rightarrow>
         and_then_st (parse_u32_at e offset data) (\<lambda>type offset.
         and_then_st (parse_u32_at e offset data) (\<lambda>reserved offset.
         and_then_st (parse_u64_at e offset data) (\<lambda>sz offset.
         and_then_st (parse_u64_at e offset data) (\<lambda>addralign offset.
           (Ok \<lparr>ch_type = type, ch_size = sz, ch_addralign = addralign\<rparr>, offset))))))"

definition compression_header_size_for :: "elf_class \<Rightarrow> usize" where
  "compression_header_size_for class = (case class of ELF32 \<Rightarrow> 12 | ELF64 \<Rightarrow> 24)"

definition CompressionHeader :: "compression_header parse_at" where
  "CompressionHeader = \<lparr>pa_parse_at = compression_header_parse_at, pa_size_for = compression_header_size_for\<rparr>"

text \<open>The layouts \<^verbatim>\<open>Elf32_Chdr\<close> and \<^verbatim>\<open>Elf64_Chdr\<close>; the reserved word is skipped when read and written as 0 here.\<close>

definition compression_header_bytes :: "endian \<Rightarrow> elf_class \<Rightarrow> compression_header \<Rightarrow> u8 list" where
  "compression_header_bytes e class h =
    (case class of
       ELF32 \<Rightarrow>
         enc 4 e (ch_type h) @ enc 4 e (low32 (ch_size h)) @ enc 4 e (low32 (ch_addralign h))
     | ELF64 \<Rightarrow>
         enc 4 e (ch_type h) @ enc 4 e (0 :: 32 word) @ enc 8 e (ch_size h) @ enc 8 e (ch_addralign h))"

definition compression_header_wf :: "elf_class \<Rightarrow> compression_header \<Rightarrow> bool" where
  "compression_header_wf class h =
    (class = ELF32 \<longrightarrow>
       fits32 (ch_size h) \<and> fits32 (ch_addralign h))"

lemmas compression_header_defs =
  compression_header_parse_at_def compression_header_size_for_def compression_header_bytes_def compression_header_wf_def

lemma compression_header_entry: "parsable CompressionHeader compression_header_bytes compression_header_wf"
proof (rule parsableI)
  fix data :: "u8 list" and c e x i
  show "0 < unat (pa_size_for CompressionHeader c) \<and> unat (pa_size_for CompressionHeader c) \<le> 64"
    "length (compression_header_bytes e c x) = unat (pa_size_for CompressionHeader c)"
    by (cases c; simp add: CompressionHeader_def compression_header_defs)+
  assume d: "is_slice data"
  show "pa_parse_at CompressionHeader e c (usz i) data = (Ok x, usz (i + unat (pa_size_for CompressionHeader c)))"
    if "compression_header_wf c x" "holds_at data i (compression_header_bytes e c x)"
    using that d by (cases c) (auto simp: CompressionHeader_def compression_header_defs holds_at_append elf_at add.commute [of i])
  show "reads data (unat (pa_size_for CompressionHeader c)) (\<lambda>x bs. compression_header_wf c x)
      (\<lambda>off. pa_parse_at CompressionHeader e c off data)"
    using d by (cases c; simp add: CompressionHeader_def compression_header_defs)
        (rule reads_cong, (rule reads_bind reads_field reads_ret, assumption?)+, simp, simp)+
qed

interpretation chdr: parsable CompressionHeader compression_header_bytes compression_header_wf
  by (rule compression_header_entry)

section \<open>Relocations\<close>

text \<open>A relocation's symbol and type share the word \<^verbatim>\<open>r_info\<close>.\<close>

definition r_info32 :: "32 word \<Rightarrow> 32 word \<Rightarrow> 32 word" where
  "r_info32 s t = push_bit 8 s OR t"

definition r_info64 :: "32 word \<Rightarrow> 32 word \<Rightarrow> u64" where
  "r_info64 s t = push_bit 32 (ucast s) OR ucast t"

named_theorems r_info \<open>packing and unpacking r_info\<close>

lemma fits_take_bit: "unat x < 2 ^ n \<Longrightarrow> take_bit n x = (x :: 'a::len word)"
  by (metis take_bit_nat_eq_self unsigned_take_bit_eq unsigned_word_eqI)

lemma fits_bit: "unat x < 2 ^ n \<Longrightarrow> bit x k \<Longrightarrow> k < n"
  for x :: "'a::len word"
  by (metis bit_take_bit_iff fits_take_bit)

lemma and_low_bits: "(w :: 32 word) AND 0xFF = take_bit 8 w" "(v :: u64) AND 0xFFFFFFFF = take_bit 32 v"
  by (simp_all add: take_bit_eq_mask mask_eq_exp_minus_1)

lemma r_info32_unpack [r_info]:
  assumes "unat s < 16777216" and "unat t < 256"
  shows "drop_bit 8 (r_info32 s t) = s" "r_info32 s t AND 0xFF = t"
proof -
  have s: "bit s k \<Longrightarrow> k < 24" and t: "bit t k \<Longrightarrow> k < 8" for k
    using fits_bit [of s 24] fits_bit [of t 8] assms by auto
  show "drop_bit 8 (r_info32 s t) = s" "r_info32 s t AND 0xFF = t"
    by (auto simp: r_info32_def and_low_bits bit_simps intro!: bit_word_eqI dest: s t)
qed

lemma r_info32_pack [r_info]: "r_info32 (drop_bit 8 w) (w AND 0xFF) = w"
  by (rule bit_word_eqI) (auto simp: r_info32_def and_low_bits bit_simps)

lemma r_info32_fits [r_info]: "unat (drop_bit 8 (w :: 32 word)) < 16777216" "unat ((w :: 32 word) AND 0xFF) < 256"
proof -
  have "unat w < 2 ^ LENGTH(32)" by (rule unsigned_less)
  then show "unat (drop_bit 8 w) < 16777216"
    by (simp add: drop_bit_eq_div unat_div)
  show "unat (w AND 0xFF) < 256"
    using take_bit_nat_less_exp [of 8 "unat w"] by (simp add: and_low_bits unsigned_take_bit_eq)
qed

lemma r_info64_unpack [r_info]:
  "ucast (drop_bit 32 (r_info64 s t)) = s" "ucast (r_info64 s t AND 0xFFFFFFFF) = t"
  by (rule bit_word_eqI; auto simp: r_info64_def and_low_bits bit_simps dest: bit_imp_le_length)+

lemma r_info64_pack [r_info]: "r_info64 (ucast (drop_bit 32 w)) (ucast (w AND 0xFFFFFFFF)) = w"
  by (rule bit_word_eqI) (auto simp: r_info64_def and_low_bits bit_simps)

record rel =
  r_offset :: u64
  r_sym :: "32 word"
  r_type :: "32 word"

definition rel_parse_at ::
    "endian \<Rightarrow> elf_class \<Rightarrow> usize \<Rightarrow> u8 list \<Rightarrow> (parse_error, rel) outcome \<times> usize" where
  "rel_parse_at e class offset data =
    (case class of
       ELF32 \<Rightarrow>
         and_then_st (parse_u32_at e offset data) (\<lambda>off offset.
         and_then_st (parse_u32_at e offset data) (\<lambda>info offset.
           (Ok \<lparr>r_offset = u32_as_u64 off, r_sym = drop_bit 8 info, r_type = info AND 0xFF\<rparr>, offset)))
     | ELF64 \<Rightarrow>
         and_then_st (parse_u64_at e offset data) (\<lambda>off offset.
         and_then_st (parse_u64_at e offset data) (\<lambda>info offset.
           (Ok \<lparr>r_offset = off, r_sym = ucast (drop_bit 32 info), r_type = ucast (info AND 0xFFFFFFFF)\<rparr>,
            offset))))"

definition rel_size_for :: "elf_class \<Rightarrow> usize" where
  "rel_size_for class = (case class of ELF32 \<Rightarrow> 8 | ELF64 \<Rightarrow> 16)"

definition Rel :: "rel parse_at" where
  "Rel = \<lparr>pa_parse_at = rel_parse_at, pa_size_for = rel_size_for\<rparr>"

definition rel_bytes :: "endian \<Rightarrow> elf_class \<Rightarrow> rel \<Rightarrow> u8 list" where
  "rel_bytes e class h =
    (case class of
       ELF32 \<Rightarrow> enc 4 e (low32 (r_offset h)) @ enc 4 e (r_info32 (r_sym h) (r_type h))
     | ELF64 \<Rightarrow> enc 8 e (r_offset h) @ enc 8 e (r_info64 (r_sym h) (r_type h)))"

definition rel_wf :: "elf_class \<Rightarrow> rel \<Rightarrow> bool" where
  "rel_wf class h =
    (class = ELF32 \<longrightarrow> fits32 (r_offset h) \<and> unat (r_sym h) < 2 ^ 24 \<and> unat (r_type h) < 2 ^ 8)"

lemmas rel_defs =
  rel_parse_at_def rel_size_for_def rel_bytes_def rel_wf_def

lemma rel_entry: "exact_parsable Rel rel_bytes rel_wf"
proof (rule exact_parsableI)
  fix data :: "u8 list" and c e x i
  show "0 < unat (pa_size_for Rel c) \<and> unat (pa_size_for Rel c) \<le> 64"
    "length (rel_bytes e c x) = unat (pa_size_for Rel c)"
    by (cases c; simp add: Rel_def rel_defs)+
  assume d: "is_slice data"
  show "pa_parse_at Rel e c (usz i) data = (Ok x, usz (i + unat (pa_size_for Rel c)))"
    if "rel_wf c x" "holds_at data i (rel_bytes e c x)"
    using that d by (cases c) (auto simp: Rel_def rel_defs holds_at_append elf_at add.commute [of i] r_info)
  show "reads data (unat (pa_size_for Rel c)) (\<lambda>x bs. rel_wf c x \<and> rel_bytes e c x = bs)
      (\<lambda>off. pa_parse_at Rel e c off data)"
    using d by (cases c; simp add: Rel_def rel_defs)
        (rule reads_cong, (rule reads_bind reads_field reads_ret, assumption?)+, simp add: r_info, simp)+
qed

interpretation rel: exact_parsable Rel rel_bytes rel_wf
  by (rule rel_entry)

text \<open>\<^verbatim>\<open>Rela\<close> has the fields of \<^verbatim>\<open>Rel\<close> and an addend.\<close>

record rela = rel +
  r_addend :: u64

definition rela_parse_at ::
    "endian \<Rightarrow> elf_class \<Rightarrow> usize \<Rightarrow> u8 list \<Rightarrow> (parse_error, rela) outcome \<times> usize" where
  "rela_parse_at e class offset data =
    (case class of
       ELF32 \<Rightarrow>
         and_then_st (parse_u32_at e offset data) (\<lambda>off offset.
         and_then_st (parse_u32_at e offset data) (\<lambda>info offset.
         and_then_st (parse_i32_at e offset data) (\<lambda>addend offset.
           (Ok \<lparr>r_offset = u32_as_u64 off, r_sym = drop_bit 8 info, r_type = info AND 0xFF, r_addend = i32_as_i64 addend\<rparr>, offset))))
     | ELF64 \<Rightarrow>
         and_then_st (parse_u64_at e offset data) (\<lambda>off offset.
         and_then_st (parse_u64_at e offset data) (\<lambda>info offset.
         and_then_st (parse_i64_at e offset data) (\<lambda>addend offset.
           (Ok \<lparr>r_offset = off, r_sym = ucast (drop_bit 32 info), r_type = ucast (info AND 0xFFFFFFFF), r_addend = addend\<rparr>,
            offset)))))"

definition rela_size_for :: "elf_class \<Rightarrow> usize" where
  "rela_size_for class = (case class of ELF32 \<Rightarrow> 12 | ELF64 \<Rightarrow> 24)"

definition Rela :: "rela parse_at" where
  "Rela = \<lparr>pa_parse_at = rela_parse_at, pa_size_for = rela_size_for\<rparr>"

definition rela_bytes :: "endian \<Rightarrow> elf_class \<Rightarrow> rela \<Rightarrow> u8 list" where
  "rela_bytes e class h =
    (case class of
       ELF32 \<Rightarrow> enc 4 e (low32 (r_offset h)) @ enc 4 e (r_info32 (r_sym h) (r_type h)) @ enc 4 e (low32 (r_addend h))
     | ELF64 \<Rightarrow> enc 8 e (r_offset h) @ enc 8 e (r_info64 (r_sym h) (r_type h)) @ enc 8 e (r_addend h))"

definition rela_wf :: "elf_class \<Rightarrow> rela \<Rightarrow> bool" where
  "rela_wf class h =
    (class = ELF32 \<longrightarrow> fits32 (r_offset h) \<and> unat (r_sym h) < 2 ^ 24 \<and> unat (r_type h) < 2 ^ 8 \<and> sfits32 (r_addend h))"

lemmas rela_defs =
  rela_parse_at_def rela_size_for_def rela_bytes_def rela_wf_def

lemma rela_entry: "exact_parsable Rela rela_bytes rela_wf"
proof (rule exact_parsableI)
  fix data :: "u8 list" and c e x i
  show "0 < unat (pa_size_for Rela c) \<and> unat (pa_size_for Rela c) \<le> 64"
    "length (rela_bytes e c x) = unat (pa_size_for Rela c)"
    by (cases c; simp add: Rela_def rela_defs)+
  assume d: "is_slice data"
  show "pa_parse_at Rela e c (usz i) data = (Ok x, usz (i + unat (pa_size_for Rela c)))"
    if "rela_wf c x" "holds_at data i (rela_bytes e c x)"
    using that d by (cases c) (auto simp: Rela_def rela_defs holds_at_append elf_at add.commute [of i] r_info)
  show "reads data (unat (pa_size_for Rela c)) (\<lambda>x bs. rela_wf c x \<and> rela_bytes e c x = bs)
      (\<lambda>off. pa_parse_at Rela e c off data)"
    using d by (cases c; simp add: Rela_def rela_defs)
        (rule reads_cong, (rule reads_bind reads_field reads_ret, assumption?)+, simp add: r_info, simp)+
qed

interpretation rela: exact_parsable Rela rela_bytes rela_wf
  by (rule rela_entry)

end
