(* ===== verification/Elf_Strings.thy ===== *)
theory Elf_Strings
  imports Elf_Parse
begin

text \<open>
  String tables (\<^verbatim>\<open>elf/src/string_table.rs\<close>): a string is the bytes from an offset to the next NUL. A
  \<^verbatim>\<open>&str\<close> is the byte list it consists of; \<open>from_utf8\<close> is \<^verbatim>\<open>core::str::from_utf8\<close>, which accepts the
  well-formed UTF-8 byte sequences of the Unicode standard (table 3-7).
\<close>

section \<open>UTF-8\<close>

definition utf8_cont :: "u8 \<Rightarrow> bool" where
  "utf8_cont b = (0x80 \<le> b \<and> b \<le> 0xBF)"

fun utf8_valid :: "u8 list \<Rightarrow> bool" where
  "utf8_valid [] = True"
| "utf8_valid (b0 # rest) =
    (if b0 < 0x80 then utf8_valid rest
     else if 0xC2 \<le> b0 \<and> b0 \<le> 0xDF then
       (case rest of b1 # rest' \<Rightarrow> utf8_cont b1 \<and> utf8_valid rest' | _ \<Rightarrow> False)
     else if 0xE0 \<le> b0 \<and> b0 \<le> 0xEF then
       (case rest of b1 # b2 # rest' \<Rightarrow>
          utf8_cont b1 \<and> (b0 = 0xE0 \<longrightarrow> 0xA0 \<le> b1) \<and> (b0 = 0xED \<longrightarrow> b1 \<le> 0x9F) \<and> utf8_cont b2 \<and> utf8_valid rest'
        | _ \<Rightarrow> False)
     else if 0xF0 \<le> b0 \<and> b0 \<le> 0xF4 then
       (case rest of b1 # b2 # b3 # rest' \<Rightarrow>
          utf8_cont b1 \<and> (b0 = 0xF0 \<longrightarrow> 0x90 \<le> b1) \<and> (b0 = 0xF4 \<longrightarrow> b1 \<le> 0x8F) \<and> utf8_cont b2 \<and> utf8_cont b3 \<and>
          utf8_valid rest'
        | _ \<Rightarrow> False)
     else False)"

definition from_utf8 :: "u8 list \<Rightarrow> (parse_error, u8 list) outcome" where
  "from_utf8 bs = (if utf8_valid bs then Ok bs else Err Utf8Error)"

section \<open>String tables\<close>

record string_table =
  strtab_data :: "u8 list"

definition string_table_new :: "u8 list \<Rightarrow> string_table" where
  "string_table_new data = \<lparr>strtab_data = data\<rparr>"

text \<open>\<^verbatim>\<open>Iterator::position\<close>.\<close>

primrec position :: "('a \<Rightarrow> bool) \<Rightarrow> 'a list \<Rightarrow> nat option" where
  "position p [] = None"
| "position p (x # xs) = (if p x then Some 0 else map_option Suc (position p xs))"

definition get_raw :: "string_table \<Rightarrow> usize \<Rightarrow> (parse_error, u8 list) outcome" where
  "get_raw t offset =
    (if strtab_data t = [] then Err (BadOffset offset)
     else
       and_then (ok_or (BadOffset offset) (slice_from (strtab_data t) offset)) (\<lambda>start.
       and_then (ok_or (StringTableMissingNul offset) (position (\<lambda>b. b = 0) start)) (\<lambda>stop.
         Ok (take stop start))))"

definition strtab_get :: "string_table \<Rightarrow> usize \<Rightarrow> (parse_error, u8 list) outcome" where
  "strtab_get t offset = and_then (get_raw t offset) from_utf8"

section \<open>What a lookup returns\<close>

lemma position_None: "position p xs = None \<longleftrightarrow> (\<forall>x \<in> set xs. \<not> p x)"
  by (induction xs) auto

lemma position_append: "(\<forall>x \<in> set xs. \<not> p x) \<Longrightarrow> p y \<Longrightarrow> position p (xs @ y # ys) = Some (length xs)"
  by (induction xs) auto

text \<open>A string that stands in the table, with its NUL, is what is found at its offset.\<close>

lemma get_raw_at:
  assumes "is_slice (strtab_data t)" and "0 \<notin> set s" and "holds_at (strtab_data t) i (s @ [0])"
  shows "get_raw t (usz i) = Ok s"
proof -
  have i: "i + length s < length (strtab_data t)" and d: "take (length s + 1) (drop i (strtab_data t)) = s @ [0]"
    using assms(3) by (auto simp: holds_at_def)
  have "drop i (strtab_data t) = s @ 0 # drop (length s + 1) (drop i (strtab_data t))"
    using append_take_drop_id [of "length s + 1" "drop i (strtab_data t)"] by (simp only: d) simp
  moreover have "position (\<lambda>b. b = 0) (s @ 0 # drop (length s + 1) (drop i (strtab_data t))) = Some (length s)"
    by (rule position_append) (use assms(2) in auto)
  moreover have "i < 2 ^ 64" using i assms(1) by (simp add: is_slice_def)
  ultimately show ?thesis using i by (auto simp: get_raw_def slice_from_def)
qed

lemma get_raw_Ok:
  assumes "get_raw t off = Ok s"
  shows "0 \<notin> set s" "holds_at (strtab_data t) (unat off) (s @ [0])"
proof -
  from assms obtain n where off: "unat off \<le> length (strtab_data t)"
    and n: "position (\<lambda>b. b = 0) (drop (unat off) (strtab_data t)) = Some n" and s: "s = take n (drop (unat off) (strtab_data t))"
    by (auto simp: get_raw_def slice_from_def and_then_eq_Ok split: if_splits)
  have "position p xs = Some k \<Longrightarrow> k < length xs \<and> p (xs ! k) \<and> (\<forall>x \<in> set (take k xs). \<not> p x)"
    for p :: "u8 \<Rightarrow> bool" and xs k
    by (induction xs arbitrary: k) (auto split: if_splits)
  from this [OF n] have "n < length (drop (unat off) (strtab_data t))" "drop (unat off) (strtab_data t) ! n = 0" "0 \<notin> set s"
    by (auto simp: s)
  then show "0 \<notin> set s" "holds_at (strtab_data t) (unat off) (s @ [0])"
    by (auto simp: holds_at_def s take_Suc_conv_app_nth [symmetric] min_def take_Suc_conv_app_nth simp del: take_drop)
qed

lemma get_raw_not_Panic: "get_raw t off \<noteq> Panic"
  by (auto simp: get_raw_def and_then_eq_Panic)

lemma strtab_get_not_Panic: "strtab_get t off \<noteq> Panic"
  by (auto simp: strtab_get_def and_then_eq_Panic get_raw_not_Panic from_utf8_def)

end
