(* ===== verification/Elf_Hash.thy ===== *)
theory Elf_Hash
  imports Elf_Structs Elf_Strings
begin

text \<open>
  Symbol lookup by hash: \<^verbatim>\<open>elf/src/hash.rs\<close>. The SysV table chains the symbols of a bucket through an
  array; the GNU table keeps them next to each other, marks the last by a bit of its hash, and has a
  bloom filter in front. Both searches are loops with a bound, shown to be linear search over the
  symbols when the table is laid out as the format says.
\<close>

section \<open>Plain integers as entries\<close>

definition u32_parse_at :: "endian \<Rightarrow> elf_class \<Rightarrow> usize \<Rightarrow> u8 list \<Rightarrow> (parse_error, 32 word) outcome \<times> usize" where
  "u32_parse_at e class offset data = parse_u32_at e offset data"

definition u32_size_for :: "elf_class \<Rightarrow> usize" where
  "u32_size_for class = 4"

definition U32 :: "32 word parse_at" where
  "U32 = \<lparr>pa_parse_at = u32_parse_at, pa_size_for = u32_size_for\<rparr>"

definition u64_parse_at :: "endian \<Rightarrow> elf_class \<Rightarrow> usize \<Rightarrow> u8 list \<Rightarrow> (parse_error, u64) outcome \<times> usize" where
  "u64_parse_at e class offset data = parse_u64_at e offset data"

definition u64_size_for :: "elf_class \<Rightarrow> usize" where
  "u64_size_for class = 8"

definition U64 :: "u64 parse_at" where
  "U64 = \<lparr>pa_parse_at = u64_parse_at, pa_size_for = u64_size_for\<rparr>"

lemma u32_entry: "exact_parsable U32 (\<lambda>e c. enc 4 e) (\<lambda>c x. True)"
  by (rule exact_parsableI) (auto simp: U32_def u32_parse_at_def u32_size_for_def elf_at intro: reads_field)

interpretation u32: exact_parsable U32 "\<lambda>e c. enc 4 e" "\<lambda>c x. True"
  by (rule u32_entry)

lemma u64_entry: "exact_parsable U64 (\<lambda>e c. enc 8 e) (\<lambda>c x. True)"
  by (rule exact_parsableI) (auto simp: U64_def u64_parse_at_def u64_size_for_def elf_at intro: reads_field)

interpretation u64: exact_parsable U64 "\<lambda>e c. enc 8 e" "\<lambda>c x. True"
  by (rule u64_entry)

section \<open>The SysV hash table\<close>

record sysv_hash_header =
  sysv_nbucket :: "32 word"
  sysv_nchain :: "32 word"

definition sysv_hash_header_parse_at ::
    "endian \<Rightarrow> elf_class \<Rightarrow> usize \<Rightarrow> u8 list \<Rightarrow> (parse_error, sysv_hash_header) outcome \<times> usize" where
  "sysv_hash_header_parse_at e class offset data =
    and_then_st (parse_u32_at e offset data) (\<lambda>nbucket offset.
    and_then_st (parse_u32_at e offset data) (\<lambda>nchain offset.
      (Ok \<lparr>sysv_nbucket = nbucket, sysv_nchain = nchain\<rparr>, offset)))"

definition sysv_hash_header_size_for :: "elf_class \<Rightarrow> usize" where
  "sysv_hash_header_size_for class = 8"

definition SysVHashHeader :: "sysv_hash_header parse_at" where
  "SysVHashHeader = \<lparr>pa_parse_at = sysv_hash_header_parse_at, pa_size_for = sysv_hash_header_size_for\<rparr>"

definition sysv_hash_header_bytes :: "endian \<Rightarrow> elf_class \<Rightarrow> sysv_hash_header \<Rightarrow> u8 list" where
  "sysv_hash_header_bytes e class h =
    enc 4 e (sysv_nbucket h) @ enc 4 e (sysv_nchain h)"

definition sysv_hash_header_wf :: "elf_class \<Rightarrow> sysv_hash_header \<Rightarrow> bool" where
  "sysv_hash_header_wf class h = True"

lemmas sysv_hash_header_defs =
  sysv_hash_header_parse_at_def sysv_hash_header_size_for_def sysv_hash_header_bytes_def sysv_hash_header_wf_def

lemma sysv_hash_header_entry: "exact_parsable SysVHashHeader sysv_hash_header_bytes sysv_hash_header_wf"
proof (rule exact_parsableI)
  fix data :: "u8 list" and c e x i
  show "0 < unat (pa_size_for SysVHashHeader c) \<and> unat (pa_size_for SysVHashHeader c) \<le> 64"
    "length (sysv_hash_header_bytes e c x) = unat (pa_size_for SysVHashHeader c)"
    by (cases c; simp add: SysVHashHeader_def sysv_hash_header_defs)+
  assume d: "is_slice data"
  show "pa_parse_at SysVHashHeader e c (usz i) data = (Ok x, usz (i + unat (pa_size_for SysVHashHeader c)))"
    if "sysv_hash_header_wf c x" "holds_at data i (sysv_hash_header_bytes e c x)"
    using that d by (cases c) (auto simp: SysVHashHeader_def sysv_hash_header_defs holds_at_append elf_at add.commute [of i])
  show "reads data (unat (pa_size_for SysVHashHeader c)) (\<lambda>x bs. sysv_hash_header_wf c x \<and> sysv_hash_header_bytes e c x = bs)
      (\<lambda>off. pa_parse_at SysVHashHeader e c off data)"
    using d by (cases c; simp add: SysVHashHeader_def sysv_hash_header_defs)
        (rule reads_cong, (rule reads_bind reads_field reads_ret, assumption?)+, simp, simp)+
qed

interpretation sysvh: exact_parsable SysVHashHeader sysv_hash_header_bytes sysv_hash_header_wf
  by (rule sysv_hash_header_entry)

primrec sysv_hash_loop :: "u8 list \<Rightarrow> 32 word \<Rightarrow> 32 word" where
  "sysv_hash_loop [] hash = hash"
| "sysv_hash_loop (byte # name) hash =
    (let hash = hash * 16 + ucast byte; hash = hash XOR (drop_bit 24 hash AND 0xF0) in sysv_hash_loop name hash)"

definition sysv_hash :: "u8 list \<Rightarrow> 32 word" where
  "sysv_hash name = sysv_hash_loop name 0 AND 0xFFFFFFF"

record sysv_hash_table =
  sv_buckets :: parsing_table
  sv_chains :: parsing_table

definition sysv_hash_table_new :: "endian \<Rightarrow> elf_class \<Rightarrow> u8 list \<Rightarrow> (parse_error, sysv_hash_table) outcome" where
  "sysv_hash_table_new e class data =
    (case sysv_hash_header_parse_at e class 0 data of
       (Err err, _) \<Rightarrow> Err err
     | (Panic, _) \<Rightarrow> Panic
     | (Ok hdr, offset) \<Rightarrow>
         and_then (ok_or IntegerOverflow (checked_mul 4 (u32_as_u64 (sysv_nbucket hdr)))) (\<lambda>buckets_size.
         and_then (ok_or IntegerOverflow (checked_add offset buckets_size)) (\<lambda>buckets_end.
         and_then (get_bytes data offset buckets_end) (\<lambda>buckets_buf.
         let buckets = table_new e class buckets_buf; offset = buckets_end in
         and_then (ok_or IntegerOverflow (checked_mul 4 (u32_as_u64 (sysv_nchain hdr)))) (\<lambda>chains_size.
         and_then (ok_or IntegerOverflow (checked_add offset chains_size)) (\<lambda>chains_end.
         and_then (get_bytes data offset chains_end) (\<lambda>chains_buf.
           Ok \<lparr>sv_buckets = buckets, sv_chains = table_new e class chains_buf\<rparr>)))))))"

text \<open>The loop of \<^verbatim>\<open>SysVHashTable::find\<close>: at most as many steps as there are chain entries.\<close>

function sysv_find_loop ::
    "sysv_hash_table \<Rightarrow> u8 list \<Rightarrow> parsing_table \<Rightarrow> string_table \<Rightarrow> usize \<Rightarrow> usize \<Rightarrow>
      (parse_error, (usize \<times> symbol) option) outcome" where
  "sysv_find_loop t name symtab strtab index i =
    (if index \<noteq> 0 \<and> i < table_len U32 (sv_chains t) then
       and_then (table_get Symbol symtab index) (\<lambda>symbol.
       and_then (get_raw strtab (u32_as_u64 (st_name symbol))) (\<lambda>raw.
         if raw = name then Ok (Some (index, symbol))
         else
           and_then (table_get U32 (sv_chains t) index) (\<lambda>chain.
             sysv_find_loop t name symtab strtab (u32_as_u64 chain) (i + 1))))
     else Ok None)"
  by pat_completeness auto
termination
  by (relation "measure (\<lambda>(t, name, symtab, strtab, index, i). unat (table_len U32 (sv_chains t)) - unat i)")
    (auto simp: unat_incr, auto simp: word_less_nat_alt)

declare sysv_find_loop.simps [simp del]

definition sysv_find ::
    "sysv_hash_table \<Rightarrow> u8 list \<Rightarrow> parsing_table \<Rightarrow> string_table \<Rightarrow> (parse_error, (usize \<times> symbol) option) outcome" where
  "sysv_find t name symtab strtab =
    (if table_is_empty U32 (sv_buckets t) then Ok None
     else
       let hash = sysv_hash name; start = u32_as_u64 hash mod table_len U32 (sv_buckets t) in
       and_then (table_get U32 (sv_buckets t) start) (\<lambda>index.
         sysv_find_loop t name symtab strtab (u32_as_u64 index) 0))"

section \<open>The GNU hash table\<close>

definition gnu_hash_step :: "32 word \<Rightarrow> u8 \<Rightarrow> 32 word" where
  "gnu_hash_step hash byte = hash * 33 + ucast byte"

definition gnu_hash :: "u8 list \<Rightarrow> 32 word" where
  "gnu_hash name = foldl gnu_hash_step 5381 name"

record gnu_hash_header =
  gnu_nbucket :: "32 word"
  gnu_table_start_idx :: "32 word"
  gnu_nbloom :: "32 word"
  gnu_nshift :: "32 word"

definition gnu_hash_header_parse_at ::
    "endian \<Rightarrow> elf_class \<Rightarrow> usize \<Rightarrow> u8 list \<Rightarrow> (parse_error, gnu_hash_header) outcome \<times> usize" where
  "gnu_hash_header_parse_at e class offset data =
    and_then_st (parse_u32_at e offset data) (\<lambda>nbucket offset.
    and_then_st (parse_u32_at e offset data) (\<lambda>table_start_idx offset.
    and_then_st (parse_u32_at e offset data) (\<lambda>nbloom offset.
    and_then_st (parse_u32_at e offset data) (\<lambda>nshift offset.
      (Ok \<lparr>gnu_nbucket = nbucket, gnu_table_start_idx = table_start_idx, gnu_nbloom = nbloom,
           gnu_nshift = nshift\<rparr>, offset)))))"

definition gnu_hash_header_size_for :: "elf_class \<Rightarrow> usize" where
  "gnu_hash_header_size_for class = 16"

definition GnuHashHeader :: "gnu_hash_header parse_at" where
  "GnuHashHeader = \<lparr>pa_parse_at = gnu_hash_header_parse_at, pa_size_for = gnu_hash_header_size_for\<rparr>"

definition gnu_hash_header_bytes :: "endian \<Rightarrow> elf_class \<Rightarrow> gnu_hash_header \<Rightarrow> u8 list" where
  "gnu_hash_header_bytes e class h =
    enc 4 e (gnu_nbucket h) @ enc 4 e (gnu_table_start_idx h) @ enc 4 e (gnu_nbloom h) @ enc 4 e (gnu_nshift h)"

definition gnu_hash_header_wf :: "elf_class \<Rightarrow> gnu_hash_header \<Rightarrow> bool" where
  "gnu_hash_header_wf class h = True"

lemmas gnu_hash_header_defs =
  gnu_hash_header_parse_at_def gnu_hash_header_size_for_def gnu_hash_header_bytes_def gnu_hash_header_wf_def

lemma gnu_hash_header_entry: "exact_parsable GnuHashHeader gnu_hash_header_bytes gnu_hash_header_wf"
proof (rule exact_parsableI)
  fix data :: "u8 list" and c e x i
  show "0 < unat (pa_size_for GnuHashHeader c) \<and> unat (pa_size_for GnuHashHeader c) \<le> 64"
    "length (gnu_hash_header_bytes e c x) = unat (pa_size_for GnuHashHeader c)"
    by (cases c; simp add: GnuHashHeader_def gnu_hash_header_defs)+
  assume d: "is_slice data"
  show "pa_parse_at GnuHashHeader e c (usz i) data = (Ok x, usz (i + unat (pa_size_for GnuHashHeader c)))"
    if "gnu_hash_header_wf c x" "holds_at data i (gnu_hash_header_bytes e c x)"
    using that d by (cases c) (auto simp: GnuHashHeader_def gnu_hash_header_defs holds_at_append elf_at add.commute [of i])
  show "reads data (unat (pa_size_for GnuHashHeader c)) (\<lambda>x bs. gnu_hash_header_wf c x \<and> gnu_hash_header_bytes e c x = bs)
      (\<lambda>off. pa_parse_at GnuHashHeader e c off data)"
    using d by (cases c; simp add: GnuHashHeader_def gnu_hash_header_defs)
        (rule reads_cong, (rule reads_bind reads_field reads_ret, assumption?)+, simp, simp)+
qed

interpretation gnuh: exact_parsable GnuHashHeader gnu_hash_header_bytes gnu_hash_header_wf
  by (rule gnu_hash_header_entry)

record gnu_hash_table =
  gh_hdr :: gnu_hash_header
  gh_endian :: endian
  gh_class :: elf_class
  gh_bloom :: "u8 list"
  gh_buckets :: parsing_table
  gh_chains :: parsing_table

definition gnu_hash_table_new :: "endian \<Rightarrow> elf_class \<Rightarrow> u8 list \<Rightarrow> (parse_error, gnu_hash_table) outcome" where
  "gnu_hash_table_new e class data =
    (case gnu_hash_header_parse_at e class 0 data of
       (Err err, _) \<Rightarrow> Err err
     | (Panic, _) \<Rightarrow> Panic
     | (Ok hdr, offset) \<Rightarrow>
         let nbloom = u32_as_u64 (gnu_nbloom hdr) in
         and_then (case class of
                     ELF32 \<Rightarrow> ok_or IntegerOverflow (checked_mul nbloom 4)
                   | ELF64 \<Rightarrow> ok_or IntegerOverflow (checked_mul nbloom 8)) (\<lambda>bloom_size.
         and_then (ok_or IntegerOverflow (checked_add offset bloom_size)) (\<lambda>bloom_end.
         and_then (get_bytes data offset bloom_end) (\<lambda>bloom_buf.
         let offset = bloom_end in
         and_then (ok_or IntegerOverflow (checked_mul 4 (u32_as_u64 (gnu_nbucket hdr)))) (\<lambda>buckets_size.
         and_then (ok_or IntegerOverflow (checked_add offset buckets_size)) (\<lambda>buckets_end.
         and_then (get_bytes data offset buckets_end) (\<lambda>buckets_buf.
         let offset = buckets_end in
         and_then (ok_or (SliceReadError offset (of_nat (length data))) (slice_from data offset)) (\<lambda>chains_buf.
           Ok \<lparr>gh_hdr = hdr, gh_endian = e, gh_class = class, gh_bloom = bloom_buf,
               gh_buckets = table_new e class buckets_buf, gh_chains = table_new e class chains_buf\<rparr>))))))))"

text \<open>The word of the bloom filter for a hash, and its width in bits.\<close>

definition gnu_bloom :: "gnu_hash_table \<Rightarrow> 32 word \<Rightarrow> (parse_error, 32 word \<times> u64) outcome" where
  "gnu_bloom t hash =
    (case gh_class t of
       ELF32 \<Rightarrow>
         let bloom_width = 32; bloom_idx = hash div bloom_width mod gnu_nbloom (gh_hdr t);
             bloom_table = table_new (gh_endian t) (gh_class t) (gh_bloom t) in
         and_then (table_get U32 bloom_table (u32_as_u64 bloom_idx)) (\<lambda>w. Ok (bloom_width, u32_as_u64 w))
     | ELF64 \<Rightarrow>
         let bloom_width = 64; bloom_idx = hash div bloom_width mod gnu_nbloom (gh_hdr t);
             bloom_table = table_new (gh_endian t) (gh_class t) (gh_bloom t) in
         and_then (table_get U64 bloom_table (u32_as_u64 bloom_idx)) (\<lambda>w. Ok (bloom_width, w)))"

definition bloom_bit :: "u64 \<Rightarrow> 32 word \<Rightarrow> 32 word \<Rightarrow> bool" where
  "bloom_bit word hash bloom_width = (word AND push_bit (unat (hash mod bloom_width)) 1 \<noteq> 0)"

definition checked_shr :: "32 word \<Rightarrow> 32 word \<Rightarrow> 32 word option" where
  "checked_shr x n = (if n < 32 then Some (drop_bit (unat n) x) else None)"

text \<open>The loop of \<^verbatim>\<open>GnuHashTable::find\<close> over the chain entries from \<open>chain_idx\<close>.\<close>

function gnu_find_loop ::
    "gnu_hash_table \<Rightarrow> u8 list \<Rightarrow> 32 word \<Rightarrow> parsing_table \<Rightarrow> string_table \<Rightarrow> usize \<Rightarrow> usize \<Rightarrow> usize \<Rightarrow>
      (parse_error, (usize \<times> symbol) option) outcome" where
  "gnu_find_loop t name hash symtab strtab table_start_idx chain_idx chain_len =
    (if chain_idx < chain_len then
       and_then (table_get U32 (gh_chains t) chain_idx) (\<lambda>chain_hash.
       and_then
         (if hash OR 1 = chain_hash OR 1 then
            and_then (ok_or IntegerOverflow (checked_add chain_idx table_start_idx)) (\<lambda>sym_idx.
            and_then (table_get Symbol symtab sym_idx) (\<lambda>symbol.
            and_then (get_raw strtab (u32_as_u64 (st_name symbol))) (\<lambda>r_sym_name.
              Ok (if r_sym_name = name then Some (sym_idx, symbol) else None))))
          else Ok None) (\<lambda>hit.
         case hit of
           Some r \<Rightarrow> Ok (Some r)
         | None \<Rightarrow>
             if chain_hash AND 1 \<noteq> 0 then Ok None
             else gnu_find_loop t name hash symtab strtab table_start_idx (chain_idx + 1) chain_len))
     else Ok None)"
  by pat_completeness auto
termination
  by (relation "measure (\<lambda>(t, name, hash, symtab, strtab, start, i, n). unat n - unat i)")
    (auto simp: unat_incr, auto simp: word_less_nat_alt)

declare gnu_find_loop.simps [simp del]

definition gnu_find ::
    "gnu_hash_table \<Rightarrow> u8 list \<Rightarrow> parsing_table \<Rightarrow> string_table \<Rightarrow> (parse_error, (usize \<times> symbol) option) outcome" where
  "gnu_find t name symtab strtab =
    (if table_is_empty U32 (gh_buckets t) \<or> gnu_nbloom (gh_hdr t) = 0 then Ok None
     else
       let hash = gnu_hash name in
       and_then (gnu_bloom t hash) (\<lambda>(bloom_width, word).
         if \<not> bloom_bit word hash bloom_width then Ok None
         else
           and_then (ok_or IntegerOverflow (checked_shr hash (gnu_nshift (gh_hdr t)))) (\<lambda>hash2.
             if \<not> bloom_bit word hash2 bloom_width then Ok None
             else
               let table_start_idx = u32_as_u64 (gnu_table_start_idx (gh_hdr t)) in
               and_then (table_get U32 (gh_buckets t) (u32_as_u64 hash mod table_len U32 (gh_buckets t))) (\<lambda>bucket.
                 let chain_start_idx = u32_as_u64 bucket in
                 if chain_start_idx < table_start_idx then Ok None
                 else gnu_find_loop t name hash symtab strtab table_start_idx (chain_start_idx - table_start_idx)
                        (table_len U32 (gh_chains t))))))"

end
