(* ===== verification/Elf_Hash_Search.thy ===== *)
theory Elf_Hash_Search
  imports Elf_Hash
begin

text \<open>
  What the two hash tables of \<^verbatim>\<open>elf/src/hash.rs\<close> must contain for a given list of symbol names, and that
  the lookups over such a table find what a linear search over the symbols finds.
\<close>

section \<open>The symbols' names\<close>

definition names_of :: "parsing_table \<Rightarrow> string_table \<Rightarrow> u8 list list \<Rightarrow> bool" where
  "names_of symtab strtab names =
    (is_slice (pt_data symtab) \<and>
     map (\<lambda>s. get_raw strtab (u32_as_u64 (st_name s))) (table_entries Symbol symtab) = map Ok names)"

lemma names_of_symbol:
  assumes "names_of symtab strtab names" and "unat i < length names"
  shows "table_get Symbol symtab i = Ok (table_entries Symbol symtab ! unat i)"
    and "get_raw strtab (u32_as_u64 (st_name (table_entries Symbol symtab ! unat i))) = Ok (names ! unat i)"
proof -
  have s: "is_slice (pt_data symtab)"
    and m: "map (\<lambda>s. get_raw strtab (u32_as_u64 (st_name s))) (table_entries Symbol symtab) = map Ok names"
    using assms(1) by (auto simp: names_of_def)
  have n: "entry_count Symbol symtab = length names" using arg_cong [OF m, of length] by simp
  then show "table_get Symbol symtab i = Ok (table_entries Symbol symtab ! unat i)"
    using sym.table_get [OF s, of i] assms(2) by simp
  show "get_raw strtab (u32_as_u64 (st_name (table_entries Symbol symtab ! unat i))) = Ok (names ! unat i)"
    using arg_cong [OF m, of "\<lambda>xs. xs ! unat i"] assms(2) n by simp
qed

section \<open>The GNU table\<close>

definition bloom_width :: "gnu_hash_table \<Rightarrow> nat" where
  "bloom_width t = (case gh_class t of ELF32 \<Rightarrow> 32 | ELF64 \<Rightarrow> 64)"

definition bloom_words :: "gnu_hash_table \<Rightarrow> u64 list" where
  "bloom_words t =
    (let bloom = table_new (gh_endian t) (gh_class t) (gh_bloom t) in
     case gh_class t of ELF32 \<Rightarrow> map u32_as_u64 (table_entries U32 bloom) | ELF64 \<Rightarrow> table_entries U64 bloom)"

definition bloom_has :: "gnu_hash_table \<Rightarrow> 32 word \<Rightarrow> bool" where
  "bloom_has t h =
    (let w = bloom_words t ! (unat h div bloom_width t mod length (bloom_words t)) in
     bit w (unat h mod bloom_width t) \<and> bit w (unat (drop_bit (unat (gnu_nshift (gh_hdr t))) h) mod bloom_width t))"

definition gnu_bucket :: "gnu_hash_table \<Rightarrow> u8 list \<Rightarrow> nat" where
  "gnu_bucket t name = unat (gnu_hash name) mod entry_count U32 (gh_buckets t)"

abbreviation gnu_start :: "gnu_hash_table \<Rightarrow> nat" where
  "gnu_start t \<equiv> unat (gnu_table_start_idx (gh_hdr t))"

text \<open>
  The layout of the table: symbols from the start index on are hashed; those of a bucket are adjacent,
  the bucket holds the first of them (or an index below the start), a chain entry is the hash of its
  symbol with the lowest bit telling whether it is the last of its bucket, and the bloom filter has both
  bits of every hash.
\<close>

definition gnu_layout_sizes :: "gnu_hash_table \<Rightarrow> u8 list list \<Rightarrow> bool" where
  "gnu_layout_sizes t names =
    (is_slice (pt_data (gh_buckets t)) \<and> is_slice (pt_data (gh_chains t)) \<and> is_slice (gh_bloom t) \<and>
     0 < entry_count U32 (gh_buckets t) \<and> gnu_start t \<le> length names \<and>
     entry_count U32 (gh_chains t) = length names - gnu_start t \<and>
     0 < gnu_nbloom (gh_hdr t) \<and> length (bloom_words t) = unat (gnu_nbloom (gh_hdr t)) \<and> gnu_nshift (gh_hdr t) < 32)"

definition gnu_layout_chain :: "gnu_hash_table \<Rightarrow> u8 list list \<Rightarrow> nat \<Rightarrow> bool" where
  "gnu_layout_chain t names i =
    (let c = table_entries U32 (gh_chains t) ! (i - gnu_start t); h = gnu_hash (names ! i) in
     bloom_has t h \<and> c OR 1 = h OR 1 \<and>
     (c AND 1 \<noteq> 0 \<longleftrightarrow> Suc i = length names \<or> gnu_bucket t (names ! Suc i) \<noteq> gnu_bucket t (names ! i)) \<and>
     (\<forall>j \<in> {Suc i..<length names}. gnu_bucket t (names ! j) = gnu_bucket t (names ! i) \<longrightarrow>
        gnu_bucket t (names ! Suc i) = gnu_bucket t (names ! i)))"

definition gnu_layout_bucket :: "gnu_hash_table \<Rightarrow> u8 list list \<Rightarrow> nat \<Rightarrow> bool" where
  "gnu_layout_bucket t names b =
    (case List.find (\<lambda>i. gnu_bucket t (names ! i) = b) [gnu_start t..<length names] of
       None \<Rightarrow> unat (table_entries U32 (gh_buckets t) ! b) < gnu_start t
     | Some i \<Rightarrow> unat (table_entries U32 (gh_buckets t) ! b) = i)"

definition gnu_layout :: "gnu_hash_table \<Rightarrow> u8 list list \<Rightarrow> bool" where
  "gnu_layout t names =
    (gnu_layout_sizes t names \<and>
     (\<forall>i \<in> {gnu_start t..<length names}. gnu_layout_chain t names i) \<and>
     (\<forall>b \<in> {0..<entry_count U32 (gh_buckets t)}. gnu_layout_bucket t names b))"

lemma bloom_bit_iff: "bloom_bit word h w \<longleftrightarrow> bit word (unat (h mod w))"
  by (simp add: bloom_bit_def and_exp_eq_0_iff_not_bit push_bit_eq_mult)

lemma gnu_bloom_word:
  assumes "gnu_layout_sizes t names"
  shows "gnu_bloom t h =
    Ok (of_nat (bloom_width t), bloom_words t ! (unat h div bloom_width t mod length (bloom_words t)))"
proof -
  let ?bt = "table_new (gh_endian t) (gh_class t) (gh_bloom t)"
  have s: "is_slice (pt_data ?bt)" using assms by (simp add: gnu_layout_sizes_def table_new_def)
  show ?thesis
  proof (cases "gh_class t")
    case ELF32
    then have n: "entry_count U32 ?bt = unat (gnu_nbloom (gh_hdr t))" "0 < unat (gnu_nbloom (gh_hdr t))"
      using assms by (auto simp: gnu_layout_sizes_def bloom_words_def Let_def word_less_nat_alt)
    then show ?thesis
      using ELF32 u32.table_get [OF s, of "u32_as_u64 (h div 32 mod gnu_nbloom (gh_hdr t))"]
      by (simp add: gnu_bloom_def Let_def unat_mod unat_div bloom_words_def bloom_width_def)
  next
    case ELF64
    then have n: "entry_count U64 ?bt = unat (gnu_nbloom (gh_hdr t))" "0 < unat (gnu_nbloom (gh_hdr t))"
      using assms by (auto simp: gnu_layout_sizes_def bloom_words_def Let_def word_less_nat_alt)
    then show ?thesis
      using ELF64 u64.table_get [OF s, of "u32_as_u64 (h div 64 mod gnu_nbloom (gh_hdr t))"]
      by (simp add: gnu_bloom_def Let_def unat_mod unat_div bloom_words_def bloom_width_def)
  qed
qed

lemma bloom_bits:
  "bloom_has t h \<longleftrightarrow>
    (let w = bloom_words t ! (unat h div bloom_width t mod length (bloom_words t)) in
     bloom_bit w h (of_nat (bloom_width t)) \<and>
     bloom_bit w (drop_bit (unat (gnu_nshift (gh_hdr t))) h) (of_nat (bloom_width t)))"
  by (cases "gh_class t") (simp_all add: bloom_has_def bloom_width_def bloom_bit_iff unat_mod Let_def)

text \<open>From a symbol of the name's bucket on, the loop searches the rest of the symbols.\<close>

abbreviation found :: "parsing_table \<Rightarrow> nat option \<Rightarrow> (usize \<times> symbol) option" where
  "found symtab r \<equiv> map_option (\<lambda>i. (usz i, table_entries Symbol symtab ! i)) r"

lemma gnu_find_loop_linear:
  assumes lay: "gnu_layout t names" and nm: "names_of symtab strtab names" and len: "length names < 2 ^ 32"
  shows "gnu_start t \<le> i \<Longrightarrow> i < length names \<Longrightarrow> gnu_bucket t (names ! i) = gnu_bucket t name \<Longrightarrow>
    gnu_find_loop t name (gnu_hash name) symtab strtab (usz (gnu_start t)) (usz (i - gnu_start t)) (table_len U32 (gh_chains t)) =
      Ok (found symtab (List.find (\<lambda>k. names ! k = name) [i..<length names]))"
proof (induction "length names - i" arbitrary: i)
  case (Suc m)
  let ?s = "gnu_start t" and ?h = "gnu_hash name"
  have sz: "gnu_layout_sizes t names" using lay by (simp add: gnu_layout_def)
  have sl: "is_slice (pt_data (gh_chains t))" and cn: "entry_count U32 (gh_chains t) = length names - ?s"
    using sz by (auto simp: gnu_layout_sizes_def)
  have l: "unat (table_len U32 (gh_chains t)) = length names - ?s" using u32.table_len [OF sl] cn by simp
  let ?c = "table_entries U32 (gh_chains t) ! (i - ?s)"
  have ui: "unat (usz (i - ?s)) = i - ?s" using Suc.prems(2) len by (intro unat_usz) simp
  have lt: "usz (i - ?s) < table_len U32 (gh_chains t)" using Suc.prems(1,2) by (simp add: word_less_nat_alt ui l)
  have get: "table_get U32 (gh_chains t) (usz (i - ?s)) = Ok ?c"
    using u32.table_get [OF sl, of "usz (i - ?s)"] Suc.prems(1,2) cn ui by simp
  have ch: "gnu_layout_chain t names i" using lay Suc.prems(1,2) by (simp add: gnu_layout_def)
  have idx: "checked_add (usz (i - ?s)) (usz ?s) = Some (usz i)"
    using Suc.prems(1,2) len by (simp add: checked_add_def) (simp add: usz_def of_nat_diff)
  have i': "unat (usz i) < length names" "unat (usz i) = i" using Suc.prems(2) len by simp_all
  note sym = names_of_symbol [OF nm i'(1), unfolded i'(2)]
  have hit: "names ! i = name \<Longrightarrow> ?h OR 1 = ?c OR 1"
    using ch by (auto simp: gnu_layout_chain_def Let_def)
  have nxt: "usz (i - ?s) + 1 = usz (Suc i - ?s)" using Suc.prems(1) by (simp add: usz_def Suc_diff_le)
  have step: "gnu_find_loop t name ?h symtab strtab (usz ?s) (usz (i - ?s)) (table_len U32 (gh_chains t)) =
      (if names ! i = name then Ok (Some (usz i, table_entries Symbol symtab ! i))
       else if ?c AND 1 \<noteq> 0 then Ok None
       else gnu_find_loop t name ?h symtab strtab (usz ?s) (usz (Suc i - ?s)) (table_len U32 (gh_chains t)))"
    using lt hit by (subst gnu_find_loop.simps) (simp add: get idx sym nxt)
  have up: "[i..<length names] = i # [Suc i..<length names]" using Suc.prems(2) by (simp add: upt_conv_Cons)
  show ?case
  proof (cases "names ! i = name")
    case True
    then show ?thesis by (simp add: step up)
  next
    case ne: False
    show ?thesis
    proof (cases "?c AND 1 \<noteq> 0")
      case True
      have "List.find (\<lambda>k. names ! k = name) [Suc i..<length names] = None"
        using ch True Suc.prems(3) by (auto simp: find_None_iff gnu_layout_chain_def Let_def)
      then show ?thesis using True ne by (simp add: step up)
    next
      case False
      then have "Suc i < length names" "gnu_bucket t (names ! Suc i) = gnu_bucket t name"
        using ch Suc.prems(2,3) by (auto simp: gnu_layout_chain_def Let_def)
      then show ?thesis using Suc.hyps(1) [of "Suc i"] Suc.hyps(2) Suc.prems(1) False ne by (simp add: step up)
    qed
  qed
qed simp

lemma find_prefix_None:
  "(\<forall>k \<in> {a..<b}. \<not> p k) \<Longrightarrow> b \<le> n \<Longrightarrow> a \<le> b \<Longrightarrow> List.find p [a..<n] = List.find p [b..<n]"
proof -
  assume a: "\<forall>k \<in> {a..<b}. \<not> p k" "b \<le> n" "a \<le> b"
  then have "[a..<n] = [a..<b] @ [b..<n]" by (metis le_add_diff_inverse upt_add_eq_append)
  moreover have "List.find p (xs @ ys) = List.find p ys" if "\<forall>x \<in> set xs. \<not> p x" for xs ys
    using that by (induction xs) auto
  ultimately show ?thesis using a(1) by simp
qed

text \<open>
  C8. Lookup in a GNU hash table: over a table laid out for a list of symbol names as the format
  prescribes, \<^verbatim>\<open>find\<close> returns, for every name, the first symbol from the table's start index on that has
  this name, with its index, and nothing when there is none: bloom filter, buckets and chain bits are
  only an index to a linear search. It does not fail, and never panics.
\<close>

theorem gnu_find_linear:
  assumes lay: "gnu_layout t names" and nm: "names_of symtab strtab names" and len: "length names < 2 ^ 32"
  shows "gnu_find t name symtab strtab =
    Ok (found symtab (List.find (\<lambda>i. names ! i = name) [gnu_start t..<length names]))"
proof -
  let ?s = "gnu_start t" and ?h = "gnu_hash name" and ?b = "gnu_bucket t name"
  have sz: "gnu_layout_sizes t names" using lay by (simp add: gnu_layout_def)
  have sl: "is_slice (pt_data (gh_buckets t))" and bn: "0 < entry_count U32 (gh_buckets t)" and st: "?s \<le> length names"
    and nb: "gnu_nbloom (gh_hdr t) \<noteq> 0" and sh: "gnu_nshift (gh_hdr t) < 32"
    using sz by (auto simp: gnu_layout_sizes_def)
  have ne: "\<not> table_is_empty U32 (gh_buckets t)" using u32.table_is_empty [OF sl] bn by simp
  have bl: "?b < entry_count U32 (gh_buckets t)" using bn by (simp add: gnu_bucket_def)
  let ?v = "table_entries U32 (gh_buckets t) ! ?b"
  have "unat (u32_as_u64 ?h mod table_len U32 (gh_buckets t)) = ?b"
    by (simp add: unat_mod u32.table_len [OF sl] gnu_bucket_def)
  then have bget: "table_get U32 (gh_buckets t) (u32_as_u64 ?h mod table_len U32 (gh_buckets t)) = Ok ?v"
    using u32.table_get [OF sl, of "u32_as_u64 ?h mod table_len U32 (gh_buckets t)"] bl by simp
  have absent: "List.find (\<lambda>i. names ! i = name) [?s..<length names] = None" if "\<not> bloom_has t ?h"
    using that lay by (auto simp: find_None_iff gnu_layout_def gnu_layout_chain_def Let_def)
  have search: "gnu_find t name symtab strtab =
      (if unat ?v < ?s then Ok None
       else gnu_find_loop t name ?h symtab strtab (usz ?s) (usz (unat ?v - ?s)) (table_len U32 (gh_chains t)))"
    if "bloom_has t ?h"
  proof -
    have d: "\<not> unat ?v < ?s \<Longrightarrow> u32_as_u64 ?v - u32_as_u64 (gnu_table_start_idx (gh_hdr t)) = usz (unat ?v - ?s)"
      by (simp add: u32_as_u64_usz usz_def of_nat_diff)
    show ?thesis
      using that ne nb sh unfolding bloom_bits gnu_find_def
      by (simp add: gnu_bloom_word [OF sz] Let_def checked_shr_def bget d word_less_nat_alt) (simp add: u32_as_u64_usz)
  qed
  show ?thesis
  proof (cases "bloom_has t ?h")
    case False
    then show ?thesis
      using ne nb sh unfolding bloom_bits gnu_find_def
      by (auto simp: gnu_bloom_word [OF sz] Let_def checked_shr_def absent [OF False])
  next
    case True
    have lb: "gnu_layout_bucket t names ?b" using lay bl by (simp add: gnu_layout_def)
    show ?thesis
    proof (cases "List.find (\<lambda>i. gnu_bucket t (names ! i) = ?b) [?s..<length names]")
      case None
      then have "List.find (\<lambda>i. names ! i = name) [?s..<length names] = None" by (auto simp: find_None_iff)
      then show ?thesis using lb None by (simp add: search [OF True] gnu_layout_bucket_def)
    next
      case (Some i)
      then have v: "unat ?v = i" using lb by (simp add: gnu_layout_bucket_def)
      have i: "?s \<le> i" "i < length names" "gnu_bucket t (names ! i) = ?b"
        and before: "\<forall>k \<in> {?s..<i}. gnu_bucket t (names ! k) \<noteq> ?b"
        using Some by (auto simp: find_Some_iff nth_append) (metis Suc_diff_le add_diff_inverse_nat diff_Suc_eq_diff_pred less_diff_conv2 nat_add_left_cancel_less not_less)
      have "List.find (\<lambda>i. names ! i = name) [?s..<length names] = List.find (\<lambda>i. names ! i = name) [i..<length names]"
        by (rule find_prefix_None) (use before i in auto)
      then show ?thesis using gnu_find_loop_linear [OF lay nm len i] i(1) by (simp add: search [OF True] v)
    qed
  qed
qed

section \<open>The SysV table\<close>

text \<open>The symbols of a chain, from an index to the entry 0 that ends it.\<close>

primrec sysv_path :: "32 word list \<Rightarrow> nat \<Rightarrow> nat \<Rightarrow> nat list" where
  "sysv_path cs 0 i = []"
| "sysv_path cs (Suc k) i = (if i = 0 then [] else i # sysv_path cs k (unat (cs ! i)))"

definition sysv_bucket :: "sysv_hash_table \<Rightarrow> u8 list \<Rightarrow> nat" where
  "sysv_bucket t name = unat (sysv_hash name) mod entry_count U32 (sv_buckets t)"

definition sysv_chain_of :: "sysv_hash_table \<Rightarrow> nat \<Rightarrow> nat list" where
  "sysv_chain_of t b =
    sysv_path (table_entries U32 (sv_chains t)) (entry_count U32 (sv_chains t)) (unat (table_entries U32 (sv_buckets t) ! b))"

text \<open>The layout: a chain entry for every symbol, and every symbol but the first is in the chain of its bucket.\<close>

definition sysv_layout :: "sysv_hash_table \<Rightarrow> u8 list list \<Rightarrow> bool" where
  "sysv_layout t names =
    (is_slice (pt_data (sv_buckets t)) \<and> is_slice (pt_data (sv_chains t)) \<and>
     0 < entry_count U32 (sv_buckets t) \<and> entry_count U32 (sv_chains t) = length names \<and>
     (\<forall>b \<in> {0..<entry_count U32 (sv_buckets t)}. \<forall>i \<in> set (sysv_chain_of t b). i < length names) \<and>
     (\<forall>i \<in> {1..<length names}. i \<in> set (sysv_chain_of t (sysv_bucket t (names ! i)))))"

lemma sysv_path_pos: "0 \<notin> set (sysv_path cs k i)"
  by (induction k arbitrary: i) auto

lemma sysv_find_loop_path:
  assumes sl: "is_slice (pt_data (sv_chains t))" and cn: "entry_count U32 (sv_chains t) = length names"
    and nm: "names_of symtab strtab names"
  shows "k \<le> length names \<Longrightarrow> \<forall>i \<in> set (sysv_path (table_entries U32 (sv_chains t)) k (unat index)). i < length names \<Longrightarrow>
    sysv_find_loop t name symtab strtab index (usz (length names - k)) =
      Ok (found symtab (List.find (\<lambda>i. names ! i = name) (sysv_path (table_entries U32 (sv_chains t)) k (unat index))))"
proof (induction k arbitrary: index)
  case 0
  have "unat (usz (length names)) = length names"
    using cn u32.table_len [OF sl] unat_usize_less [of "table_len U32 (sv_chains t)"] by (intro unat_usz) simp
  then have "\<not> usz (length names) < table_len U32 (sv_chains t)"
    using cn u32.table_len [OF sl] by (simp add: word_less_nat_alt)
  then show ?case by (subst sysv_find_loop.simps) simp
next
  case (Suc k)
  let ?ch = "table_entries U32 (sv_chains t)"
  show ?case
  proof (cases "index = 0")
    case True
    then show ?thesis by (subst sysv_find_loop.simps) simp
  next
    case False
    then have pos: "unat index \<noteq> 0" by (simp add: unat_eq_zero)
    have il: "unat index < length names" using Suc.prems(2) pos by simp
    have b: "length names < 2 ^ 64"
      using cn u32.table_len [OF sl] unat_usize_less [of "table_len U32 (sv_chains t)"] by simp
    have lt: "usz (length names - Suc k) < table_len U32 (sv_chains t)"
      using Suc.prems(1) b cn u32.table_len [OF sl] by (simp add: word_less_nat_alt)
    have get: "table_get U32 (sv_chains t) index = Ok (?ch ! unat index)"
      using u32.table_get [OF sl, of index] il cn by simp
    have nxt: "usz (length names - Suc k) + 1 = usz (length names - k)"
      using Suc.prems(1) by (simp add: usz_def of_nat_diff)
    have IH: "sysv_find_loop t name symtab strtab (u32_as_u64 (?ch ! unat index)) (usz (length names - k)) =
        Ok (found symtab (List.find (\<lambda>i. names ! i = name) (sysv_path ?ch k (unat (?ch ! unat index)))))"
      using Suc.IH [of "u32_as_u64 (?ch ! unat index)"] Suc.prems pos by simp
    show ?thesis
      using False lt pos
      by (subst sysv_find_loop.simps) (simp add: names_of_symbol [OF nm il] get nxt IH)
  qed
qed

lemma sysv_find_layout:
  assumes lay: "sysv_layout t names" and nm: "names_of symtab strtab names"
  shows "sysv_find t name symtab strtab =
    Ok (found symtab (List.find (\<lambda>i. names ! i = name) (sysv_chain_of t (sysv_bucket t name))))"
proof -
  have sl: "is_slice (pt_data (sv_buckets t))" "is_slice (pt_data (sv_chains t))" and bn: "0 < entry_count U32 (sv_buckets t)"
    and cn: "entry_count U32 (sv_chains t) = length names"
    using lay by (auto simp: sysv_layout_def)
  have ne: "\<not> table_is_empty U32 (sv_buckets t)" using u32.table_is_empty [OF sl(1)] bn by simp
  have bl: "sysv_bucket t name < entry_count U32 (sv_buckets t)" using bn by (simp add: sysv_bucket_def)
  have "unat (u32_as_u64 (sysv_hash name) mod table_len U32 (sv_buckets t)) = sysv_bucket t name"
    by (simp add: unat_mod u32.table_len [OF sl(1)] sysv_bucket_def)
  then have get: "table_get U32 (sv_buckets t) (u32_as_u64 (sysv_hash name) mod table_len U32 (sv_buckets t)) =
      Ok (table_entries U32 (sv_buckets t) ! sysv_bucket t name)"
    using u32.table_get [OF sl(1), of "u32_as_u64 (sysv_hash name) mod table_len U32 (sv_buckets t)"] bl by simp
  have "\<forall>i \<in> set (sysv_chain_of t (sysv_bucket t name)). i < length names"
    using lay bl by (simp add: sysv_layout_def)
  then show ?thesis
    using sysv_find_loop_path [OF sl(2) cn nm order.refl,
        of "u32_as_u64 (table_entries U32 (sv_buckets t) ! sysv_bucket t name)" name] ne
    by (simp add: sysv_find_def get sysv_chain_of_def cn usz_def)
qed

lemma sysv_chain_valid:
  assumes "sysv_layout t names" and "i \<in> set (sysv_chain_of t (sysv_bucket t name))"
  shows "i \<in> {1..<length names}"
proof -
  have "sysv_bucket t name < entry_count U32 (sv_buckets t)"
    using assms(1) by (auto simp: sysv_layout_def sysv_bucket_def)
  then have "i < length names" using assms by (auto simp: sysv_layout_def)
  moreover have "i \<noteq> 0" using assms(2) sysv_path_pos by (metis sysv_chain_of_def)
  ultimately show ?thesis by simp
qed

lemma sysv_chain_complete:
  assumes "sysv_layout t names"
  shows "(\<exists>i \<in> set (sysv_chain_of t (sysv_bucket t name)). names ! i = name) \<longleftrightarrow>
    (\<exists>i \<in> {1..<length names}. names ! i = name)"
proof -
  have "i \<in> set (sysv_chain_of t (sysv_bucket t (names ! i)))" if "i \<in> {1..<length names}" for i
    using that assms by (auto simp: sysv_layout_def)
  then show ?thesis using sysv_chain_valid [OF assms] by blast
qed

text \<open>
  C24. Lookup in a SysV hash table: over a table whose chains hold every symbol in the chain of its
  bucket, \<^verbatim>\<open>find\<close> returns a symbol of the given name, with its index, whenever a symbol other than the
  first has the name, and nothing otherwise. The bound on the number of steps cuts no search short.
\<close>

theorem sysv_find_linear:
  assumes lay: "sysv_layout t names" and nm: "names_of symtab strtab names"
  shows "(\<exists>i \<in> {1..<length names}. names ! i = name) \<and>
      (\<exists>i \<in> {1..<length names}. names ! i = name \<and>
         sysv_find t name symtab strtab = Ok (Some (usz i, table_entries Symbol symtab ! i))) \<or>
    \<not> (\<exists>i \<in> {1..<length names}. names ! i = name) \<and> sysv_find t name symtab strtab = Ok None"
proof (cases "List.find (\<lambda>i. names ! i = name) (sysv_chain_of t (sysv_bucket t name))")
  case None
  then have "\<not> (\<exists>i \<in> {1..<length names}. names ! i = name)"
    using sysv_chain_complete [OF lay, of name] by (auto simp: find_None_iff)
  then show ?thesis using sysv_find_layout [OF assms, of name] None by simp
next
  case (Some i)
  then have "i \<in> set (sysv_chain_of t (sysv_bucket t name))" "names ! i = name"
    by (auto simp: find_Some_iff)
  moreover from this(1) have "i \<in> {1..<length names}" by (rule sysv_chain_valid [OF lay])
  ultimately show ?thesis using sysv_find_layout [OF assms, of name] Some by auto
qed

section \<open>An example\<close>

text \<open>Two named symbols after the null symbol, in one bucket of each table.\<close>

definition ex_symbol :: "32 word \<Rightarrow> symbol" where
  "ex_symbol n = \<lparr>st_name = n, st_shndx = 1, st_info = 18, st_other = 0, st_value = 0, st_size = 0\<rparr>"

definition ex_names :: "u8 list list" where
  "ex_names = [[], [97], [98]]"

definition ex_symtab :: parsing_table where
  "ex_symtab = table_new Little ELF64 (concat (map (symbol_bytes Little ELF64) [ex_symbol 0, ex_symbol 1, ex_symbol 3]))"

definition ex_strtab :: string_table where
  "ex_strtab = string_table_new [0, 97, 0, 98, 0]"

definition ex_u32s :: "32 word list \<Rightarrow> parsing_table" where
  "ex_u32s xs = table_new Little ELF64 (concat (map (enc 4 Little) xs))"

definition ex_gnu :: gnu_hash_table where
  "ex_gnu =
    \<lparr>gh_hdr = \<lparr>gnu_nbucket = 1, gnu_table_start_idx = 1, gnu_nbloom = 1, gnu_nshift = 6\<rparr>,
     gh_endian = Little, gh_class = ELF64, gh_bloom = concat (map (enc 8 Little) [- 1 :: u64]), gh_buckets = ex_u32s [1],
     gh_chains = ex_u32s [177670, 177671]\<rparr>"

definition ex_sysv :: sysv_hash_table where
  "ex_sysv = \<lparr>sv_buckets = ex_u32s [2], sv_chains = ex_u32s [0, 0, 1]\<rparr>"

lemma ex_u32s:
  assumes "length xs < 2 ^ 60"
  shows "table_entries U32 (ex_u32s xs) = xs" "entry_count U32 (ex_u32s xs) = length xs" "is_slice (pt_data (ex_u32s xs))"
proof -
  have s: "is_slice (concat (map (enc 4 Little) xs))"
    using assms u32.length_written [where e = Little and c = ELF64 and xs = xs] by (simp add: is_slice_def U32_def u32_size_for_def)
  then show "table_entries U32 (ex_u32s xs) = xs" using u32.written_entries by (simp add: ex_u32s_def)
  then show "entry_count U32 (ex_u32s xs) = length xs" by (metis length_table_entries)
  show "is_slice (pt_data (ex_u32s xs))" using s by (simp add: ex_u32s_def table_new_def)
qed

lemma ex_names_of: "names_of ex_symtab ex_strtab ex_names"
proof -
  have s: "is_slice (concat (map (symbol_bytes Little ELF64) [ex_symbol 0, ex_symbol 1, ex_symbol 3]))"
    by (simp add: is_slice_def symbol_bytes_def)
  have "table_entries Symbol ex_symtab = [ex_symbol 0, ex_symbol 1, ex_symbol 3]"
    unfolding ex_symtab_def by (rule sym.written_entries [OF s]) (simp add: symbol_wf_def)
  then show ?thesis
    using s by (simp add: names_of_def ex_symtab_def table_new_def ex_symbol_def ex_names_def get_raw_def ex_strtab_def
        string_table_new_def slice_from_def u32_as_u64_def)
qed

lemma ex_gnu_bloom: "bloom_words ex_gnu = [- 1]" "is_slice (gh_bloom ex_gnu)"
proof -
  have s: "is_slice (concat (map (enc 8 Little) [- 1 :: u64]))" by (simp add: is_slice_def)
  have "table_entries U64 (table_new Little ELF64 (concat (map (enc 8 Little) [- 1 :: u64]))) = [- 1]"
    by (rule u64.written_entries [OF s]) simp
  then show "bloom_words ex_gnu = [- 1]" by (simp add: bloom_words_def ex_gnu_def)
  show "is_slice (gh_bloom ex_gnu)" using s by (simp add: ex_gnu_def)
qed

lemma ex_gnu_parts:
  "table_entries U32 (gh_buckets ex_gnu) = [1]" "entry_count U32 (gh_buckets ex_gnu) = 1"
  "table_entries U32 (gh_chains ex_gnu) = [177670, 177671]" "entry_count U32 (gh_chains ex_gnu) = 2"
  "is_slice (pt_data (gh_buckets ex_gnu))" "is_slice (pt_data (gh_chains ex_gnu))"
  "gnu_start ex_gnu = 1" "gnu_nbloom (gh_hdr ex_gnu) = 1" "gnu_nshift (gh_hdr ex_gnu) = 6" "gh_class ex_gnu = ELF64"
  by (simp_all add: ex_gnu_def ex_u32s)

lemma ex_gnu_hash: "gnu_hash [97] = 177670" "gnu_hash [98] = 177671"
  by (simp_all add: gnu_hash_def gnu_hash_step_def)

lemmas ex_gnu_facts = ex_gnu_bloom ex_gnu_parts ex_gnu_hash

lemma ex_range: "{Suc 0..<3} = {1, 2}" "[Suc 0..<3] = [1, 2]"
  by (auto simp: upt_rec)

lemma ex_names_simps: "length ex_names = 3" "ex_names ! Suc 0 = [97]" "ex_names ! 2 = [98]"
  by (simp_all add: ex_names_def)

lemma ex_gnu_layout: "gnu_layout ex_gnu ex_names"
proof -
  have "gnu_layout_sizes ex_gnu ex_names"
    by (simp add: gnu_layout_sizes_def ex_gnu_facts ex_names_simps)
  moreover have "gnu_layout_chain ex_gnu ex_names 1"
    by (simp add: gnu_layout_chain_def bloom_has_def ex_gnu_facts ex_names_simps gnu_bucket_def Let_def bloom_width_def)
  moreover have "gnu_layout_chain ex_gnu ex_names 2"
    by (simp add: gnu_layout_chain_def bloom_has_def ex_gnu_facts ex_names_simps gnu_bucket_def Let_def bloom_width_def)
  moreover have "gnu_layout_bucket ex_gnu ex_names 0"
    by (simp add: gnu_layout_bucket_def gnu_bucket_def ex_gnu_facts ex_names_simps ex_range)
  ultimately show ?thesis by (simp add: gnu_layout_def ex_gnu_facts ex_names_simps ex_range)
qed

theorem gnu_find_linear_witness:
  "gnu_find ex_gnu [98] ex_symtab ex_strtab = Ok (Some (usz 2, table_entries Symbol ex_symtab ! 2)) \<and>
   gnu_find ex_gnu [99] ex_symtab ex_strtab = Ok None"
  using gnu_find_linear [OF ex_gnu_layout ex_names_of, of "[98]"] gnu_find_linear [OF ex_gnu_layout ex_names_of, of "[99]"]
  by (simp add: ex_names_simps ex_gnu_facts ex_range)

lemma ex_sysv_parts:
  "table_entries U32 (sv_buckets ex_sysv) = [2]" "entry_count U32 (sv_buckets ex_sysv) = 1"
  "table_entries U32 (sv_chains ex_sysv) = [0, 0, 1]" "entry_count U32 (sv_chains ex_sysv) = 3"
  "is_slice (pt_data (sv_buckets ex_sysv))" "is_slice (pt_data (sv_chains ex_sysv))"
  by (simp_all add: ex_sysv_def ex_u32s)

lemma ex_sysv_chain: "sysv_chain_of ex_sysv 0 = [2, 1]"
  by (simp add: sysv_chain_of_def ex_sysv_parts numeral_3_eq_3)

lemma ex_sysv_layout: "sysv_layout ex_sysv ex_names"
  by (simp add: sysv_layout_def ex_sysv_parts ex_names_simps ex_sysv_chain sysv_bucket_def ex_range)

theorem sysv_find_linear_witness:
  "sysv_find ex_sysv [97] ex_symtab ex_strtab = Ok (Some (usz 1, table_entries Symbol ex_symtab ! 1)) \<and>
   sysv_find ex_sysv [99] ex_symtab ex_strtab = Ok None"
  using sysv_find_linear [OF ex_sysv_layout ex_names_of, of "[97]"] sysv_find_linear [OF ex_sysv_layout ex_names_of, of "[99]"]
  by (simp add: ex_names_simps ex_range)

end
