(* ===== verification/Elf_File.thy ===== *)
theory Elf_File
  imports Elf_Structs Elf_Strings
begin

text \<open>
  The ELF file header (\<^verbatim>\<open>elf/src/file.rs\<close>): the identification bytes, which give the class and the byte
  order, and the rest of the header, read in that class and order. The byte orders a caller accepts are
  the parameter \<open>from_ei_data\<close>, one of \<open>any_from_ei_data\<close>, \<open>little_from_ei_data\<close> and \<open>big_from_ei_data\<close>.
\<close>

section \<open>Identification\<close>

definition ELFMAGIC :: "u8 list" where "ELFMAGIC = [0x7f, 0x45, 0x4c, 0x46]"
definition EI_CLASS :: nat where "EI_CLASS = 4"
definition EI_DATA :: nat where "EI_DATA = 5"
definition EI_VERSION :: nat where "EI_VERSION = 6"
definition EI_OSABI :: nat where "EI_OSABI = 7"
definition EI_ABIVERSION :: nat where "EI_ABIVERSION = 8"
definition EI_NIDENT :: nat where "EI_NIDENT = 16"
definition ELFCLASS32 :: u8 where "ELFCLASS32 = 1"
definition ELFCLASS64 :: u8 where "ELFCLASS64 = 2"
definition EV_CURRENT :: u8 where "EV_CURRENT = 1"

text \<open>\<^verbatim>\<open>buf[i]\<close>.\<close>

definition byte_at :: "u8 list \<Rightarrow> nat \<Rightarrow> (parse_error, u8) outcome" where
  "byte_at buf i = (if i < length buf then Ok (buf ! i) else Panic)"

definition verify_ident :: "u8 list \<Rightarrow> (parse_error, unit) outcome" where
  "verify_ident buf =
    (if length buf < EI_CLASS then Panic
     else
       let magic = take EI_CLASS buf in
       if magic \<noteq> ELFMAGIC then Err (BadMagic (magic ! 0) (magic ! 1) (magic ! 2) (magic ! 3))
       else
         and_then (byte_at buf EI_VERSION) (\<lambda>version.
           if version \<noteq> EV_CURRENT then Err (UnsupportedVersion (ucast version) (ucast EV_CURRENT)) else Ok ()))"

definition parse_ident ::
    "(u8 \<Rightarrow> (parse_error, endian) outcome) \<Rightarrow> u8 list \<Rightarrow> (parse_error, endian \<times> elf_class \<times> u8 \<times> u8) outcome" where
  "parse_ident from_ei_data data =
    and_then (verify_ident data) (\<lambda>_.
    and_then (byte_at data EI_CLASS) (\<lambda>e_class.
    and_then (if e_class = ELFCLASS32 then Ok ELF32 else if e_class = ELFCLASS64 then Ok ELF64
              else Err (UnsupportedElfClass e_class)) (\<lambda>class.
    and_then (byte_at data EI_DATA) (\<lambda>ei_data.
    and_then (from_ei_data ei_data) (\<lambda>file_endian.
    and_then (byte_at data EI_OSABI) (\<lambda>osabi.
    and_then (byte_at data EI_ABIVERSION) (\<lambda>abiversion.
      Ok (file_endian, class, osabi, abiversion))))))))"

section \<open>The header\<close>

record file_header =
  fh_class :: elf_class
  fh_endianness :: endian
  fh_version :: "32 word"
  fh_osabi :: u8
  fh_abiversion :: u8
  e_type :: "16 word"
  e_machine :: "16 word"
  e_entry :: u64
  e_phoff :: u64
  e_shoff :: u64
  e_flags :: "32 word"
  e_ehsize :: "16 word"
  e_phentsize :: "16 word"
  e_phnum :: "16 word"
  e_shentsize :: "16 word"
  e_shnum :: "16 word"
  e_shstrndx :: "16 word"

definition ELF32_EHDR_TAILSIZE :: nat where "ELF32_EHDR_TAILSIZE = 36"
definition ELF64_EHDR_TAILSIZE :: nat where "ELF64_EHDR_TAILSIZE = 48"

text \<open>The three fields whose width is that of the class.\<close>

definition parse_addrs :: "endian \<Rightarrow> elf_class \<Rightarrow> usize \<Rightarrow> u8 list \<Rightarrow> (parse_error, u64 \<times> u64 \<times> u64) outcome \<times> usize" where
  "parse_addrs e class offset data =
    (if class = ELF32 then
       and_then_st (parse_u32_at e offset data) (\<lambda>entry offset.
       and_then_st (parse_u32_at e offset data) (\<lambda>phoff offset.
       and_then_st (parse_u32_at e offset data) (\<lambda>shoff offset.
         (Ok (u32_as_u64 entry, u32_as_u64 phoff, u32_as_u64 shoff), offset))))
     else
       and_then_st (parse_u64_at e offset data) (\<lambda>entry offset.
       and_then_st (parse_u64_at e offset data) (\<lambda>phoff offset.
       and_then_st (parse_u64_at e offset data) (\<lambda>shoff offset.
         (Ok (entry, phoff, shoff), offset)))))"

definition parse_tail :: "endian \<times> elf_class \<times> u8 \<times> u8 \<Rightarrow> u8 list \<Rightarrow> (parse_error, file_header) outcome" where
  "parse_tail ident data =
    (case ident of
       (e, class, osabi, abiversion) \<Rightarrow>
         fst (
         and_then_st (parse_u16_at e 0 data) (\<lambda>type offset.
         and_then_st (parse_u16_at e offset data) (\<lambda>machine offset.
         and_then_st (parse_u32_at e offset data) (\<lambda>version offset.
         and_then_st (parse_addrs e class offset data) (\<lambda>(entry, phoff, shoff) offset.
         and_then_st (parse_u32_at e offset data) (\<lambda>flags offset.
         and_then_st (parse_u16_at e offset data) (\<lambda>ehsize offset.
         and_then_st (parse_u16_at e offset data) (\<lambda>phentsize offset.
         and_then_st (parse_u16_at e offset data) (\<lambda>phnum offset.
         and_then_st (parse_u16_at e offset data) (\<lambda>shentsize offset.
         and_then_st (parse_u16_at e offset data) (\<lambda>shnum offset.
         and_then_st (parse_u16_at e offset data) (\<lambda>shstrndx offset.
           (Ok \<lparr>fh_class = class, fh_endianness = e, fh_version = version, fh_osabi = osabi, fh_abiversion = abiversion,
                e_type = type, e_machine = machine, e_entry = entry, e_phoff = phoff, e_shoff = shoff, e_flags = flags,
                e_ehsize = ehsize, e_phentsize = phentsize, e_phnum = phnum, e_shentsize = shentsize, e_shnum = shnum,
                e_shstrndx = shstrndx\<rparr>, offset))))))))))))))"

definition parse_elf_header ::
    "(u8 \<Rightarrow> (parse_error, endian) outcome) \<Rightarrow> u8 list \<Rightarrow> (parse_error, file_header) outcome" where
  "parse_elf_header from_ei_data data =
    and_then (get_bytes data 0 (usz EI_NIDENT)) (\<lambda>ident_buf.
    and_then (parse_ident from_ei_data ident_buf) (\<lambda>ident.
    let tail_start = EI_NIDENT;
        tail_end = (case fst (snd ident) of
                      ELF32 \<Rightarrow> tail_start + ELF32_EHDR_TAILSIZE
                    | ELF64 \<Rightarrow> tail_start + ELF64_EHDR_TAILSIZE) in
    and_then (get_bytes data (usz tail_start) (usz tail_end)) (\<lambda>tail_buf.
      parse_tail ident tail_buf)))"

section \<open>Reading what was written\<close>

text \<open>The layouts \<^verbatim>\<open>Elf32_Ehdr\<close> and \<^verbatim>\<open>Elf64_Ehdr\<close>.\<close>

definition ident_bytes :: "file_header \<Rightarrow> u8 list" where
  "ident_bytes h =
    ELFMAGIC @ [if fh_class h = ELF32 then ELFCLASS32 else ELFCLASS64,
                if fh_endianness h = Little then ELFDATA2LSB else ELFDATA2MSB, EV_CURRENT, fh_osabi h, fh_abiversion h] @
    replicate 7 0"

definition addrs_bytes :: "endian \<Rightarrow> elf_class \<Rightarrow> u64 \<Rightarrow> u64 \<Rightarrow> u64 \<Rightarrow> u8 list" where
  "addrs_bytes e class a b c =
    (case class of
       ELF32 \<Rightarrow> enc 4 e (low32 a) @ enc 4 e (low32 b) @ enc 4 e (low32 c)
     | ELF64 \<Rightarrow> enc 8 e a @ enc 8 e b @ enc 8 e c)"

definition tail_bytes :: "file_header \<Rightarrow> u8 list" where
  "tail_bytes h =
    (let e = fh_endianness h in
     enc 2 e (e_type h) @ enc 2 e (e_machine h) @ enc 4 e (fh_version h) @
     addrs_bytes e (fh_class h) (e_entry h) (e_phoff h) (e_shoff h) @ enc 4 e (e_flags h) @ enc 2 e (e_ehsize h) @
     enc 2 e (e_phentsize h) @ enc 2 e (e_phnum h) @ enc 2 e (e_shentsize h) @ enc 2 e (e_shnum h) @ enc 2 e (e_shstrndx h))"

definition header_bytes :: "file_header \<Rightarrow> u8 list" where
  "header_bytes h = ident_bytes h @ tail_bytes h"

definition header_wf :: "file_header \<Rightarrow> bool" where
  "header_wf h = (fh_class h = ELF32 \<longrightarrow> fits32 (e_entry h) \<and> fits32 (e_phoff h) \<and> fits32 (e_shoff h))"

lemma length_ident_bytes [simp]: "length (ident_bytes h) = 16"
  by (simp add: ident_bytes_def ELFMAGIC_def)

lemma length_addrs_bytes [simp]: "length (addrs_bytes e c a b d) = (case c of ELF32 \<Rightarrow> 12 | ELF64 \<Rightarrow> 24)"
  by (cases c) (simp_all add: addrs_bytes_def)

lemma length_tail_bytes: "length (tail_bytes h) = (case fh_class h of ELF32 \<Rightarrow> 36 | ELF64 \<Rightarrow> 48)"
  by (cases "fh_class h") (simp_all add: tail_bytes_def Let_def)

lemma parse_ident_bytes:
  "parse_ident any_from_ei_data (ident_bytes h) = Ok (fh_endianness h, fh_class h, fh_osabi h, fh_abiversion h)"
  by (cases "fh_class h"; cases "fh_endianness h")
    (simp_all add: parse_ident_def verify_ident_def byte_at_def ident_bytes_def ELFMAGIC_def EI_CLASS_def EI_DATA_def
      EI_VERSION_def EI_OSABI_def EI_ABIVERSION_def ELFCLASS32_def ELFCLASS64_def EV_CURRENT_def any_from_ei_data_def
      ELFDATA2LSB_def ELFDATA2MSB_def Let_def)

lemma parse_addrs_bytes:
  assumes "is_slice data" and "holds_at data i (addrs_bytes e c a b d)"
    and "c = ELF32 \<longrightarrow> fits32 a \<and> fits32 b \<and> fits32 d"
  shows "parse_addrs e c (usz i) data = (Ok (a, b, d), usz (i + length (addrs_bytes e c a b d)))"
  using assms by (cases c) (auto simp: parse_addrs_def addrs_bytes_def holds_at_append elf_at add.commute [of i])

lemma parse_first_u16: "is_slice data \<Longrightarrow> holds_at data 0 (enc 2 e b) \<Longrightarrow> parse_u16_at e 0 data = (Ok b, usz 2)"
  using parse_at_elf(2) [of data 0 e b] by (simp add: usz_def)

lemma parse_tail_at:
  assumes "header_wf h" and "is_slice data" and "holds_at data 0 (tail_bytes h)"
  shows "parse_tail (fh_endianness h, fh_class h, fh_osabi h, fh_abiversion h) data = Ok h"
  using assms
  by (cases "fh_class h")
    (auto simp: parse_tail_def tail_bytes_def Let_def holds_at_append parse_first_u16 elf_at parse_addrs_bytes header_wf_def
      simp del: add_2_eq_Suc add_2_eq_Suc')

text \<open>The header at the start of a file is read back field by field.\<close>

lemma parse_elf_header_bytes:
  assumes "header_wf h" and d: "is_slice data" and at: "holds_at data 0 (header_bytes h)"
  shows "parse_elf_header any_from_ei_data data = Ok h"
proof -
  have at: "holds_at data 0 (ident_bytes h)" "holds_at data 16 (tail_bytes h)"
    using at by (simp_all add: header_bytes_def holds_at_append)
  have i: "get_bytes data 0 (usz 16) = Ok (ident_bytes h)"
    using get_bytes_at [OF d at(1)] by (simp add: usz_def)
  have t: "get_bytes data (usz 16) (usz (16 + length (tail_bytes h))) = Ok (tail_bytes h)"
    using get_bytes_at [OF d at(2)] by simp
  have "is_slice (tail_bytes h)" using at(2) d by (simp add: is_slice_def holds_at_def)
  then have "parse_tail (fh_endianness h, fh_class h, fh_osabi h, fh_abiversion h) (tail_bytes h) = Ok h"
    using parse_tail_at [OF assms(1)] by (simp add: holds_at_def)
  then show ?thesis
    using t by (cases "fh_class h")
      (simp_all add: parse_elf_header_def i parse_ident_bytes Let_def length_tail_bytes EI_NIDENT_def
        ELF32_EHDR_TAILSIZE_def ELF64_EHDR_TAILSIZE_def)
qed

end
