(* ===== verification/Elf_Note.thy ===== *)
theory Elf_Note
  imports Elf_Structs Elf_Strings
begin

text \<open>
  Notes (\<^verbatim>\<open>elf/src/note.rs\<close>): a header, a name and a description, each padded to the alignment of the
  section or segment they are in. The reader moves an offset past the padding of a note; an iterator
  yields notes until the first that cannot be read.
\<close>

section \<open>Structures\<close>

record note_gnu_abi_tag =
  abi_os :: "32 word"
  abi_major :: "32 word"
  abi_minor :: "32 word"
  abi_subminor :: "32 word"

definition note_gnu_abi_tag_parse_at ::
    "endian \<Rightarrow> elf_class \<Rightarrow> usize \<Rightarrow> u8 list \<Rightarrow> (parse_error, note_gnu_abi_tag) outcome \<times> usize" where
  "note_gnu_abi_tag_parse_at e class offset data =
    and_then_st (parse_u32_at e offset data) (\<lambda>os offset.
    and_then_st (parse_u32_at e offset data) (\<lambda>major offset.
    and_then_st (parse_u32_at e offset data) (\<lambda>minor offset.
    and_then_st (parse_u32_at e offset data) (\<lambda>subminor offset.
      (Ok \<lparr>abi_os = os, abi_major = major, abi_minor = minor, abi_subminor = subminor\<rparr>, offset)))))"

definition note_gnu_abi_tag_size_for :: "elf_class \<Rightarrow> usize" where
  "note_gnu_abi_tag_size_for class = 16"

definition NoteGnuAbiTag :: "note_gnu_abi_tag parse_at" where
  "NoteGnuAbiTag = \<lparr>pa_parse_at = note_gnu_abi_tag_parse_at, pa_size_for = note_gnu_abi_tag_size_for\<rparr>"

definition note_gnu_abi_tag_bytes :: "endian \<Rightarrow> elf_class \<Rightarrow> note_gnu_abi_tag \<Rightarrow> u8 list" where
  "note_gnu_abi_tag_bytes e class h =
    enc 4 e (abi_os h) @ enc 4 e (abi_major h) @ enc 4 e (abi_minor h) @ enc 4 e (abi_subminor h)"

definition note_gnu_abi_tag_wf :: "elf_class \<Rightarrow> note_gnu_abi_tag \<Rightarrow> bool" where
  "note_gnu_abi_tag_wf class h = True"

lemmas note_gnu_abi_tag_defs =
  note_gnu_abi_tag_parse_at_def note_gnu_abi_tag_size_for_def note_gnu_abi_tag_bytes_def note_gnu_abi_tag_wf_def

lemma note_gnu_abi_tag_entry: "exact_parsable NoteGnuAbiTag note_gnu_abi_tag_bytes note_gnu_abi_tag_wf"
proof (rule exact_parsableI)
  fix data :: "u8 list" and c e x i
  show "0 < unat (pa_size_for NoteGnuAbiTag c) \<and> unat (pa_size_for NoteGnuAbiTag c) \<le> 64"
    "length (note_gnu_abi_tag_bytes e c x) = unat (pa_size_for NoteGnuAbiTag c)"
    by (cases c; simp add: NoteGnuAbiTag_def note_gnu_abi_tag_defs)+
  assume d: "is_slice data"
  show "pa_parse_at NoteGnuAbiTag e c (usz i) data = (Ok x, usz (i + unat (pa_size_for NoteGnuAbiTag c)))"
    if "note_gnu_abi_tag_wf c x" "holds_at data i (note_gnu_abi_tag_bytes e c x)"
    using that d by (cases c) (auto simp: NoteGnuAbiTag_def note_gnu_abi_tag_defs holds_at_append elf_at add.commute [of i])
  show "reads data (unat (pa_size_for NoteGnuAbiTag c)) (\<lambda>x bs. note_gnu_abi_tag_wf c x \<and> note_gnu_abi_tag_bytes e c x = bs)
      (\<lambda>off. pa_parse_at NoteGnuAbiTag e c off data)"
    using d by (cases c; simp add: NoteGnuAbiTag_def note_gnu_abi_tag_defs)
        (rule reads_cong, (rule reads_bind reads_field reads_ret, assumption?)+, simp, simp)+
qed

interpretation abitag: exact_parsable NoteGnuAbiTag note_gnu_abi_tag_bytes note_gnu_abi_tag_wf
  by (rule note_gnu_abi_tag_entry)

record note_header =
  n_namesz :: u64
  n_descsz :: u64
  n_type :: u64

definition note_header_parse_at ::
    "endian \<Rightarrow> elf_class \<Rightarrow> usize \<Rightarrow> u8 list \<Rightarrow> (parse_error, note_header) outcome \<times> usize" where
  "note_header_parse_at e class offset data =
    (case class of
       ELF32 \<Rightarrow>
         and_then_st (parse_u32_at e offset data) (\<lambda>namesz offset.
         and_then_st (parse_u32_at e offset data) (\<lambda>descsz offset.
         and_then_st (parse_u32_at e offset data) (\<lambda>type offset.
           (Ok \<lparr>n_namesz = u32_as_u64 namesz, n_descsz = u32_as_u64 descsz, n_type = u32_as_u64 type\<rparr>, offset))))
     | ELF64 \<Rightarrow>
         and_then_st (parse_u64_at e offset data) (\<lambda>namesz offset.
         and_then_st (parse_u64_at e offset data) (\<lambda>descsz offset.
         and_then_st (parse_u64_at e offset data) (\<lambda>type offset.
           (Ok \<lparr>n_namesz = namesz, n_descsz = descsz, n_type = type\<rparr>, offset)))))"

definition note_header_size_for :: "elf_class \<Rightarrow> usize" where
  "note_header_size_for class = (case class of ELF32 \<Rightarrow> 12 | ELF64 \<Rightarrow> 24)"

definition NoteHeader :: "note_header parse_at" where
  "NoteHeader = \<lparr>pa_parse_at = note_header_parse_at, pa_size_for = note_header_size_for\<rparr>"

definition note_header_bytes :: "endian \<Rightarrow> elf_class \<Rightarrow> note_header \<Rightarrow> u8 list" where
  "note_header_bytes e class h =
    (case class of
       ELF32 \<Rightarrow>
         enc 4 e (low32 (n_namesz h)) @ enc 4 e (low32 (n_descsz h)) @ enc 4 e (low32 (n_type h))
     | ELF64 \<Rightarrow>
         enc 8 e (n_namesz h) @ enc 8 e (n_descsz h) @ enc 8 e (n_type h))"

definition note_header_wf :: "elf_class \<Rightarrow> note_header \<Rightarrow> bool" where
  "note_header_wf class h =
    (class = ELF32 \<longrightarrow>
       fits32 (n_namesz h) \<and> fits32 (n_descsz h) \<and> fits32 (n_type h))"

lemmas note_header_defs =
  note_header_parse_at_def note_header_size_for_def note_header_bytes_def note_header_wf_def

lemma note_header_entry: "exact_parsable NoteHeader note_header_bytes note_header_wf"
proof (rule exact_parsableI)
  fix data :: "u8 list" and c e x i
  show "0 < unat (pa_size_for NoteHeader c) \<and> unat (pa_size_for NoteHeader c) \<le> 64"
    "length (note_header_bytes e c x) = unat (pa_size_for NoteHeader c)"
    by (cases c; simp add: NoteHeader_def note_header_defs)+
  assume d: "is_slice data"
  show "pa_parse_at NoteHeader e c (usz i) data = (Ok x, usz (i + unat (pa_size_for NoteHeader c)))"
    if "note_header_wf c x" "holds_at data i (note_header_bytes e c x)"
    using that d by (cases c) (auto simp: NoteHeader_def note_header_defs holds_at_append elf_at add.commute [of i])
  show "reads data (unat (pa_size_for NoteHeader c)) (\<lambda>x bs. note_header_wf c x \<and> note_header_bytes e c x = bs)
      (\<lambda>off. pa_parse_at NoteHeader e c off data)"
    using d by (cases c; simp add: NoteHeader_def note_header_defs)
        (rule reads_cong, (rule reads_bind reads_field reads_ret, assumption?)+, simp, simp)+
qed

interpretation nhdr: exact_parsable NoteHeader note_header_bytes note_header_wf
  by (rule note_header_entry)

record note_any =
  na_type :: u64
  na_name :: "u8 list"
  na_desc :: "u8 list"

datatype elf_note = GnuAbiTag note_gnu_abi_tag | GnuBuildId "u8 list" | Unknown note_any

definition ELF_NOTE_GNU :: "u8 list" where "ELF_NOTE_GNU = [71, 78, 85]"
definition NT_GNU_ABI_TAG :: u64 where "NT_GNU_ABI_TAG = 1"
definition NT_GNU_BUILD_ID :: u64 where "NT_GNU_BUILD_ID = 3"

section \<open>Reading\<close>

text \<open>An offset moved up to the alignment.\<close>

definition skip_padding :: "usize \<Rightarrow> usize \<Rightarrow> (parse_error, usize) outcome" where
  "skip_padding align offset =
    (if 0 < offset mod align then ok_or IntegerOverflow (checked_add offset (align - offset mod align)) else Ok offset)"

definition interpret_note ::
    "endian \<Rightarrow> elf_class \<Rightarrow> note_header \<Rightarrow> u8 list \<Rightarrow> u8 list \<Rightarrow> (parse_error, elf_note) outcome" where
  "interpret_note e class nhdr name raw_desc =
    (if name = ELF_NOTE_GNU then
       if n_type nhdr = NT_GNU_ABI_TAG then
         and_then (fst (note_gnu_abi_tag_parse_at e class 0 raw_desc)) (\<lambda>t. Ok (GnuAbiTag t))
       else if n_type nhdr = NT_GNU_BUILD_ID then Ok (GnuBuildId raw_desc)
       else Ok (Unknown \<lparr>na_type = n_type nhdr, na_name = name, na_desc = raw_desc\<rparr>)
     else Ok (Unknown \<lparr>na_type = n_type nhdr, na_name = name, na_desc = raw_desc\<rparr>))"

definition note_parse_at ::
    "endian \<Rightarrow> elf_class \<Rightarrow> usize \<Rightarrow> usize \<Rightarrow> u8 list \<Rightarrow> (parse_error, elf_note) outcome \<times> usize" where
  "note_parse_at e class align offset data =
    (if align = 0 then (Err (UnexpectedAlignment align), offset)
     else
       and_then_st (note_header_parse_at e ELF32 offset data) (\<lambda>nhdr offset.
       let name_start = offset; name_buf_size = saturating_sub (n_namesz nhdr) 1 in
       and_then_st (ok_or IntegerOverflow (checked_add name_start name_buf_size), offset) (\<lambda>name_buf_end offset.
       and_then_st (get_bytes data name_start name_buf_end, offset) (\<lambda>name_buf offset.
       and_then_st (from_utf8 name_buf, offset) (\<lambda>name offset.
       and_then_st (ok_or IntegerOverflow (checked_add offset (n_namesz nhdr)), offset) (\<lambda>name_end _.
       and_then_st (skip_padding align name_end, name_end) (\<lambda>desc_start _.
       and_then_st (ok_or IntegerOverflow (checked_add desc_start (n_descsz nhdr)), desc_start) (\<lambda>desc_end offset.
       and_then_st (get_bytes data desc_start desc_end, offset) (\<lambda>raw_desc _.
       and_then_st (skip_padding align desc_end, desc_end) (\<lambda>offset _.
         (interpret_note e class nhdr name raw_desc, offset)))))))))))"

record note_iterator =
  ni_endian :: endian
  ni_class :: elf_class
  ni_align :: usize
  ni_data :: "u8 list"
  ni_offset :: usize

definition note_iterator_new :: "endian \<Rightarrow> elf_class \<Rightarrow> usize \<Rightarrow> u8 list \<Rightarrow> note_iterator" where
  "note_iterator_new e c align data = \<lparr>ni_endian = e, ni_class = c, ni_align = align, ni_data = data, ni_offset = 0\<rparr>"

definition note_next :: "note_iterator \<Rightarrow> elf_note option \<times> note_iterator" where
  "note_next it =
    (if ni_data it = [] then (None, it)
     else (case note_parse_at (ni_endian it) (ni_class it) (ni_align it) (ni_offset it) (ni_data it) of
             (Ok n, off) \<Rightarrow> (Some n, it\<lparr>ni_offset := off\<rparr>)
           | (_, off) \<Rightarrow> (None, it\<lparr>ni_offset := off\<rparr>)))"

section \<open>Every iteration ends\<close>

lemma skip_padding_Ok: "skip_padding align off = Ok off' \<Longrightarrow> unat off \<le> unat off'"
  by (auto simp: skip_padding_def checked_add_def unat_add_usize split: if_splits)

lemma note_header_Ok:
  "note_header_parse_at e ELF32 off data = (Ok h, off') \<Longrightarrow> unat off' = unat off + 12 \<and> unat off' \<le> length data"
  by (auto simp: note_header_parse_at_def parse_u32_at_def elim!: and_then_st_Ok dest!: safe_from_Ok)

text \<open>A note that is read starts in the data and the offset moves by its header at least.\<close>

lemma note_parse_Ok:
  assumes "note_parse_at e c align off data = (Ok n, off')"
  shows "unat off + 12 \<le> length data \<and> unat off + 12 \<le> unat off'"
proof -
  from assms obtain h o1 name_end desc_start desc_end where
      h: "note_header_parse_at e ELF32 off data = (Ok h, o1)"
    and ne: "checked_add o1 (n_namesz h) = Some name_end" and ds: "skip_padding align name_end = Ok desc_start"
    and de: "checked_add desc_start (n_descsz h) = Some desc_end" and off': "skip_padding align desc_end = Ok off'"
    unfolding note_parse_at_def by (auto simp: Let_def split: if_splits elim!: and_then_st_Ok)
  have "unat o1 \<le> unat name_end" "unat desc_start \<le> unat desc_end"
    using ne de by (auto simp: checked_add_Some unat_add_usize)
  then show ?thesis using note_header_Ok [OF h] skip_padding_Ok [OF ds] skip_padding_Ok [OF off'] by linarith
qed

lemma notes_end: "\<exists>ns. iter_collect note_next it = Some ns \<and> length ns \<le> length (ni_data it)"
proof -
  have "\<exists>ns. iter_collect note_next it = Some ns \<and> length ns \<le> length (ni_data it) - unat (ni_offset it)"
    by (rule iter_collect_ends [where I = "\<lambda>_. True"])
      (auto simp: note_next_def split: if_splits prod.splits outcome.splits dest!: note_parse_Ok)
  then show ?thesis by fastforce
qed

section \<open>Reading what was written\<close>

text \<open>The bytes of a note that starts at position \<open>i\<close> under the alignment \<open>a\<close>.\<close>

definition pad_len :: "nat \<Rightarrow> nat \<Rightarrow> nat" where
  "pad_len a n = (if 0 < n mod a then a - n mod a else 0)"

definition note_payload :: "endian \<Rightarrow> elf_class \<Rightarrow> elf_note \<Rightarrow> u64 \<times> u8 list \<times> u8 list" where
  "note_payload e c n =
    (case n of
       GnuAbiTag t \<Rightarrow> (NT_GNU_ABI_TAG, ELF_NOTE_GNU, note_gnu_abi_tag_bytes e c t)
     | GnuBuildId d \<Rightarrow> (NT_GNU_BUILD_ID, ELF_NOTE_GNU, d)
     | Unknown a \<Rightarrow> (na_type a, na_name a, na_desc a))"

definition note_bytes :: "endian \<Rightarrow> elf_class \<Rightarrow> nat \<Rightarrow> nat \<Rightarrow> elf_note \<Rightarrow> u8 list" where
  "note_bytes e c a i n =
    (case note_payload e c n of
       (ty, name, desc) \<Rightarrow>
         let name_end = i + 12 + Suc (length name); desc_start = name_end + pad_len a name_end;
             desc_end = desc_start + length desc in
         note_header_bytes e ELF32 \<lparr>n_namesz = usz (Suc (length name)), n_descsz = usz (length desc), n_type = ty\<rparr> @
         name @ [0] @ replicate (pad_len a name_end) 0 @ desc @ replicate (pad_len a desc_end) 0)"

fun notes_bytes :: "endian \<Rightarrow> elf_class \<Rightarrow> nat \<Rightarrow> nat \<Rightarrow> elf_note list \<Rightarrow> u8 list" where
  "notes_bytes e c a i [] = []"
| "notes_bytes e c a i (n # ns) = note_bytes e c a i n @ notes_bytes e c a (i + length (note_bytes e c a i n)) ns"

text \<open>The notes that can be written: a valid name, sizes of 32 bits, and no unknown note with the name and type of a known one.\<close>

definition note_wf :: "elf_note \<Rightarrow> bool" where
  "note_wf n =
    (case n of
       GnuAbiTag t \<Rightarrow> True
     | GnuBuildId d \<Rightarrow> length d < 2 ^ 32
     | Unknown a \<Rightarrow> fits32 (na_type a) \<and> Suc (length (na_name a)) < 2 ^ 32 \<and> length (na_desc a) < 2 ^ 32 \<and>
         utf8_valid (na_name a) \<and>
         (na_name a = ELF_NOTE_GNU \<longrightarrow> na_type a \<noteq> NT_GNU_ABI_TAG \<and> na_type a \<noteq> NT_GNU_BUILD_ID))"

lemma skip_padding_usz:
  assumes "0 < a" "a < 2 ^ 64" "n + pad_len a n < 2 ^ 64"
  shows "skip_padding (usz a) (usz n) = Ok (usz (n + pad_len a n))"
proof -
  have m: "unat (usz n mod usz a) = n mod a" using assms by (simp add: unat_mod)
  show ?thesis
  proof (cases "n mod a = 0")
    case True
    then show ?thesis using m by (simp add: skip_padding_def pad_len_def word_less_nat_alt)
  next
    case False
    have "usz n mod usz a = usz (n mod a)" by (metis m usz_unat)
    then have "usz a - usz n mod usz a = usz (a - n mod a)" using assms(1) by (simp add: usz_def of_nat_diff)
    then show ?thesis
      using False assms m by (simp add: skip_padding_def pad_len_def word_less_nat_alt checked_add_usz)
  qed
qed

lemma fits32_usz: "n < 2 ^ 32 \<Longrightarrow> fits32 (usz n)"
  by (simp add: fits32_def)

lemma saturating_pred: "saturating_sub (usz (Suc n)) 1 = usz n" if "Suc n < 2 ^ 64"
  using that by (simp add: saturating_sub_def word_le_nat_alt) (simp add: usz_def)

lemma note_payload_wf:
  assumes "note_wf n" and "note_payload e c n = (ty, name, desc)"
  shows "fits32 ty" "Suc (length name) < 2 ^ 32" "length desc < 2 ^ 32" "utf8_valid name"
    "interpret_note e c \<lparr>n_namesz = x, n_descsz = y, n_type = ty\<rparr> name desc = Ok n"
proof -
  have u: "utf8_valid ELF_NOTE_GNU" by (simp add: ELF_NOTE_GNU_def)
  have l: "length (note_gnu_abi_tag_bytes e c t) = 16" for t by (simp add: note_gnu_abi_tag_bytes_def)
  have t: "fst (note_gnu_abi_tag_parse_at e c 0 (note_gnu_abi_tag_bytes e c t)) = Ok t" for t
    using abitag.read_back [of "note_gnu_abi_tag_bytes e c t" c t 0 e]
    by (simp add: note_gnu_abi_tag_defs NoteGnuAbiTag_def holds_at_def is_slice_def usz_def)
  show "fits32 ty" "Suc (length name) < 2 ^ 32" "length desc < 2 ^ 32" "utf8_valid name"
    "interpret_note e c \<lparr>n_namesz = x, n_descsz = y, n_type = ty\<rparr> name desc = Ok n"
    using assms u
    by (auto simp: note_wf_def note_payload_def interpret_note_def t fits32_def NT_GNU_ABI_TAG_def NT_GNU_BUILD_ID_def
        ELF_NOTE_GNU_def l split: elf_note.splits)
qed

lemma note_parse_bytes:
  assumes d: "is_slice data" and w: "note_wf n" and a: "0 < a" "a < 2 ^ 64" and h: "holds_at data i (note_bytes e c a i n)"
  shows "note_parse_at e c (usz a) (usz i) data = (Ok n, usz (i + length (note_bytes e c a i n)))"
proof -
  obtain ty name desc where p: "note_payload e c n = (ty, name, desc)" by (cases "note_payload e c n") auto
  note wf = note_payload_wf [OF w p]
  define hdr where "hdr = \<lparr>n_namesz = usz (Suc (length name)), n_descsz = usz (length desc), n_type = ty\<rparr>"
  define ne where "ne = i + 12 + Suc (length name)"
  define ds where "ds = ne + pad_len a ne"
  define de where "de = ds + length desc"
  define z where "z = (0 :: u8) # replicate (pad_len a ne) 0"
  have bytes: "note_bytes e c a i n = note_header_bytes e ELF32 hdr @ name @ z @ desc @ replicate (pad_len a de) 0"
    by (simp add: note_bytes_def p Let_def hdr_def ne_def ds_def de_def z_def)
  have zl: "length z = Suc (pad_len a ne)" by (simp add: z_def)
  have hl: "length (note_header_bytes e ELF32 hdr) = 12" by (simp add: note_header_bytes_def)
  have len: "i + length (note_bytes e c a i n) = de + pad_len a de" by (simp add: bytes hl zl ne_def ds_def de_def)
  have at: "holds_at data i (note_header_bytes e ELF32 hdr)" "holds_at data (i + 12) name" "holds_at data ds desc"
    using h by (simp_all add: bytes holds_at_append hl zl ne_def ds_def add_ac)
  have lim: "de + pad_len a de < 2 ^ 63" using h d by (simp add: holds_at_def is_slice_def len)
  have hw: "note_header_wf ELF32 hdr" using wf by (simp add: note_header_wf_def hdr_def fits32_usz)
  have hp: "note_header_parse_at e ELF32 (usz i) data = (Ok hdr, usz (i + 12))"
    using nhdr.read_back [OF d hw at(1)] by (simp add: NoteHeader_def note_header_size_for_def)
  have na: "skip_padding (usz a) (usz ne) = Ok (usz ds)" "skip_padding (usz a) (usz de) = Ok (usz (de + pad_len a de))"
    using skip_padding_usz [OF a, of ne] skip_padding_usz [OF a, of de] lim by (simp_all add: ds_def de_def)
  have ca: "checked_add (usz (i + 12)) (usz (length name)) = Some (usz (i + 12 + length name))"
    "checked_add (usz (i + 12)) (usz (Suc (length name))) = Some (usz ne)"
    "checked_add (usz ds) (usz (length desc)) = Some (usz de)"
    using lim by (simp_all add: checked_add_usz ne_def ds_def de_def)
  have "usz a \<noteq> 0" using a by (metis gr_implies_not0 unat_0 unat_usz)
  then show ?thesis
    unfolding note_parse_at_def len
    using wf(2)
    by (simp add: hp Let_def saturating_pred ca get_bytes_at [OF d at(2)] get_bytes_at [OF d at(3), folded de_def]
        from_utf8_def wf(4) na wf(5) [folded hdr_def])
       (simp add: hdr_def saturating_pred ca get_bytes_at [OF d at(2)] get_bytes_at [OF d at(3), folded de_def]
        from_utf8_def wf na)
qed

lemma note_next_stop:
  assumes "length (ni_data it) < unat (ni_offset it) + 12"
  shows "fst (note_next it) = None"
  using assms note_parse_Ok [of "ni_endian it" "ni_class it" "ni_align it" "ni_offset it" "ni_data it"]
  by (fastforce simp: note_next_def split: prod.splits outcome.splits)

lemma notes_collect_from:
  assumes "is_slice data" and a: "0 < a" "a < 2 ^ 64"
  shows "data = pre @ notes_bytes e c a (length pre) ns \<Longrightarrow> (\<And>n. n \<in> set ns \<Longrightarrow> note_wf n) \<Longrightarrow>
    iter_collect note_next \<lparr>ni_endian = e, ni_class = c, ni_align = usz a, ni_data = data, ni_offset = usz (length pre)\<rparr> = Some ns"
proof (induction ns arbitrary: pre)
  case Nil
  then have "fst (note_next \<lparr>ni_endian = e, ni_class = c, ni_align = usz a, ni_data = data, ni_offset = usz (length pre)\<rparr>) = None"
    using assms(1) by (intro note_next_stop) (simp add: is_slice_def)
  then show ?case by (subst iter_collect.simps) (auto split: prod.splits)
next
  case (Cons n ns)
  let ?b = "note_bytes e c a (length pre) n"
  have h: "holds_at data (length pre) ?b" using Cons.prems(1) by (simp add: holds_at_def)
  have "?b \<noteq> []" by (auto simp: note_bytes_def Let_def split: prod.splits)
  then have ne: "data \<noteq> []" using Cons.prems(1) by simp
  have "data = (pre @ ?b) @ notes_bytes e c a (length (pre @ ?b)) ns" using Cons.prems(1) by simp
  from Cons.IH [OF this] Cons.prems(2)
  have IH: "iter_collect note_next
      \<lparr>ni_endian = e, ni_class = c, ni_align = usz a, ni_data = data, ni_offset = usz (length pre + length ?b)\<rparr> = Some ns"
    by simp
  show ?case
    using note_parse_bytes [OF assms(1) _ a h, of] Cons.prems(2) ne
    by (subst iter_collect.simps) (simp add: note_next_def IH)
qed

text \<open>
  C25. Notes round trip: notes laid out one after the other, each with its header, its NUL-terminated name
  and its description padded to a non-zero alignment, are read back by the note iterator as the same
  list, whatever the byte order, the class and the alignment; the iteration ends there. Known GNU notes
  come back as such, all others with their type, name and description.
\<close>

theorem notes_roundtrip:
  assumes "is_slice (notes_bytes e c a 0 ns)" and "\<And>n. n \<in> set ns \<Longrightarrow> note_wf n" and "0 < a" "a < 2 ^ 64"
  shows "iter_collect note_next (note_iterator_new e c (usz a) (notes_bytes e c a 0 ns)) = Some ns"
  using notes_collect_from [OF assms(1,3,4), of "[]" e c ns] assms(2) by (simp add: note_iterator_new_def usz_def)

definition ex_notes :: "elf_note list" where
  "ex_notes =
    [GnuAbiTag \<lparr>abi_os = 0, abi_major = 2, abi_minor = 6, abi_subminor = 32\<rparr>,
     Unknown \<lparr>na_type = 1, na_name = [88], na_desc = [1, 2, 3]\<rparr>]"

theorem notes_roundtrip_witness:
  "iter_collect note_next (note_iterator_new Big ELF64 (usz 4) (notes_bytes Big ELF64 4 0 ex_notes)) = Some ex_notes"
  by (rule notes_roundtrip)
    (auto simp: ex_notes_def is_slice_def note_bytes_def note_payload_def Let_def pad_len_def note_header_bytes_def
      note_gnu_abi_tag_bytes_def ELF_NOTE_GNU_def note_wf_def fits32_def)

end
