(* ===== verification/Elf_Symver.thy ===== *)
theory Elf_Symver
  imports Elf_Structs Elf_Strings
begin

text \<open>
  GNU symbol versions (\<^verbatim>\<open>elf/src/gnu_symver.rs\<close>): the version index of every symbol, and the linked
  lists of version definitions and of needed versions, each entry with a linked list of auxiliary
  entries. The iterators follow links that the file gives, bounded by a count that it also gives.
\<close>

section \<open>Version indices\<close>

datatype version_index = VersionIndex (version_bits: "16 word")

definition VER_NDX_LOCAL :: "16 word" where "VER_NDX_LOCAL = 0"
definition VER_NDX_GLOBAL :: "16 word" where "VER_NDX_GLOBAL = 1"
definition VER_NDX_VERSION :: "16 word" where "VER_NDX_VERSION = 0x7fff"
definition VER_NDX_HIDDEN :: "16 word" where "VER_NDX_HIDDEN = 0x8000"

definition version_index_of :: "version_index \<Rightarrow> 16 word" where
  "version_index_of v = version_bits v AND VER_NDX_VERSION"

definition is_local :: "version_index \<Rightarrow> bool" where
  "is_local v = (version_index_of v = VER_NDX_LOCAL)"

definition is_global :: "version_index \<Rightarrow> bool" where
  "is_global v = (version_index_of v = VER_NDX_GLOBAL)"

definition is_hidden :: "version_index \<Rightarrow> bool" where
  "is_hidden v = (version_bits v AND VER_NDX_HIDDEN \<noteq> 0)"

definition version_index_parse_at ::
    "endian \<Rightarrow> elf_class \<Rightarrow> usize \<Rightarrow> u8 list \<Rightarrow> (parse_error, version_index) outcome \<times> usize" where
  "version_index_parse_at e class offset data =
    and_then_st (parse_u16_at e offset data) (\<lambda>v offset. (Ok (VersionIndex v), offset))"

definition version_index_size_for :: "elf_class \<Rightarrow> usize" where
  "version_index_size_for class = 2"

definition VersionIndexEntry :: "version_index parse_at" where
  "VersionIndexEntry = \<lparr>pa_parse_at = version_index_parse_at, pa_size_for = version_index_size_for\<rparr>"

definition version_index_bytes :: "endian \<Rightarrow> elf_class \<Rightarrow> version_index \<Rightarrow> u8 list" where
  "version_index_bytes e class v = enc 2 e (version_bits v)"

definition version_index_wf :: "elf_class \<Rightarrow> version_index \<Rightarrow> bool" where
  "version_index_wf class v = True"

lemmas version_index_defs =
  version_index_parse_at_def version_index_size_for_def version_index_bytes_def version_index_wf_def

lemma version_index_entry: "exact_parsable VersionIndexEntry version_index_bytes version_index_wf"
proof (rule exact_parsableI)
  fix data :: "u8 list" and c e x i
  show "0 < unat (pa_size_for VersionIndexEntry c) \<and> unat (pa_size_for VersionIndexEntry c) \<le> 64"
    "length (version_index_bytes e c x) = unat (pa_size_for VersionIndexEntry c)"
    by (cases c; simp add: VersionIndexEntry_def version_index_defs)+
  assume d: "is_slice data"
  show "pa_parse_at VersionIndexEntry e c (usz i) data = (Ok x, usz (i + unat (pa_size_for VersionIndexEntry c)))"
    if "version_index_wf c x" "holds_at data i (version_index_bytes e c x)"
    using that d by (cases c) (auto simp: VersionIndexEntry_def version_index_defs holds_at_append elf_at add.commute [of i])
  show "reads data (unat (pa_size_for VersionIndexEntry c)) (\<lambda>x bs. version_index_wf c x \<and> version_index_bytes e c x = bs)
      (\<lambda>off. pa_parse_at VersionIndexEntry e c off data)"
    using d by (cases c; simp add: VersionIndexEntry_def version_index_defs)
        (rule reads_cong, (rule reads_bind reads_field reads_ret, assumption?)+, simp, simp)+
qed

interpretation veridx: exact_parsable VersionIndexEntry version_index_bytes version_index_wf
  by (rule version_index_entry)

section \<open>Version definitions and needs\<close>

record ver_def =
  vd_flags :: "16 word"
  vd_ndx :: "16 word"
  vd_cnt :: "16 word"
  vd_hash :: "32 word"
  vd_aux :: "32 word"
  vd_next :: "32 word"

definition VER_DEF_CURRENT :: "16 word" where "VER_DEF_CURRENT = 1"

definition ver_def_parse_at ::
    "endian \<Rightarrow> elf_class \<Rightarrow> usize \<Rightarrow> u8 list \<Rightarrow> (parse_error, ver_def) outcome \<times> usize" where
  "ver_def_parse_at e class offset data =
    and_then_st (parse_u16_at e offset data) (\<lambda>version offset.
      if version \<noteq> VER_DEF_CURRENT then (Err (UnsupportedVersion (ucast version) (ucast VER_DEF_CURRENT)), offset)
      else
        and_then_st (parse_u16_at e offset data) (\<lambda>flags offset.
        and_then_st (parse_u16_at e offset data) (\<lambda>ndx offset.
        and_then_st (parse_u16_at e offset data) (\<lambda>cnt offset.
        and_then_st (parse_u32_at e offset data) (\<lambda>hash offset.
        and_then_st (parse_u32_at e offset data) (\<lambda>aux offset.
        and_then_st (parse_u32_at e offset data) (\<lambda>nxt offset.
          (Ok \<lparr>vd_flags = flags, vd_ndx = ndx, vd_cnt = cnt, vd_hash = hash, vd_aux = aux, vd_next = nxt\<rparr>, offset))))))))"

definition ver_def_size_for :: "elf_class \<Rightarrow> usize" where
  "ver_def_size_for class = 20"

record ver_def_aux =
  vda_name :: "32 word"
  vda_next :: "32 word"

definition ver_def_aux_parse_at ::
    "endian \<Rightarrow> elf_class \<Rightarrow> usize \<Rightarrow> u8 list \<Rightarrow> (parse_error, ver_def_aux) outcome \<times> usize" where
  "ver_def_aux_parse_at e class offset data =
    and_then_st (parse_u32_at e offset data) (\<lambda>name offset.
    and_then_st (parse_u32_at e offset data) (\<lambda>nxt offset.
      (Ok \<lparr>vda_name = name, vda_next = nxt\<rparr>, offset)))"

definition ver_def_aux_size_for :: "elf_class \<Rightarrow> usize" where
  "ver_def_aux_size_for class = 8"

definition VerDefAux :: "ver_def_aux parse_at" where
  "VerDefAux = \<lparr>pa_parse_at = ver_def_aux_parse_at, pa_size_for = ver_def_aux_size_for\<rparr>"

definition ver_def_aux_bytes :: "endian \<Rightarrow> elf_class \<Rightarrow> ver_def_aux \<Rightarrow> u8 list" where
  "ver_def_aux_bytes e class h =
    enc 4 e (vda_name h) @ enc 4 e (vda_next h)"

definition ver_def_aux_wf :: "elf_class \<Rightarrow> ver_def_aux \<Rightarrow> bool" where
  "ver_def_aux_wf class h = True"

lemmas ver_def_aux_defs =
  ver_def_aux_parse_at_def ver_def_aux_size_for_def ver_def_aux_bytes_def ver_def_aux_wf_def

lemma ver_def_aux_entry: "exact_parsable VerDefAux ver_def_aux_bytes ver_def_aux_wf"
proof (rule exact_parsableI)
  fix data :: "u8 list" and c e x i
  show "0 < unat (pa_size_for VerDefAux c) \<and> unat (pa_size_for VerDefAux c) \<le> 64"
    "length (ver_def_aux_bytes e c x) = unat (pa_size_for VerDefAux c)"
    by (cases c; simp add: VerDefAux_def ver_def_aux_defs)+
  assume d: "is_slice data"
  show "pa_parse_at VerDefAux e c (usz i) data = (Ok x, usz (i + unat (pa_size_for VerDefAux c)))"
    if "ver_def_aux_wf c x" "holds_at data i (ver_def_aux_bytes e c x)"
    using that d by (cases c) (auto simp: VerDefAux_def ver_def_aux_defs holds_at_append elf_at add.commute [of i])
  show "reads data (unat (pa_size_for VerDefAux c)) (\<lambda>x bs. ver_def_aux_wf c x \<and> ver_def_aux_bytes e c x = bs)
      (\<lambda>off. pa_parse_at VerDefAux e c off data)"
    using d by (cases c; simp add: VerDefAux_def ver_def_aux_defs)
        (rule reads_cong, (rule reads_bind reads_field reads_ret, assumption?)+, simp, simp)+
qed

interpretation vda: exact_parsable VerDefAux ver_def_aux_bytes ver_def_aux_wf
  by (rule ver_def_aux_entry)

record ver_need =
  vn_cnt :: "16 word"
  vn_file :: "32 word"
  vn_aux :: "32 word"
  vn_next :: "32 word"

definition VER_NEED_CURRENT :: "16 word" where "VER_NEED_CURRENT = 1"

definition ver_need_parse_at ::
    "endian \<Rightarrow> elf_class \<Rightarrow> usize \<Rightarrow> u8 list \<Rightarrow> (parse_error, ver_need) outcome \<times> usize" where
  "ver_need_parse_at e class offset data =
    and_then_st (parse_u16_at e offset data) (\<lambda>version offset.
      if version \<noteq> VER_NEED_CURRENT then (Err (UnsupportedVersion (ucast version) (ucast VER_DEF_CURRENT)), offset)
      else
        and_then_st (parse_u16_at e offset data) (\<lambda>cnt offset.
        and_then_st (parse_u32_at e offset data) (\<lambda>fil offset.
        and_then_st (parse_u32_at e offset data) (\<lambda>aux offset.
        and_then_st (parse_u32_at e offset data) (\<lambda>nxt offset.
          (Ok \<lparr>vn_cnt = cnt, vn_file = fil, vn_aux = aux, vn_next = nxt\<rparr>, offset))))))"

definition ver_need_size_for :: "elf_class \<Rightarrow> usize" where
  "ver_need_size_for class = 16"

record ver_need_aux =
  vna_hash :: "32 word"
  vna_flags :: "16 word"
  vna_other :: "16 word"
  vna_name :: "32 word"
  vna_next :: "32 word"

definition ver_need_aux_parse_at ::
    "endian \<Rightarrow> elf_class \<Rightarrow> usize \<Rightarrow> u8 list \<Rightarrow> (parse_error, ver_need_aux) outcome \<times> usize" where
  "ver_need_aux_parse_at e class offset data =
    and_then_st (parse_u32_at e offset data) (\<lambda>hash offset.
    and_then_st (parse_u16_at e offset data) (\<lambda>flags offset.
    and_then_st (parse_u16_at e offset data) (\<lambda>other offset.
    and_then_st (parse_u32_at e offset data) (\<lambda>name offset.
    and_then_st (parse_u32_at e offset data) (\<lambda>nxt offset.
      (Ok \<lparr>vna_hash = hash, vna_flags = flags, vna_other = other, vna_name = name, vna_next = nxt\<rparr>, offset))))))"

definition ver_need_aux_size_for :: "elf_class \<Rightarrow> usize" where
  "ver_need_aux_size_for class = 16"

definition VerNeedAux :: "ver_need_aux parse_at" where
  "VerNeedAux = \<lparr>pa_parse_at = ver_need_aux_parse_at, pa_size_for = ver_need_aux_size_for\<rparr>"

definition ver_need_aux_bytes :: "endian \<Rightarrow> elf_class \<Rightarrow> ver_need_aux \<Rightarrow> u8 list" where
  "ver_need_aux_bytes e class h =
    enc 4 e (vna_hash h) @ enc 2 e (vna_flags h) @ enc 2 e (vna_other h) @ enc 4 e (vna_name h) @
    enc 4 e (vna_next h)"

definition ver_need_aux_wf :: "elf_class \<Rightarrow> ver_need_aux \<Rightarrow> bool" where
  "ver_need_aux_wf class h = True"

lemmas ver_need_aux_defs =
  ver_need_aux_parse_at_def ver_need_aux_size_for_def ver_need_aux_bytes_def ver_need_aux_wf_def

lemma ver_need_aux_entry: "exact_parsable VerNeedAux ver_need_aux_bytes ver_need_aux_wf"
proof (rule exact_parsableI)
  fix data :: "u8 list" and c e x i
  show "0 < unat (pa_size_for VerNeedAux c) \<and> unat (pa_size_for VerNeedAux c) \<le> 64"
    "length (ver_need_aux_bytes e c x) = unat (pa_size_for VerNeedAux c)"
    by (cases c; simp add: VerNeedAux_def ver_need_aux_defs)+
  assume d: "is_slice data"
  show "pa_parse_at VerNeedAux e c (usz i) data = (Ok x, usz (i + unat (pa_size_for VerNeedAux c)))"
    if "ver_need_aux_wf c x" "holds_at data i (ver_need_aux_bytes e c x)"
    using that d by (cases c) (auto simp: VerNeedAux_def ver_need_aux_defs holds_at_append elf_at add.commute [of i])
  show "reads data (unat (pa_size_for VerNeedAux c)) (\<lambda>x bs. ver_need_aux_wf c x \<and> ver_need_aux_bytes e c x = bs)
      (\<lambda>off. pa_parse_at VerNeedAux e c off data)"
    using d by (cases c; simp add: VerNeedAux_def ver_need_aux_defs)
        (rule reads_cong, (rule reads_bind reads_field reads_ret, assumption?)+, simp, simp)+
qed

interpretation vna: exact_parsable VerNeedAux ver_need_aux_bytes ver_need_aux_wf
  by (rule ver_need_aux_entry)

text \<open>
  The two entries that begin with a version: an entry of another version is refused, one of the current
  version is read and determines its bytes.
\<close>

definition versioned_reader ::
    "(endian \<Rightarrow> elf_class \<Rightarrow> usize \<Rightarrow> u8 list \<Rightarrow> (parse_error, 's) outcome \<times> usize) \<Rightarrow> nat \<Rightarrow> 16 word \<Rightarrow> (endian \<Rightarrow> 's \<Rightarrow> u8 list) \<Rightarrow> bool" where
  "versioned_reader parse n current wr =
    (\<forall>data e c i. is_slice data \<longrightarrow> i + n \<le> length data \<longrightarrow>
       (\<exists>v. enc 2 e v = take 2 (drop i data) \<and>
          (if v = current
           then \<exists>x. parse e c (usz i) data = (Ok x, usz (i + n)) \<and> enc 2 e v @ wr e x = take n (drop i data)
           else parse e c (usz i) data = (Err (UnsupportedVersion (ucast v) (ucast VER_DEF_CURRENT)), usz (i + 2)))))"

definition ver_def_bytes :: "endian \<Rightarrow> ver_def \<Rightarrow> u8 list" where
  "ver_def_bytes e h = enc 2 e (vd_flags h) @ enc 2 e (vd_ndx h) @ enc 2 e (vd_cnt h) @ enc 4 e (vd_hash h) @
    enc 4 e (vd_aux h) @ enc 4 e (vd_next h)"

definition ver_need_bytes :: "endian \<Rightarrow> ver_need \<Rightarrow> u8 list" where
  "ver_need_bytes e h = enc 2 e (vn_cnt h) @ enc 4 e (vn_file h) @ enc 4 e (vn_aux h) @ enc 4 e (vn_next h)"

lemma versioned_readerI:
  assumes parse: "\<And>e c off data. parse e c off data =
      and_then_st (parse_u16_at e off data) (\<lambda>v off. if v \<noteq> current then (Err (UnsupportedVersion (ucast v) (ucast VER_DEF_CURRENT)), off) else rest e off data)"
    and rest: "\<And>data e. is_slice data \<Longrightarrow> reads data m (\<lambda>x bs. wr e x = bs) (\<lambda>off. rest e off data)"
  shows "versioned_reader parse (2 + m) current wr"
  unfolding versioned_reader_def
proof (intro allI impI)
  fix data :: "u8 list" and e c i
  assume d: "is_slice data" and i: "i + (2 + m) \<le> length data"
  obtain v where v: "parse_u16_at e (usz i) data = (Ok v, usz (i + 2))" "enc 2 e v = take 2 (drop i data)"
    using reads_fits [OF reads_field(2) [OF d], of i e] i by auto
  obtain x where x: "rest e (usz (i + 2)) data = (Ok x, usz (i + 2 + m))" "wr e x = take m (drop (i + 2) data)"
    using reads_fits [OF rest [OF d], of "i + 2" e] i by auto
  have "take (2 + m) (drop i data) = take 2 (drop i data) @ take m (drop (i + 2) data)"
    by (simp only: take_add drop_drop add.commute [of 2 i])
  then show "\<exists>v. enc 2 e v = take 2 (drop i data) \<and>
      (if v = current then \<exists>x. parse e c (usz i) data = (Ok x, usz (i + (2 + m))) \<and> enc 2 e v @ wr e x = take (2 + m) (drop i data)
       else parse e c (usz i) data = (Err (UnsupportedVersion (ucast v) (ucast VER_DEF_CURRENT)), usz (i + 2)))"
    using v x by (intro exI [of _ v]) (auto simp: parse add.assoc)
qed

lemma ver_def_versioned: "versioned_reader ver_def_parse_at (2 + 18) VER_DEF_CURRENT ver_def_bytes"
  by (rule versioned_readerI, rule ver_def_parse_at_def, simp only: ver_def_bytes_def)
    (rule reads_cong, (rule reads_bind reads_field reads_ret, assumption?)+, simp, simp)

lemma ver_need_versioned: "versioned_reader ver_need_parse_at (2 + 14) VER_NEED_CURRENT ver_need_bytes"
  by (rule versioned_readerI, rule ver_need_parse_at_def, simp only: ver_need_bytes_def)
    (rule reads_cong, (rule reads_bind reads_field reads_ret, assumption?)+, simp, simp)

section \<open>Iterators\<close>

text \<open>
  The state of \<^verbatim>\<open>VerDefIterator\<close> and \<^verbatim>\<open>VerNeedIterator\<close> (count of 64 bits) and of the iterators over
  auxiliary entries (count of 16 bits).
\<close>

record 'c ver_iterator =
  vi_endian :: endian
  vi_class :: elf_class
  vi_count :: 'c
  vi_data :: "u8 list"
  vi_offset :: usize

definition ver_iterator_new :: "endian \<Rightarrow> elf_class \<Rightarrow> 'c \<Rightarrow> usize \<Rightarrow> u8 list \<Rightarrow> 'c ver_iterator" where
  "ver_iterator_new e c count starting_offset data =
    \<lparr>vi_endian = e, vi_class = c, vi_count = count, vi_data = data, vi_offset = starting_offset\<rparr>"

text \<open>
  What the four \<^verbatim>\<open>next\<close> have in common: the entry at the offset, the offset moved by its link or the
  count set to 0 when that overflows, the count decremented (it wraps around), and set to 0 when the
  link is 0.
\<close>

definition linked_next ::
    "(endian \<Rightarrow> elf_class \<Rightarrow> usize \<Rightarrow> u8 list \<Rightarrow> (parse_error, 'x) outcome \<times> usize) \<Rightarrow> ('x \<Rightarrow> 32 word) \<Rightarrow>
      'c::len word ver_iterator \<Rightarrow> 'x option \<times> 'c word ver_iterator" where
  "linked_next parse link it =
    (if vi_data it = [] \<or> vi_count it = 0 then (None, it)
     else
       case fst (parse (vi_endian it) (vi_class it) (vi_offset it) (vi_data it)) of
         Ok x \<Rightarrow>
           let it = (case checked_add (vi_offset it) (u32_as_u64 (link x)) of
                       Some new_off \<Rightarrow> it\<lparr>vi_offset := new_off\<rparr>
                     | None \<Rightarrow> it\<lparr>vi_count := 0\<rparr>);
               it = it\<lparr>vi_count := vi_count it - 1\<rparr>;
               it = (if 0 < vi_count it \<and> link x = 0 then it\<lparr>vi_count := 0\<rparr> else it) in
           (Some x, it)
       | _ \<Rightarrow> (None, it))"

definition ver_def_aux_next :: "16 word ver_iterator \<Rightarrow> ver_def_aux option \<times> 16 word ver_iterator" where
  "ver_def_aux_next it = linked_next ver_def_aux_parse_at vda_next it"

definition ver_need_aux_next :: "16 word ver_iterator \<Rightarrow> ver_need_aux option \<times> 16 word ver_iterator" where
  "ver_need_aux_next it = linked_next ver_need_aux_parse_at vna_next it"

definition ver_def_next :: "u64 ver_iterator \<Rightarrow> (ver_def \<times> 16 word ver_iterator) option \<times> u64 ver_iterator" where
  "ver_def_next it =
    (case linked_next ver_def_parse_at vd_next it of
       (None, it') \<Rightarrow> (None, it')
     | (Some vd, it') \<Rightarrow>
         (Some (vd, ver_iterator_new (vi_endian it) (vi_class it) (vd_cnt vd) (vi_offset it + u32_as_u64 (vd_aux vd)) (vi_data it)),
          it'))"

definition ver_need_next :: "u64 ver_iterator \<Rightarrow> (ver_need \<times> 16 word ver_iterator) option \<times> u64 ver_iterator" where
  "ver_need_next it =
    (case linked_next ver_need_parse_at vn_next it of
       (None, it') \<Rightarrow> (None, it')
     | (Some vn, it') \<Rightarrow>
         (Some (vn, ver_iterator_new (vi_endian it) (vi_class it) (vn_cnt vn) (vi_offset it + u32_as_u64 (vn_aux vn)) (vi_data it)),
          it'))"

section \<open>The version table\<close>

record symbol_requirement =
  sr_file :: "u8 list"
  sr_name :: "u8 list"
  sr_hash :: "32 word"
  sr_flags :: "16 word"
  sr_hidden :: bool

record symbol_names_iterator =
  sn_vda_iter :: "16 word ver_iterator"
  sn_strtab :: string_table

definition symbol_names_new :: "16 word ver_iterator \<Rightarrow> string_table \<Rightarrow> symbol_names_iterator" where
  "symbol_names_new vda_iter strtab = \<lparr>sn_vda_iter = vda_iter, sn_strtab = strtab\<rparr>"

definition symbol_names_next ::
    "symbol_names_iterator \<Rightarrow> (parse_error, u8 list) outcome option \<times> symbol_names_iterator" where
  "symbol_names_next it =
    (case ver_def_aux_next (sn_vda_iter it) of
       (Some vda, vda_iter) \<Rightarrow> (Some (strtab_get (sn_strtab it) (u32_as_u64 (vda_name vda))), it\<lparr>sn_vda_iter := vda_iter\<rparr>)
     | (None, vda_iter) \<Rightarrow> (None, it\<lparr>sn_vda_iter := vda_iter\<rparr>))"

record symbol_definition =
  sd_hash :: "32 word"
  sd_flags :: "16 word"
  sd_names :: symbol_names_iterator
  sd_hidden :: bool

record symbol_version_table =
  version_ids :: parsing_table
  verneeds :: "(u64 ver_iterator \<times> string_table) option"
  verdefs :: "(u64 ver_iterator \<times> string_table) option"

definition symbol_version_table_new ::
    "parsing_table \<Rightarrow> (u64 ver_iterator \<times> string_table) option \<Rightarrow> (u64 ver_iterator \<times> string_table) option \<Rightarrow>
      symbol_version_table" where
  "symbol_version_table_new ids needs defs = \<lparr>version_ids = ids, verneeds = needs, verdefs = defs\<rparr>"

text \<open>The results are those of loops over the iterators above; a loop that did not end would be \<open>None\<close>.\<close>

definition the_loop_result :: "('e, 'a option) outcome option option \<Rightarrow> ('e, 'a option) outcome option" where
  "the_loop_result r = map_option (\<lambda>hit. case hit of None \<Rightarrow> Ok None | Some res \<Rightarrow> res) r"

definition requirement_of ::
    "string_table \<Rightarrow> version_index \<Rightarrow> ver_need \<Rightarrow> ver_need_aux \<Rightarrow> (parse_error, symbol_requirement option) outcome" where
  "requirement_of verneed_strs ver_ndx vn vna =
    and_then (strtab_get verneed_strs (u32_as_u64 (vn_file vn))) (\<lambda>fil.
    and_then (strtab_get verneed_strs (u32_as_u64 (vna_name vna))) (\<lambda>name.
      Ok (Some \<lparr>sr_file = fil, sr_name = name, sr_hash = vna_hash vna, sr_flags = vna_flags vna,
                sr_hidden = is_hidden ver_ndx\<rparr>)))"

definition get_requirement ::
    "symbol_version_table \<Rightarrow> usize \<Rightarrow> (parse_error, symbol_requirement option) outcome option" where
  "get_requirement t sym_idx =
    (case verneeds t of
       None \<Rightarrow> Some (Ok None)
     | Some (iter, verneed_strs) \<Rightarrow>
         (case table_get VersionIndexEntry (version_ids t) sym_idx of
            Err err \<Rightarrow> Some (Err err)
          | Panic \<Rightarrow> Some Panic
          | Ok ver_ndx \<Rightarrow>
              the_loop_result (iter_try ver_need_next iter (\<lambda>(vn, vna_iter).
                iter_try ver_need_aux_next vna_iter (\<lambda>vna.
                  Some (if vna_other vna = version_index_of ver_ndx
                        then Some (requirement_of verneed_strs ver_ndx vn vna)
                        else None))))))"

definition get_definition ::
    "symbol_version_table \<Rightarrow> usize \<Rightarrow> (parse_error, symbol_definition option) outcome option" where
  "get_definition t sym_idx =
    (case verdefs t of
       None \<Rightarrow> Some (Ok None)
     | Some (iter, verdef_strs) \<Rightarrow>
         (case table_get VersionIndexEntry (version_ids t) sym_idx of
            Err err \<Rightarrow> Some (Err err)
          | Panic \<Rightarrow> Some Panic
          | Ok ver_ndx \<Rightarrow>
              the_loop_result (iter_try ver_def_next iter (\<lambda>(vd, vda_iter).
                if vd_ndx vd \<noteq> version_index_of ver_ndx then Some None
                else
                  Some (Some (Ok (Some \<lparr>sd_hash = vd_hash vd, sd_flags = vd_flags vd,
                                        sd_names = \<lparr>sn_vda_iter = vda_iter, sn_strtab = verdef_strs\<rparr>,
                                        sd_hidden = is_hidden ver_ndx\<rparr>)))))))"

section \<open>Every iteration ends\<close>

text \<open>
  An entry is read inside the data, which is shorter than \<open>2^63\<close> bytes, so a 32-bit link never makes the
  offset overflow and the count falls with every step.
\<close>

lemma linked_next_step:
  fixes it :: "'c::len word ver_iterator"
  assumes d: "is_slice (vi_data it)" and n: "linked_next parse link it = (Some x, it')"
    and p: "\<And>e c off data x off'. parse e c off data = (Ok x, off') \<Longrightarrow> unat off \<le> length data"
  shows "is_slice (vi_data it') \<and> unat (vi_count it') < unat (vi_count it)"
proof -
  have c: "vi_count it \<noteq> 0" and q: "fst (parse (vi_endian it) (vi_class it) (vi_offset it) (vi_data it)) = Ok x"
    using n by (auto simp: linked_next_def Let_def split: if_splits outcome.splits)
  then have "unat (vi_offset it) \<le> length (vi_data it)" by (metis p prod.collapse)
  moreover have "unat (link x) < 2 ^ LENGTH(32)" by (rule unsigned_less)
  ultimately have "unat (vi_offset it) + unat (u32_as_u64 (link x)) < 2 ^ 64" using d by (simp add: is_slice_def)
  then obtain off where off: "checked_add (vi_offset it) (u32_as_u64 (link x)) = Some off" by (simp add: checked_add_def)
  have less: "unat (vi_count it - 1) < unat (vi_count it)"
    using c by (simp add: measure_unat)
  then have pos: "0 < unat (vi_count it)" by simp
  show ?thesis
    using n c q less pos d by (auto simp: linked_next_def Let_def off split: if_splits)
qed

lemma ver_parse_inside:
  "ver_def_parse_at e c off data = (Ok vd, off1) \<Longrightarrow> unat off \<le> length data"
  "ver_need_parse_at e c off data = (Ok vn, off2) \<Longrightarrow> unat off \<le> length data"
  "ver_def_aux_parse_at e c off data = (Ok vda, off3) \<Longrightarrow> unat off \<le> length data"
  "ver_need_aux_parse_at e c off data = (Ok vna, off4) \<Longrightarrow> unat off \<le> length data"
  by (auto simp: ver_def_parse_at_def ver_need_parse_at_def ver_def_aux_parse_at_def ver_need_aux_parse_at_def
      parse_u16_at_def parse_u32_at_def elim!: and_then_st_Ok dest!: safe_from_Ok split: if_splits)

lemma aux_step:
  "is_slice (vi_data it) \<Longrightarrow> ver_def_aux_next it = (Some x, it') \<Longrightarrow>
    is_slice (vi_data it') \<and> unat (vi_count it') < unat (vi_count it)"
  "is_slice (vi_data it) \<Longrightarrow> ver_need_aux_next it = (Some y, it') \<Longrightarrow>
    is_slice (vi_data it') \<and> unat (vi_count it') < unat (vi_count it)"
  unfolding ver_def_aux_next_def ver_need_aux_next_def
  by (rule linked_next_step [OF _ _ ver_parse_inside(3)] linked_next_step [OF _ _ ver_parse_inside(4)]; assumption)+

lemma ver_step:
  "is_slice (vi_data it) \<Longrightarrow> ver_def_next it = (Some vd, it') \<Longrightarrow>
    is_slice (vi_data it') \<and> unat (vi_count it') < unat (vi_count it) \<and> is_slice (vi_data (snd vd))"
  "is_slice (vi_data it) \<Longrightarrow> ver_need_next it = (Some vn, it') \<Longrightarrow>
    is_slice (vi_data it') \<and> unat (vi_count it') < unat (vi_count it) \<and> is_slice (vi_data (snd vn))"
  by (auto simp: ver_def_next_def ver_need_next_def ver_iterator_new_def split: prod.splits option.splits
      dest: linked_next_step [OF _ _ ver_parse_inside(1)] linked_next_step [OF _ _ ver_parse_inside(2)])

lemma aux_ends:
  assumes "is_slice (vi_data it)"
  shows "\<exists>xs. iter_collect ver_def_aux_next it = Some xs \<and> length xs \<le> unat (vi_count it)"
    and "\<exists>xs. iter_collect ver_need_aux_next it = Some xs \<and> length xs \<le> unat (vi_count it)"
  by (rule iter_collect_ends [where I = "\<lambda>it. is_slice (vi_data it)" and m = "\<lambda>it. unat (vi_count it)"];
      use aux_step assms in blast)+

lemma ver_ends:
  assumes "is_slice (vi_data it)"
  shows "\<exists>xs. iter_collect ver_def_next it = Some xs \<and> length xs \<le> unat (vi_count it)"
    and "\<exists>xs. iter_collect ver_need_next it = Some xs \<and> length xs \<le> unat (vi_count it)"
  by (rule iter_collect_ends [where I = "\<lambda>it. is_slice (vi_data it)" and m = "\<lambda>it. unat (vi_count it)"];
      use ver_step assms in blast)+

section \<open>What the lookups return\<close>

text \<open>The entries in the order of the links: a pair for every auxiliary entry of a needed file.\<close>

definition need_entries :: "u64 ver_iterator \<Rightarrow> ((ver_need \<times> 16 word ver_iterator) \<times> ver_need_aux) list" where
  "need_entries iter =
    concat (map (\<lambda>v. map (Pair v) (the (iter_collect ver_need_aux_next (snd v)))) (the (iter_collect ver_need_next iter)))"

definition needs_ok :: "symbol_version_table \<Rightarrow> bool" where
  "needs_ok t =
    (is_slice (pt_data (version_ids t)) \<and> (case verneeds t of None \<Rightarrow> True | Some (it, _) \<Rightarrow> is_slice (vi_data it)) \<and>
     (case verdefs t of None \<Rightarrow> True | Some (it, _) \<Rightarrow> is_slice (vi_data it)))"

lemma need_loop:
  assumes d: "is_slice (vi_data iter)"
  shows "iter_try ver_need_next iter (\<lambda>v. iter_try ver_need_aux_next (snd v) (\<lambda>vna. Some (if p vna then Some (r v vna) else None))) =
      Some (map_option (\<lambda>(v, vna). r v vna) (List.find (\<lambda>(v, vna). p vna) (need_entries iter)))"
proof -
  obtain vs where vs: "iter_collect ver_need_next iter = Some vs" using ver_ends(2) [OF d] by blast
  have "is_slice (vi_data (snd v))" if "v \<in> set vs" for v
    by (rule iter_collect_all [where I = "\<lambda>it. is_slice (vi_data it)", OF _ d vs that]) (use ver_step(2) in blast)
  then have aux: "iter_collect ver_need_aux_next (snd v) = Some (the (iter_collect ver_need_aux_next (snd v)))"
    if "v \<in> set vs" for v using aux_ends(2) that by fastforce
  show ?thesis
    unfolding iter_try_list [OF vs] need_entries_def vs option.sel list_try_nested [symmetric]
    by (rule list_try_cong) (rule iter_try_list [OF aux])
qed

text \<open>
  C26. Version lookup in any table, however its links and counts were forged: the loops of
  \<^verbatim>\<open>get_requirement\<close> end, after at most as many entries as the counts say, and the result is that of the
  first auxiliary entry, in the order of the links, whose version index is the symbol's, with the
  strings of its file and name read; an error of the version index or of a string is returned, and the
  lookup never panics.
\<close>

theorem get_requirement_first:
  assumes "needs_ok t" and v: "verneeds t = Some (iter, strs)"
  shows "get_requirement t sym_idx =
      Some (and_then (table_get VersionIndexEntry (version_ids t) sym_idx) (\<lambda>ndx.
        case List.find (\<lambda>((vn, _), vna). vna_other vna = version_index_of ndx) (need_entries iter) of
          None \<Rightarrow> Ok None
        | Some ((vn, _), vna) \<Rightarrow> requirement_of strs ndx vn vna)) \<and>
    get_requirement t sym_idx \<noteq> Some Panic \<and>
    (\<exists>vs. iter_collect ver_need_next iter = Some vs \<and> length vs \<le> unat (vi_count iter))"
proof (intro conjI)
  have d: "is_slice (vi_data iter)" "is_slice (pt_data (version_ids t))" using assms by (auto simp: needs_ok_def)
  show "\<exists>vs. iter_collect ver_need_next iter = Some vs \<and> length vs \<le> unat (vi_count iter)" by (rule ver_ends(2) [OF d(1)])
  show eq: "get_requirement t sym_idx =
      Some (and_then (table_get VersionIndexEntry (version_ids t) sym_idx) (\<lambda>ndx.
        case List.find (\<lambda>((vn, _), vna). vna_other vna = version_index_of ndx) (need_entries iter) of
          None \<Rightarrow> Ok None
        | Some ((vn, _), vna) \<Rightarrow> requirement_of strs ndx vn vna))"
  proof (cases "table_get VersionIndexEntry (version_ids t) sym_idx")
    case (Ok ndx)
    then have "get_requirement t sym_idx =
        the_loop_result (iter_try ver_need_next iter (\<lambda>v. iter_try ver_need_aux_next (snd v) (\<lambda>vna.
          Some (if vna_other vna = version_index_of ndx then Some (requirement_of strs ndx (fst v) vna) else None))))"
      by (simp add: get_requirement_def v) (simp add: case_prod_unfold)
    then show ?thesis
      unfolding need_loop [OF d(1)] Ok
      by (cases "List.find (\<lambda>((vn, _), vna). vna_other vna = version_index_of ndx) (need_entries iter)")
        (auto simp: the_loop_result_def case_prod_unfold)
  qed (simp_all add: get_requirement_def v)
  have "requirement_of strs ndx vn vna \<noteq> Panic" for ndx vn vna
    by (auto simp: requirement_of_def and_then_eq_Panic strtab_get_not_Panic)
  moreover have "table_get VersionIndexEntry (version_ids t) sym_idx \<noteq> Panic"
    using veridx.table_get [OF d(2), of sym_idx] veridx.table_get_beyond [OF d(2), of sym_idx]
    by (cases "unat sym_idx < entry_count VersionIndexEntry (version_ids t)") auto
  ultimately show "get_requirement t sym_idx \<noteq> Some Panic"
    unfolding eq by (auto simp: and_then_eq_Panic split: option.splits prod.splits)
qed

text \<open>A symbol of version 2, which the file \<open>c\<close> provides under the name \<open>V\<close>.\<close>

definition ex_needs :: "u64 ver_iterator" where
  "ex_needs =
    ver_iterator_new Little ELF64 1 0
      [1, 0, 1, 0, 1, 0, 0, 0, 16, 0, 0, 0, 0, 0, 0, 0, 7, 0, 0, 0, 0, 0, 2, 0, 3, 0, 0, 0, 0, 0, 0, 0]"

definition ex_versions :: symbol_version_table where
  "ex_versions =
    symbol_version_table_new (table_new Little ELF64 [2, 0]) (Some (ex_needs, string_table_new [0, 99, 0, 86, 0])) None"

lemmas ver_eval =
  linked_next_def ver_need_parse_at_def ver_need_aux_parse_at_def parse_u16_at_def parse_u32_at_def safe_from_def checked_add_def
  slice_get_def is_little_def from_le_bytes_def VER_NEED_CURRENT_def u32_as_u64_def Let_def ver_iterator_new_def

abbreviation ex_aux :: "16 word ver_iterator" where
  "ex_aux \<equiv> ver_iterator_new Little ELF64 1 16 (vi_data ex_needs)"

lemma ex_need_next:
  "ver_need_next ex_needs = (Some (\<lparr>vn_cnt = 1, vn_file = 1, vn_aux = 16, vn_next = 0\<rparr>, ex_aux), ex_needs\<lparr>vi_count := 0\<rparr>)"
  by (simp add: ver_need_next_def ex_needs_def ver_eval)

lemma ex_aux_next:
  "ver_need_aux_next ex_aux =
    (Some \<lparr>vna_hash = 7, vna_flags = 0, vna_other = 2, vna_name = 3, vna_next = 0\<rparr>, ex_aux\<lparr>vi_count := 0\<rparr>)"
  by (simp add: ver_need_aux_next_def ex_needs_def ver_eval)

lemma ver_next_done:
  "ver_need_next (it\<lparr>vi_count := 0\<rparr>) = (None, it\<lparr>vi_count := 0\<rparr>)"
  "ver_need_aux_next (it'\<lparr>vi_count := 0\<rparr>) = (None, it'\<lparr>vi_count := 0\<rparr>)"
  by (simp_all add: ver_need_next_def ver_need_aux_next_def linked_next_def)

lemma ex_need_entries:
  "need_entries ex_needs =
    [((\<lparr>vn_cnt = 1, vn_file = 1, vn_aux = 16, vn_next = 0\<rparr>, ex_aux),
      \<lparr>vna_hash = 7, vna_flags = 0, vna_other = 2, vna_name = 3, vna_next = 0\<rparr>)]"
proof -
  have n0: "iter_collect ver_need_next (ex_needs\<lparr>vi_count := 0\<rparr>) = Some []"
    by (subst iter_collect.simps) (simp add: ver_next_done)
  have n: "iter_collect ver_need_next ex_needs = Some [(\<lparr>vn_cnt = 1, vn_file = 1, vn_aux = 16, vn_next = 0\<rparr>, ex_aux)]"
    by (subst iter_collect.simps) (simp add: ex_need_next n0)
  have a0: "iter_collect ver_need_aux_next (ex_aux\<lparr>vi_count := 0\<rparr>) = Some []"
    by (subst iter_collect.simps) (simp add: ver_next_done)
  have a: "iter_collect ver_need_aux_next ex_aux =
      Some [\<lparr>vna_hash = 7, vna_flags = 0, vna_other = 2, vna_name = 3, vna_next = 0\<rparr>]"
    by (subst iter_collect.simps) (simp add: ex_aux_next a0)
  show ?thesis by (simp add: need_entries_def n a)
qed

theorem get_requirement_first_witness:
  "get_requirement ex_versions 0 =
    Some (Ok (Some \<lparr>sr_file = [99], sr_name = [86], sr_hash = 7, sr_flags = 0, sr_hidden = False\<rparr>))"
proof -
  have ok: "needs_ok ex_versions" "verneeds ex_versions = Some (ex_needs, string_table_new [0, 99, 0, 86, 0])"
    by (simp_all add: needs_ok_def ex_versions_def symbol_version_table_new_def table_new_def is_slice_def ex_needs_def
        ver_iterator_new_def)
  have "table_get VersionIndexEntry (version_ids ex_versions) 0 = Ok (VersionIndex 2)"
    by (simp add: ex_versions_def symbol_version_table_new_def table_new_def table_get_def checked_mul_def
        VersionIndexEntry_def version_index_parse_at_def ver_eval)
  then show ?thesis
    using get_requirement_first [OF ok, of 0]
    by (simp add: ex_need_entries version_index_of_def VER_NDX_VERSION_def requirement_of_def strtab_get_def get_raw_def
        string_table_new_def slice_from_def from_utf8_def u32_as_u64_def is_hidden_def VER_NDX_HIDDEN_def)
qed

end
