(* ===== verification/Elf_Bytes.thy ===== *)
theory Elf_Bytes
  imports Elf_File Elf_Hash Elf_Note Elf_Symver
begin

text \<open>
  \<^verbatim>\<open>ElfBytes\<close> (\<^verbatim>\<open>elf/src/elf_bytes.rs\<close>): a file held in memory, its header read, and its section and
  program header tables located; the other parts are read on demand. An operation that loops over a table
  has an option result, \<open>None\<close> for a loop that does not end.
\<close>

section \<open>Constants\<close>

definition SHT_SYMTAB :: "32 word" where "SHT_SYMTAB = 2"
definition SHT_STRTAB :: "32 word" where "SHT_STRTAB = 3"
definition SHT_RELA :: "32 word" where "SHT_RELA = 4"
definition SHT_HASH :: "32 word" where "SHT_HASH = 5"
definition SHT_DYNAMIC :: "32 word" where "SHT_DYNAMIC = 6"
definition SHT_NOTE :: "32 word" where "SHT_NOTE = 7"
definition SHT_NOBITS :: "32 word" where "SHT_NOBITS = 8"
definition SHT_REL :: "32 word" where "SHT_REL = 9"
definition SHT_DYNSYM :: "32 word" where "SHT_DYNSYM = 11"
definition SHT_GNU_HASH :: "32 word" where "SHT_GNU_HASH = 0x6ffffff6"
definition SHT_GNU_VERDEF :: "32 word" where "SHT_GNU_VERDEF = 0x6ffffffd"
definition SHT_GNU_VERNEED :: "32 word" where "SHT_GNU_VERNEED = 0x6ffffffe"
definition SHT_GNU_VERSYM :: "32 word" where "SHT_GNU_VERSYM = 0x6fffffff"
definition SHN_XINDEX :: "16 word" where "SHN_XINDEX = 0xffff"
definition PN_XNUM :: "16 word" where "PN_XNUM = 0xffff"
definition SHF_COMPRESSED :: "32 word" where "SHF_COMPRESSED = push_bit 11 1"
definition PT_DYNAMIC :: "32 word" where "PT_DYNAMIC = 2"
definition PT_NOTE :: "32 word" where "PT_NOTE = 4"

section \<open>Opening a file\<close>

record elf_bytes =
  ehdr :: file_header
  eb_data :: "u8 list"
  eb_shdrs :: "parsing_table option"
  eb_phdrs :: "parsing_table option"

definition find_shdrs :: "file_header \<Rightarrow> u8 list \<Rightarrow> (parse_error, parsing_table option) outcome" where
  "find_shdrs h data =
    (if e_shoff h = 0 then Ok None
     else
       let shoff = e_shoff h; shnum = ucast (e_shnum h) in
       and_then (if shnum = 0
                 then and_then (fst (section_header_parse_at (fh_endianness h) (fh_class h) shoff data)) (\<lambda>shdr0. Ok (sh_size shdr0))
                 else Ok shnum) (\<lambda>shnum.
       and_then (validate_entsize SectionHeader (fh_class h) (ucast (e_shentsize h))) (\<lambda>entsize.
       and_then (ok_or IntegerOverflow (checked_mul entsize shnum)) (\<lambda>tablesize.
       and_then (ok_or IntegerOverflow (checked_add shoff tablesize)) (\<lambda>stop.
       and_then (get_bytes data shoff stop) (\<lambda>buf.
         Ok (Some (table_new (fh_endianness h) (fh_class h) buf))))))))"

definition find_phdrs :: "file_header \<Rightarrow> u8 list \<Rightarrow> (parse_error, parsing_table option) outcome" where
  "find_phdrs h data =
    (if e_phoff h = 0 then Ok None
     else
       and_then (if e_phnum h = PN_XNUM
                 then let shoff = e_shoff h in
                      and_then (fst (section_header_parse_at (fh_endianness h) (fh_class h) shoff data)) (\<lambda>shdr0.
                        Ok (u32_as_u64 (sh_info shdr0)))
                 else Ok (ucast (e_phnum h))) (\<lambda>phnum.
       and_then (validate_entsize ProgramHeader (fh_class h) (ucast (e_phentsize h))) (\<lambda>entsize.
       let phoff = e_phoff h in
       and_then (ok_or IntegerOverflow (checked_mul entsize phnum)) (\<lambda>tablesize.
       and_then (ok_or IntegerOverflow (checked_add phoff tablesize)) (\<lambda>stop.
       and_then (get_bytes data phoff stop) (\<lambda>buf.
         Ok (Some (table_new (fh_endianness h) (fh_class h) buf))))))))"

definition minimal_parse :: "(u8 \<Rightarrow> (parse_error, endian) outcome) \<Rightarrow> u8 list \<Rightarrow> (parse_error, elf_bytes) outcome" where
  "minimal_parse from_ei_data data =
    and_then (get_bytes data 0 (usz EI_NIDENT)) (\<lambda>ident_buf.
    and_then (parse_ident from_ei_data ident_buf) (\<lambda>ident.
    let tail_start = EI_NIDENT;
        tail_end = (case fst (snd ident) of
                      ELF32 \<Rightarrow> tail_start + ELF32_EHDR_TAILSIZE
                    | ELF64 \<Rightarrow> tail_start + ELF64_EHDR_TAILSIZE) in
    and_then (get_bytes data (usz tail_start) (usz tail_end)) (\<lambda>tail_buf.
    and_then (parse_tail ident tail_buf) (\<lambda>h.
    and_then (find_shdrs h data) (\<lambda>shdrs.
    and_then (find_phdrs h data) (\<lambda>phdrs.
      Ok \<lparr>ehdr = h, eb_data = data, eb_shdrs = shdrs, eb_phdrs = phdrs\<rparr>))))))"

definition segments :: "elf_bytes \<Rightarrow> parsing_table option" where
  "segments f = eb_phdrs f"

definition section_headers :: "elf_bytes \<Rightarrow> parsing_table option" where
  "section_headers f = eb_shdrs f"

section \<open>Sections and segments\<close>

text \<open>The bytes of a section, of a segment: \<^verbatim>\<open>data.get_bytes(start..end)\<close> of their range.\<close>

definition section_buf :: "elf_bytes \<Rightarrow> section_header \<Rightarrow> (parse_error, u8 list) outcome" where
  "section_buf f shdr = and_then (get_data_range shdr) (\<lambda>(start, stop). get_bytes (eb_data f) start stop)"

definition segment_data :: "elf_bytes \<Rightarrow> program_header \<Rightarrow> (parse_error, u8 list) outcome" where
  "segment_data f phdr = and_then (get_file_data_range phdr) (\<lambda>(start, stop). get_bytes (eb_data f) start stop)"

abbreviation table_of :: "elf_bytes \<Rightarrow> u8 list \<Rightarrow> parsing_table" where
  "table_of f \<equiv> table_new (fh_endianness (ehdr f)) (fh_class (ehdr f))"

definition section_headers_with_strtab ::
    "elf_bytes \<Rightarrow> (parse_error, parsing_table option \<times> string_table option) outcome" where
  "section_headers_with_strtab f =
    (case section_headers f of
       None \<Rightarrow> Ok (None, None)
     | Some shdrs \<Rightarrow>
         if e_shstrndx (ehdr f) = SHN_UNDEF then Ok (Some shdrs, None)
         else
           and_then (if e_shstrndx (ehdr f) = SHN_XINDEX
                     then and_then (table_get SectionHeader shdrs 0) (\<lambda>shdr_0. Ok (u32_as_u64 (sh_link shdr_0)))
                     else Ok (ucast (e_shstrndx (ehdr f)))) (\<lambda>shstrndx.
           and_then (table_get SectionHeader shdrs shstrndx) (\<lambda>strtab.
           and_then (section_buf f strtab) (\<lambda>strtab_buf.
             Ok (Some shdrs, Some (string_table_new strtab_buf))))))"

definition has_name :: "string_table \<Rightarrow> u8 list \<Rightarrow> section_header \<Rightarrow> bool" where
  "has_name strtab name shdr =
    (case strtab_get strtab (u32_as_u64 (sh_name shdr)) of Ok s \<Rightarrow> name = s | _ \<Rightarrow> False)"

definition section_header_by_name ::
    "elf_bytes \<Rightarrow> u8 list \<Rightarrow> (parse_error, section_header option) outcome option" where
  "section_header_by_name f name =
    (case section_headers_with_strtab f of
       Err err \<Rightarrow> Some (Err err)
     | Panic \<Rightarrow> Some Panic
     | Ok (Some shdrs, Some strtab) \<Rightarrow>
         map_option Ok (iter_find (iterator_next SectionHeader) (table_iter shdrs) (has_name strtab name))
     | Ok _ \<Rightarrow> Some (Ok None))"

definition section_data ::
    "elf_bytes \<Rightarrow> section_header \<Rightarrow> (parse_error, u8 list \<times> compression_header option) outcome" where
  "section_data f shdr =
    (if sh_type shdr = SHT_NOBITS then Ok ([], None)
     else
       and_then (section_buf f shdr) (\<lambda>buf.
         if sh_flags shdr AND ucast SHF_COMPRESSED = 0 then Ok (buf, None)
         else
           case compression_header_parse_at (fh_endianness (ehdr f)) (fh_class (ehdr f)) 0 buf of
             (Ok chdr, offset) \<Rightarrow>
               and_then (ok_or (SliceReadError offset (sh_size shdr)) (slice_from buf offset)) (\<lambda>compressed_buf.
                 Ok (compressed_buf, Some chdr))
           | (Err err, _) \<Rightarrow> Err err
           | (Panic, _) \<Rightarrow> Panic))"

definition section_data_as_strtab :: "elf_bytes \<Rightarrow> section_header \<Rightarrow> (parse_error, string_table) outcome" where
  "section_data_as_strtab f shdr =
    (if sh_type shdr \<noteq> SHT_STRTAB then Err (UnexpectedSectionType (sh_type shdr) SHT_STRTAB)
     else and_then (section_data f shdr) (\<lambda>(buf, _). Ok (string_table_new buf)))"

definition section_data_as_rels :: "elf_bytes \<Rightarrow> section_header \<Rightarrow> (parse_error, parsing_iterator) outcome" where
  "section_data_as_rels f shdr =
    (if sh_type shdr \<noteq> SHT_REL then Err (UnexpectedSectionType (sh_type shdr) SHT_REL)
     else and_then (section_data f shdr) (\<lambda>(buf, _). Ok (iterator_new (fh_endianness (ehdr f)) (fh_class (ehdr f)) buf)))"

definition section_data_as_relas :: "elf_bytes \<Rightarrow> section_header \<Rightarrow> (parse_error, parsing_iterator) outcome" where
  "section_data_as_relas f shdr =
    (if sh_type shdr \<noteq> SHT_RELA then Err (UnexpectedSectionType (sh_type shdr) SHT_RELA)
     else and_then (section_data f shdr) (\<lambda>(buf, _). Ok (iterator_new (fh_endianness (ehdr f)) (fh_class (ehdr f)) buf)))"

definition section_data_as_notes :: "elf_bytes \<Rightarrow> section_header \<Rightarrow> (parse_error, note_iterator) outcome" where
  "section_data_as_notes f shdr =
    (if sh_type shdr \<noteq> SHT_NOTE then Err (UnexpectedSectionType (sh_type shdr) SHT_NOTE)
     else and_then (section_data f shdr) (\<lambda>(buf, _).
       Ok (note_iterator_new (fh_endianness (ehdr f)) (fh_class (ehdr f)) (sh_addralign shdr) buf)))"

definition section_data_as_dynamic :: "elf_bytes \<Rightarrow> section_header \<Rightarrow> (parse_error, parsing_table) outcome" where
  "section_data_as_dynamic f shdr =
    (if sh_type shdr \<noteq> SHT_DYNAMIC then Err (UnexpectedSectionType (sh_type shdr) SHT_DYNAMIC)
     else
       and_then (validate_entsize Dyn (fh_class (ehdr f)) (sh_entsize shdr)) (\<lambda>_.
       and_then (section_data f shdr) (\<lambda>(buf, _). Ok (table_of f buf))))"

definition segment_data_as_notes :: "elf_bytes \<Rightarrow> program_header \<Rightarrow> (parse_error, note_iterator) outcome" where
  "segment_data_as_notes f phdr =
    (if p_type phdr \<noteq> PT_NOTE then Err (UnexpectedSegmentType (p_type phdr) PT_NOTE)
     else and_then (segment_data f phdr) (\<lambda>buf.
       Ok (note_iterator_new (fh_endianness (ehdr f)) (fh_class (ehdr f)) (p_align phdr) buf)))"

section \<open>Symbols, dynamic entries, versions\<close>

definition section_data_as_symbol_table ::
    "elf_bytes \<Rightarrow> section_header \<Rightarrow> section_header \<Rightarrow> (parse_error, parsing_table \<times> string_table) outcome" where
  "section_data_as_symbol_table f shdr strtab_shdr =
    and_then (validate_entsize Symbol (fh_class (ehdr f)) (sh_entsize shdr)) (\<lambda>_.
    and_then (section_buf f shdr) (\<lambda>symtab_buf.
    and_then (section_buf f strtab_shdr) (\<lambda>strtab_buf.
      Ok (table_of f symtab_buf, string_table_new strtab_buf))))"

text \<open>\<^verbatim>\<open>symbol_table\<close> and \<^verbatim>\<open>dynamic_symbol_table\<close> differ in the section type they look for.\<close>

definition symbol_table_of_type ::
    "32 word \<Rightarrow> elf_bytes \<Rightarrow> (parse_error, (parsing_table \<times> string_table) option) outcome option" where
  "symbol_table_of_type ty f =
    (case section_headers f of
       None \<Rightarrow> Some (Ok None)
     | Some shdrs \<Rightarrow>
         map_option (\<lambda>hit.
           case hit of
             None \<Rightarrow> Ok None
           | Some symtab_shdr \<Rightarrow>
               and_then (table_get SectionHeader shdrs (u32_as_u64 (sh_link symtab_shdr))) (\<lambda>strtab_shdr.
               and_then (section_data_as_symbol_table f symtab_shdr strtab_shdr) (\<lambda>r. Ok (Some r))))
           (iter_find (iterator_next SectionHeader) (table_iter shdrs) (\<lambda>shdr. sh_type shdr = ty)))"

definition symbol_table :: "elf_bytes \<Rightarrow> (parse_error, (parsing_table \<times> string_table) option) outcome option" where
  "symbol_table f = symbol_table_of_type SHT_SYMTAB f"

definition dynamic_symbol_table :: "elf_bytes \<Rightarrow> (parse_error, (parsing_table \<times> string_table) option) outcome option" where
  "dynamic_symbol_table f = symbol_table_of_type SHT_DYNSYM f"

definition dynamic :: "elf_bytes \<Rightarrow> (parse_error, parsing_table option) outcome option" where
  "dynamic f =
    (case section_headers f of
       Some shdrs \<Rightarrow>
         map_option (\<lambda>hit.
           case hit of
             Some shdr \<Rightarrow> and_then (section_data_as_dynamic f shdr) (\<lambda>t. Ok (Some t))
           | None \<Rightarrow> Ok None)
           (iter_find (iterator_next SectionHeader) (table_iter shdrs) (\<lambda>shdr. sh_type shdr = SHT_DYNAMIC))
     | None \<Rightarrow>
         (case segments f of
            Some phdrs \<Rightarrow>
              map_option (\<lambda>hit.
                case hit of
                  Some phdr \<Rightarrow> and_then (segment_data f phdr) (\<lambda>buf. Ok (Some (table_of f buf)))
                | None \<Rightarrow> Ok None)
                (iter_find (iterator_next ProgramHeader) (table_iter phdrs) (\<lambda>phdr. p_type phdr = PT_DYNAMIC))
          | None \<Rightarrow> Some (Ok None)))"

text \<open>\<^verbatim>\<open>find_common_data\<close>: one pass over the section headers, then the segments for the dynamic table.\<close>

record common_elf_data =
  cd_symtab :: "parsing_table option"
  cd_symtab_strs :: "string_table option"
  cd_dynsyms :: "parsing_table option"
  cd_dynsyms_strs :: "string_table option"
  cd_dynamic :: "parsing_table option"
  cd_sysv_hash :: "sysv_hash_table option"
  cd_gnu_hash :: "gnu_hash_table option"

definition common_elf_data_default :: common_elf_data where
  "common_elf_data_default =
    \<lparr>cd_symtab = None, cd_symtab_strs = None, cd_dynsyms = None, cd_dynsyms_strs = None, cd_dynamic = None,
     cd_sysv_hash = None, cd_gnu_hash = None\<rparr>"

definition collect_common ::
    "elf_bytes \<Rightarrow> parsing_table \<Rightarrow> section_header \<Rightarrow> common_elf_data \<Rightarrow> (parse_error, common_elf_data \<times> bool) outcome" where
  "collect_common f shdrs shdr r =
    (if sh_type shdr = SHT_SYMTAB then
       and_then (table_get SectionHeader shdrs (u32_as_u64 (sh_link shdr))) (\<lambda>strtab_shdr.
       and_then (section_data_as_symbol_table f shdr strtab_shdr) (\<lambda>(symtab, strtab).
         Ok (r\<lparr>cd_symtab := Some symtab, cd_symtab_strs := Some strtab\<rparr>, False)))
     else if sh_type shdr = SHT_DYNSYM then
       and_then (table_get SectionHeader shdrs (u32_as_u64 (sh_link shdr))) (\<lambda>strtab_shdr.
       and_then (section_data_as_symbol_table f shdr strtab_shdr) (\<lambda>(symtab, strtab).
         Ok (r\<lparr>cd_dynsyms := Some symtab, cd_dynsyms_strs := Some strtab\<rparr>, False)))
     else if sh_type shdr = SHT_DYNAMIC then
       and_then (section_data_as_dynamic f shdr) (\<lambda>t. Ok (r\<lparr>cd_dynamic := Some t\<rparr>, False))
     else if sh_type shdr = SHT_HASH then
       and_then (section_buf f shdr) (\<lambda>buf.
       and_then (sysv_hash_table_new (fh_endianness (ehdr f)) (fh_class (ehdr f)) buf) (\<lambda>t.
         Ok (r\<lparr>cd_sysv_hash := Some t\<rparr>, False)))
     else if sh_type shdr = SHT_GNU_HASH then
       and_then (section_buf f shdr) (\<lambda>buf.
       and_then (gnu_hash_table_new (fh_endianness (ehdr f)) (fh_class (ehdr f)) buf) (\<lambda>t.
         Ok (r\<lparr>cd_gnu_hash := Some t\<rparr>, False)))
     else Ok (r, False))"

definition find_common_data :: "elf_bytes \<Rightarrow> (parse_error, common_elf_data) outcome option" where
  "find_common_data f =
    Option.bind
      (case eb_shdrs f of
         None \<Rightarrow> Some (Ok common_elf_data_default)
       | Some shdrs \<Rightarrow>
           iter_fold (iterator_next SectionHeader) (table_iter shdrs) common_elf_data_default (collect_common f shdrs)) (\<lambda>res.
    case res of
      Err err \<Rightarrow> Some (Err err)
    | Panic \<Rightarrow> Some Panic
    | Ok result \<Rightarrow>
        (case (cd_dynamic result, eb_phdrs f) of
           (None, Some phdrs) \<Rightarrow>
             map_option (\<lambda>hit.
               case hit of
                 Some dyn_phdr \<Rightarrow>
                   and_then (segment_data f dyn_phdr) (\<lambda>buf. Ok (result\<lparr>cd_dynamic := Some (table_of f buf)\<rparr>))
               | None \<Rightarrow> Ok result)
               (iter_find (iterator_next ProgramHeader) (table_iter phdrs) (\<lambda>phdr. p_type phdr = PT_DYNAMIC))
         | _ \<Rightarrow> Some (Ok result)))"

text \<open>\<^verbatim>\<open>symbol_version_table\<close>: the loop that looks for the three version sections, and their contents.\<close>

record version_sections =
  versym_opt :: "section_header option"
  needs_opt :: "section_header option"
  defs_opt :: "section_header option"

definition note_version_section ::
    "section_header \<Rightarrow> version_sections \<Rightarrow> (parse_error, version_sections \<times> bool) outcome" where
  "note_version_section shdr v =
    (let v = (if sh_type shdr = SHT_GNU_VERSYM then v\<lparr>versym_opt := Some shdr\<rparr>
              else if sh_type shdr = SHT_GNU_VERNEED then v\<lparr>needs_opt := Some shdr\<rparr>
              else if sh_type shdr = SHT_GNU_VERDEF then v\<lparr>defs_opt := Some shdr\<rparr>
              else v) in
     Ok (v, versym_opt v \<noteq> None \<and> needs_opt v \<noteq> None \<and> defs_opt v \<noteq> None))"

definition version_iterator ::
    "elf_bytes \<Rightarrow> parsing_table \<Rightarrow> section_header option \<Rightarrow> (parse_error, (u64 ver_iterator \<times> string_table) option) outcome" where
  "version_iterator f shdrs opt =
    (case opt of
       None \<Rightarrow> Ok None
     | Some shdr \<Rightarrow>
         and_then (section_buf f shdr) (\<lambda>buf.
         and_then (table_get SectionHeader shdrs (u32_as_u64 (sh_link shdr))) (\<lambda>strs_shdr.
         and_then (section_buf f strs_shdr) (\<lambda>strs_buf.
           Ok (Some (ver_iterator_new (fh_endianness (ehdr f)) (fh_class (ehdr f)) (u32_as_u64 (sh_info shdr)) 0 buf,
                     string_table_new strs_buf))))))"

definition versions_from ::
    "elf_bytes \<Rightarrow> parsing_table \<Rightarrow> version_sections \<Rightarrow> (parse_error, symbol_version_table option) outcome" where
  "versions_from f shdrs v =
    (case versym_opt v of
       None \<Rightarrow> Ok None
     | Some versym_shdr \<Rightarrow>
         and_then (validate_entsize VersionIndexEntry (fh_class (ehdr f)) (sh_entsize versym_shdr)) (\<lambda>_.
         and_then (section_buf f versym_shdr) (\<lambda>versym_buf.
         and_then (version_iterator f shdrs (needs_opt v)) (\<lambda>needs.
         and_then (version_iterator f shdrs (defs_opt v)) (\<lambda>defs.
           Ok (Some (symbol_version_table_new (table_of f versym_buf) needs defs)))))))"

definition symbol_version_table_of :: "elf_bytes \<Rightarrow> (parse_error, symbol_version_table option) outcome option" where
  "symbol_version_table_of f =
    (case section_headers f of
       None \<Rightarrow> Some (Ok None)
     | Some shdrs \<Rightarrow>
         map_option (\<lambda>r. and_then r (versions_from f shdrs))
           (iter_fold (iterator_next SectionHeader) (table_iter shdrs)
             \<lparr>versym_opt = None, needs_opt = None, defs_opt = None\<rparr> note_version_section))"

section \<open>Opening a file that was written\<close>

lemma minimal_parse_header:
  "minimal_parse from data =
    and_then (parse_elf_header from data) (\<lambda>h.
    and_then (find_shdrs h data) (\<lambda>shdrs.
    and_then (find_phdrs h data) (\<lambda>phdrs.
      Ok \<lparr>ehdr = h, eb_data = data, eb_shdrs = shdrs, eb_phdrs = phdrs\<rparr>)))"
  by (simp add: minimal_parse_def parse_elf_header_def and_then_assoc Let_def)

text \<open>
  A header table at an offset. Counts that do not fit the file header are in the first section header: the
  number of sections in its size, when the header says 0, and the number of segments in its \<open>sh_info\<close>, when
  the header says \<open>PN_XNUM\<close>.
\<close>

definition sections_at :: "file_header \<Rightarrow> u8 list \<Rightarrow> section_header list \<Rightarrow> bool" where
  "sections_at h data shs =
    (e_shoff h \<noteq> 0 \<and> e_shentsize h = (case fh_class h of ELF32 \<Rightarrow> 40 | ELF64 \<Rightarrow> 64) \<and>
     shs \<noteq> [] \<and> (if e_shnum h = 0 then unat (sh_size (hd shs)) else unat (e_shnum h)) = length shs \<and> (\<forall>s \<in> set shs. section_header_wf (fh_class h) s) \<and>
     holds_at data (unat (e_shoff h)) (concat (map (section_header_bytes (fh_endianness h) (fh_class h)) shs)))"

definition segments_at :: "file_header \<Rightarrow> u8 list \<Rightarrow> program_header list \<Rightarrow> bool" where
  "segments_at h data phs =
    (e_phoff h \<noteq> 0 \<and> e_phentsize h = (case fh_class h of ELF32 \<Rightarrow> 32 | ELF64 \<Rightarrow> 56) \<and>
     (if e_phnum h = PN_XNUM
      then \<exists>s0. section_header_wf (fh_class h) s0 \<and> unat (sh_info s0) = length phs \<and>
             holds_at data (unat (e_shoff h)) (section_header_bytes (fh_endianness h) (fh_class h) s0)
      else unat (e_phnum h) = length phs) \<and> (\<forall>p \<in> set phs. program_header_wf (fh_class h) p) \<and>
     holds_at data (unat (e_phoff h)) (concat (map (program_header_bytes (fh_endianness h) (fh_class h)) phs)))"

lemma unat_u16 [simp]: "unat (ucast (x :: 16 word) :: u64) = unat x"
proof -
  have "unat x < 2 ^ LENGTH(16)" by (rule unsigned_less)
  then show ?thesis by (simp add: unsigned_ucast_eq take_bit_nat_eq_self)
qed

lemma u16_usz: "(ucast (x :: 16 word) :: u64) = usz (unat x)"
  by (metis unat_u16 usz_unat)

text \<open>The bytes of a table, found from the entry size and the number of entries.\<close>

lemma table_slice:
  assumes d: "is_slice data" and h: "holds_at data (unat off) bs" and l: "length bs = n * k" and b: "n < 2 ^ 64" "k < 2 ^ 64"
  shows "checked_mul (usz n) (usz k) = Some (usz (n * k))" "checked_add off (usz (n * k)) = Some (usz (unat off + n * k))"
    "get_bytes data off (usz (unat off + n * k)) = Ok bs"
proof -
  have lim: "unat off + n * k < 2 ^ 63" using h d l by (simp add: holds_at_def is_slice_def)
  show "checked_mul (usz n) (usz k) = Some (usz (n * k))" using lim b by (intro checked_mul_usz) simp_all
  show "checked_add off (usz (n * k)) = Some (usz (unat off + n * k))"
    using lim checked_add_usz [of "unat off" "n * k"] by simp
  show "get_bytes data off (usz (unat off + n * k)) = Ok bs" using get_bytes_at [OF d h] l by simp
qed

lemma section_parse_at:
  assumes "is_slice data" "section_header_wf c s" "holds_at data (unat off) (section_header_bytes e c s)"
  shows "fst (section_header_parse_at e c off data) = Ok s"
  using shdr.read_back [OF assms] by (simp add: SectionHeader_def)

lemma section_count:
  assumes d: "is_slice data" and s: "sections_at h data shs"
  shows "(if (ucast (e_shnum h) :: u64) = 0
      then and_then (fst (section_header_parse_at (fh_endianness h) (fh_class h) (e_shoff h) data)) (\<lambda>shdr0. Ok (sh_size shdr0))
      else Ok (ucast (e_shnum h))) = Ok (usz (length shs))"
    and "length shs < 2 ^ 64"
proof -
  have z: "(ucast (e_shnum h) :: u64) = 0 \<longleftrightarrow> e_shnum h = 0"
    by (metis unat_u16 unat_eq_0)
  obtain s0 rest where c: "shs = s0 # rest" using s by (cases shs) (simp_all add: sections_at_def)
  then have "holds_at data (unat (e_shoff h)) (section_header_bytes (fh_endianness h) (fh_class h) s0)"
    and "section_header_wf (fh_class h) s0"
    using s by (simp_all add: sections_at_def holds_at_append)
  then have hd: "fst (section_header_parse_at (fh_endianness h) (fh_class h) (e_shoff h) data) = Ok (hd shs)"
    using d c by (simp add: section_parse_at)
  have n: "(if e_shnum h = 0 then unat (sh_size (hd shs)) else unat (e_shnum h)) = length shs"
    using s by (simp add: sections_at_def)
  then show "(if (ucast (e_shnum h) :: u64) = 0
      then and_then (fst (section_header_parse_at (fh_endianness h) (fh_class h) (e_shoff h) data)) (\<lambda>shdr0. Ok (sh_size shdr0))
      else Ok (ucast (e_shnum h))) = Ok (usz (length shs))"
    unfolding z hd by (cases "e_shnum h = 0") (simp_all add: u16_usz flip: n)
  show "length shs < 2 ^ 64"
    unfolding n [symmetric] using unat_usize_less [of "sh_size (hd shs)"] unat_usize_less [of "ucast (e_shnum h)"] by simp
qed

lemma segment_count:
  assumes d: "is_slice data" and s: "segments_at h data phs"
  shows "(if e_phnum h = PN_XNUM
      then let shoff = e_shoff h in
           and_then (fst (section_header_parse_at (fh_endianness h) (fh_class h) shoff data)) (\<lambda>shdr0.
             Ok (u32_as_u64 (sh_info shdr0)))
      else Ok (ucast (e_phnum h))) = Ok (usz (length phs))"
    and "length phs < 2 ^ 64"
proof -
  have u: "u32_as_u64 x = usz (unat x)" for x
    by (rule u32_as_u64_usz)
  show "(if e_phnum h = PN_XNUM
      then let shoff = e_shoff h in
           and_then (fst (section_header_parse_at (fh_endianness h) (fh_class h) shoff data)) (\<lambda>shdr0.
             Ok (u32_as_u64 (sh_info shdr0)))
      else Ok (ucast (e_phnum h))) = Ok (usz (length phs))"
    using s section_parse_at [OF d] by (auto simp: segments_at_def u u16_usz split: if_splits)
  have "length phs = unat (e_phnum h) \<or> (\<exists>x :: 32 word. length phs = unat x)"
    using s by (cases "e_phnum h = PN_XNUM") (auto simp: segments_at_def simp flip: unat_u16 intro: sym)
  then show "length phs < 2 ^ 64"
    using unat_usize_less [of "ucast (e_phnum h)"] unat_usize_less [of "u32_as_u64 _"] by auto
qed

lemma find_shdrs_at:
  assumes d: "is_slice data" and s: "sections_at h data shs"
  shows "find_shdrs h data =
    Ok (Some (table_new (fh_endianness h) (fh_class h) (concat (map (section_header_bytes (fh_endianness h) (fh_class h)) shs))))"
proof -
  let ?bs = "concat (map (section_header_bytes (fh_endianness h) (fh_class h)) shs)"
  let ?sz = "unat (pa_size_for SectionHeader (fh_class h))"
  have at: "holds_at data (unat (e_shoff h)) ?bs" and n: "e_shoff h \<noteq> 0"
    using s by (auto simp: sections_at_def)
  have l: "length ?bs = ?sz * length shs" by (simp add: shdr.length_written)
  have e: "ucast (e_shentsize h) = pa_size_for SectionHeader (fh_class h)"
    using s by (auto simp: sections_at_def SectionHeader_def section_header_size_for_def split: elf_class.splits)
  have b: "?sz < 2 ^ 64" using shdr.entry_size(2) [of "fh_class h"] by simp
  note t = table_slice [OF d at l b section_count(2) [OF d s]]
  show ?thesis
    unfolding find_shdrs_def Let_def section_count(1) [OF d s] using n t by (simp add: validate_entsize_def e)
qed

lemma find_phdrs_at:
  assumes d: "is_slice data" and s: "segments_at h data phs"
  shows "find_phdrs h data =
    Ok (Some (table_new (fh_endianness h) (fh_class h) (concat (map (program_header_bytes (fh_endianness h) (fh_class h)) phs))))"
proof -
  let ?bs = "concat (map (program_header_bytes (fh_endianness h) (fh_class h)) phs)"
  let ?sz = "unat (pa_size_for ProgramHeader (fh_class h))"
  have at: "holds_at data (unat (e_phoff h)) ?bs" and n: "e_phoff h \<noteq> 0"
    using s by (auto simp: segments_at_def)
  have l: "length ?bs = ?sz * length phs" by (simp add: phdr.length_written)
  have e: "ucast (e_phentsize h) = pa_size_for ProgramHeader (fh_class h)"
    using s by (auto simp: segments_at_def ProgramHeader_def program_header_size_for_def split: elf_class.splits)
  have b: "?sz < 2 ^ 64" using phdr.entry_size(2) [of "fh_class h"] by simp
  note t = table_slice [OF d at l b segment_count(2) [OF d s]]
  show ?thesis
    unfolding find_phdrs_def segment_count(1) [OF d s] using n t by (simp add: Let_def validate_entsize_def e)
qed

text \<open>
  C9. A file round trips: over any bytes in which a header stands at the start, and the section and program
  headers it announces at its offsets, with the counts in the header or in the first section, in either class and byte order, \<^verbatim>\<open>minimal_parse\<close> returns exactly this
  header, and tables whose entries are exactly these section and program headers.
\<close>

theorem elf_file_roundtrip:
  assumes d: "is_slice data" and h: "header_wf h" "holds_at data 0 (header_bytes h)"
    and s: "sections_at h data shs" and p: "segments_at h data phs"
  shows "\<exists>t u. minimal_parse any_from_ei_data data = Ok \<lparr>ehdr = h, eb_data = data, eb_shdrs = Some t, eb_phdrs = Some u\<rparr> \<and>
    table_entries SectionHeader t = shs \<and> iter_collect (iterator_next SectionHeader) (table_iter t) = Some shs \<and>
    table_entries ProgramHeader u = phs \<and> iter_collect (iterator_next ProgramHeader) (table_iter u) = Some phs"
proof -
  let ?t = "table_new (fh_endianness h) (fh_class h) (concat (map (section_header_bytes (fh_endianness h) (fh_class h)) shs))"
  let ?u = "table_new (fh_endianness h) (fh_class h) (concat (map (program_header_bytes (fh_endianness h) (fh_class h)) phs))"
  have sl: "is_slice (concat (map (section_header_bytes (fh_endianness h) (fh_class h)) shs))"
    "is_slice (concat (map (program_header_bytes (fh_endianness h) (fh_class h)) phs))"
    using d s p by (auto simp: sections_at_def segments_at_def holds_at_def is_slice_def)
  have t: "table_entries SectionHeader ?t = shs"
    by (rule shdr.written_entries [OF sl(1)]) (use s in \<open>auto simp: sections_at_def\<close>)
  have u: "table_entries ProgramHeader ?u = phs"
    by (rule phdr.written_entries [OF sl(2)]) (use p in \<open>auto simp: segments_at_def\<close>)
  have "minimal_parse any_from_ei_data data = Ok \<lparr>ehdr = h, eb_data = data, eb_shdrs = Some ?t, eb_phdrs = Some ?u\<rparr>"
    by (simp add: minimal_parse_header parse_elf_header_bytes [OF h(1) d h(2)] find_shdrs_at [OF d s] find_phdrs_at [OF d p])
  moreover have "iter_collect (iterator_next SectionHeader) (table_iter ?t) = Some shs"
    using shdr.table_collect [of ?t] sl(1) t by (simp add: table_new_def)
  moreover have "iter_collect (iterator_next ProgramHeader) (table_iter ?u) = Some phs"
    using phdr.table_collect [of ?u] sl(2) u by (simp add: table_new_def)
  ultimately show ?thesis using t u by blast
qed

text \<open>A file of a header, one section header and one program header.\<close>

definition ex_header :: file_header where
  "ex_header =
    \<lparr>fh_class = ELF32, fh_endianness = Big, fh_version = 1, fh_osabi = 0, fh_abiversion = 0, e_type = 2, e_machine = 8,
     e_entry = 0x80200000, e_phoff = 92, e_shoff = 52, e_flags = 5, e_ehsize = 52, e_phentsize = 32, e_phnum = 1,
     e_shentsize = 40, e_shnum = 1, e_shstrndx = 0\<rparr>"

definition ex_section :: section_header where
  "ex_section =
    \<lparr>sh_name = 1, sh_type = 1, sh_flags = 6, sh_addr = 0x80200000, sh_offset = 0, sh_size = 8, sh_link = 0, sh_info = 0,
     sh_addralign = 4, sh_entsize = 0\<rparr>"

definition ex_segment :: program_header where
  "ex_segment =
    \<lparr>p_type = 1, p_offset = 0, p_vaddr = 0x80200000, p_paddr = 0x80200000, p_filesz = 8, p_memsz = 8, p_flags = 5, p_align = 4096\<rparr>"

definition ex_file :: "u8 list" where
  "ex_file = header_bytes ex_header @ section_header_bytes Big ELF32 ex_section @ program_header_bytes Big ELF32 ex_segment"

lemma ex_file_parts:
  "is_slice ex_file" "header_wf ex_header" "holds_at ex_file 0 (header_bytes ex_header)"
  "sections_at ex_header ex_file [ex_section]" "segments_at ex_header ex_file [ex_segment]"
proof -
  have l: "length (header_bytes ex_header) = 52" "length (section_header_bytes Big ELF32 ex_section) = 40"
    "length (program_header_bytes Big ELF32 ex_segment) = 32"
    by (simp_all add: header_bytes_def length_tail_bytes ex_header_def section_header_bytes_def program_header_bytes_def)
  have at: "holds_at ex_file 0 (header_bytes ex_header)" "holds_at ex_file 52 (section_header_bytes Big ELF32 ex_section)"
    "holds_at ex_file 92 (program_header_bytes Big ELF32 ex_segment)"
    by (simp_all add: holds_at_def ex_file_def l)
  show "is_slice ex_file" by (simp add: is_slice_def ex_file_def l)
  show "holds_at ex_file 0 (header_bytes ex_header)" by (rule at(1))
  show "header_wf ex_header" by (simp add: header_wf_def ex_header_def fits32_def)
  show "sections_at ex_header ex_file [ex_section]"
    using at(2) by (simp add: sections_at_def ex_header_def section_header_wf_def ex_section_def fits32_def)
  show "segments_at ex_header ex_file [ex_segment]"
    using at(3) by (simp add: segments_at_def ex_header_def program_header_wf_def ex_segment_def fits32_def PN_XNUM_def)
qed

theorem elf_file_roundtrip_witness:
  "\<exists>t u. minimal_parse any_from_ei_data ex_file =
      Ok \<lparr>ehdr = ex_header, eb_data = ex_file, eb_shdrs = Some t, eb_phdrs = Some u\<rparr> \<and>
    table_entries SectionHeader t = [ex_section] \<and> table_entries ProgramHeader u = [ex_segment]"
  using elf_file_roundtrip [OF ex_file_parts] by blast

end
