(* ===== verification/Elf_Safety.thy ===== *)
theory Elf_Safety
  imports Elf_Bytes
begin

text \<open>
  Reading an untrusted file: whatever its bytes, the operations of \<^verbatim>\<open>ElfBytes\<close> return a value or an error;
  none panics and no loop runs forever.
\<close>

section \<open>No reader panics\<close>

definition no_panic :: "('e, 'a) outcome \<Rightarrow> bool" where
  "no_panic r = (r \<noteq> Panic)"

lemma no_panic_simps [simp]: "no_panic (Ok x)" "no_panic (Err e)" "\<not> no_panic Panic"
  by (simp_all add: no_panic_def)

lemma no_panic_ok_or [simp]: "no_panic (ok_or e x)"
  by (simp add: no_panic_def)

lemma no_panic_and_then [intro!]: "no_panic r \<Longrightarrow> (\<And>x. r = Ok x \<Longrightarrow> no_panic (f x)) \<Longrightarrow> no_panic (and_then r f)"
  by (cases r) auto

lemma no_panic_and_then_st [intro!]:
  "no_panic (fst r) \<Longrightarrow> (\<And>x s. r = (Ok x, s) \<Longrightarrow> no_panic (fst (k x s))) \<Longrightarrow> no_panic (fst (and_then_st r k))"
  by (cases r; cases "fst r") auto

lemma no_panic_safe_from [simp]: "no_panic (fst (safe_from n e off data))"
  by (simp add: safe_from_def split: option.split)

lemma no_panic_fields [simp]:
  "no_panic (fst (parse_u8_at e off data))" "no_panic (fst (parse_u16_at e off data))"
  "no_panic (fst (parse_u32_at e off data))" "no_panic (fst (parse_u64_at e off data))"
  "no_panic (fst (parse_i32_at e off data))" "no_panic (fst (parse_i64_at e off data))"
  by (simp_all add: parse_u8_at_def parse_u16_at_def parse_u32_at_def parse_u64_at_def parse_i32_at_def parse_i64_at_def)

lemma no_panic_entries [simp]:
  "no_panic (fst (section_header_parse_at e c off data))"
  "no_panic (fst (compression_header_parse_at e c off data))"
  "no_panic (fst (sysv_hash_header_parse_at e c off data))"
  "no_panic (fst (gnu_hash_header_parse_at e c off data))"
  by (auto simp: section_header_parse_at_def compression_header_parse_at_def sysv_hash_header_parse_at_def
      gnu_hash_header_parse_at_def split: elf_class.split)

lemma entries_not_Panic [dest!]:
  "compression_header_parse_at e c off data = (Panic, s) \<Longrightarrow> False"
  "sysv_hash_header_parse_at e c off data = (Panic, s) \<Longrightarrow> False"
  "gnu_hash_header_parse_at e c off data = (Panic, s) \<Longrightarrow> False"
  by (metis fst_conv no_panic_entries no_panic_simps(3))+

lemma no_panic_get_bytes [simp]: "no_panic (get_bytes data a b)"
  by (simp add: get_bytes_def)

lemma no_panic_validate [simp]: "no_panic (validate_entsize P c n)"
  by (simp add: validate_entsize_def Let_def)

lemma get_bytes_slice: "is_slice data \<Longrightarrow> get_bytes data a b = Ok buf \<Longrightarrow> is_slice buf"
  by (auto simp: get_bytes_def slice_get_def is_slice_def split: if_splits)

lemma no_panic_table_get: "is_slice (pt_data t) \<Longrightarrow> no_panic (table_get SectionHeader t i)"
  using shdr.table_get [of t i] shdr.table_get_beyond [of t i]
  by (cases "unat i < entry_count SectionHeader t") auto

lemma no_panic_section_buf [simp]: "no_panic (section_buf f shdr)" "no_panic (segment_data f phdr)"
  by (auto simp: section_buf_def segment_data_def get_data_range_def get_file_data_range_def Let_def)

lemma no_panic_hash_new [simp]: "no_panic (sysv_hash_table_new e c data)" "no_panic (gnu_hash_table_new e c data)"
  by (auto simp: sysv_hash_table_new_def gnu_hash_table_new_def Let_def split: prod.split outcome.split elf_class.split)

section \<open>Opening\<close>

definition accepts_endians :: "(u8 \<Rightarrow> (parse_error, endian) outcome) \<Rightarrow> bool" where
  "accepts_endians from_ei_data =
    (from_ei_data = any_from_ei_data \<or> from_ei_data = little_from_ei_data \<or> from_ei_data = big_from_ei_data)"

definition elf_ok :: "elf_bytes \<Rightarrow> bool" where
  "elf_ok f =
    (is_slice (eb_data f) \<and> (\<forall>t. eb_shdrs f = Some t \<longrightarrow> is_slice (pt_data t)) \<and>
     (\<forall>t. eb_phdrs f = Some t \<longrightarrow> is_slice (pt_data t)))"

lemma no_panic_parse_ident:
  assumes "accepts_endians from" and "length buf = 16"
  shows "no_panic (parse_ident from buf)"
proof -
  have "no_panic (from b)" for b
    using assms(1) by (auto simp: accepts_endians_def any_from_ei_data_def little_from_ei_data_def big_from_ei_data_def)
  then show ?thesis
    using assms(2)
    by (auto simp: parse_ident_def verify_ident_def byte_at_def EI_CLASS_def EI_VERSION_def EI_DATA_def EI_OSABI_def
        EI_ABIVERSION_def Let_def)
qed

lemma no_panic_parse_tail [simp]: "no_panic (parse_tail ident data)"
  by (auto simp: parse_tail_def parse_addrs_def split: prod.split)

lemma no_panic_find_tables [simp]: "no_panic (find_shdrs h data)" "no_panic (find_phdrs h data)"
  by (auto simp: find_shdrs_def find_phdrs_def Let_def)

lemma find_tables_slice:
  "is_slice data \<Longrightarrow> find_shdrs h data = Ok (Some t) \<Longrightarrow> is_slice (pt_data t)"
  "is_slice data \<Longrightarrow> find_phdrs h data = Ok (Some t) \<Longrightarrow> is_slice (pt_data t)"
  by (auto simp: find_shdrs_def find_phdrs_def Let_def and_then_eq_Ok table_new_def split: if_splits dest: get_bytes_slice)

lemma minimal_parse_ok:
  assumes "is_slice data" and "accepts_endians from"
  shows "no_panic (minimal_parse from data)" and "minimal_parse from data = Ok f \<Longrightarrow> elf_ok f \<and> eb_data f = data"
proof -
  have "length buf = 16" if "get_bytes data 0 (usz EI_NIDENT) = Ok buf" for buf
    using that by (auto simp: get_bytes_def slice_get_def EI_NIDENT_def split: if_splits)
  then show "no_panic (minimal_parse from data)"
    by (auto simp: minimal_parse_def Let_def intro!: no_panic_parse_ident [OF assms(2)])
  show "elf_ok f \<and> eb_data f = data" if "minimal_parse from data = Ok f"
    using that assms(1)
    by (auto simp: minimal_parse_def Let_def and_then_eq_Ok elf_ok_def dest: find_tables_slice)
qed

section \<open>Operations\<close>

text \<open>An operation that loops: it ends, and does not panic.\<close>

definition ends_safely :: "('e, 'a) outcome option \<Rightarrow> bool" where
  "ends_safely r = (\<exists>x. r = Some x \<and> no_panic x)"

lemma total_simps [simp]: "ends_safely (Some x) \<longleftrightarrow> no_panic x" "\<not> ends_safely None"
  by (simp_all add: ends_safely_def)

lemma no_panic_section_data [simp]: "no_panic (section_data f shdr)"
  by (auto simp: section_data_def split: prod.split outcome.split)

lemma no_panic_section_as [simp]:
  "no_panic (section_data_as_strtab f shdr)" "no_panic (section_data_as_rels f shdr)"
  "no_panic (section_data_as_relas f shdr)" "no_panic (section_data_as_notes f shdr)"
  "no_panic (section_data_as_dynamic f shdr)" "no_panic (segment_data_as_notes f phdr)"
  "no_panic (section_data_as_symbol_table f shdr shdr')"
  by (auto simp: section_data_as_strtab_def section_data_as_rels_def section_data_as_relas_def section_data_as_notes_def
      section_data_as_dynamic_def segment_data_as_notes_def section_data_as_symbol_table_def)

lemma no_panic_with_strtab: "elf_ok f \<Longrightarrow> no_panic (section_headers_with_strtab f)"
  by (auto simp: section_headers_with_strtab_def section_headers_def elf_ok_def no_panic_table_get
      split: option.split)

text \<open>A search by name finds the first section of that name.\<close>

lemma section_header_by_name_first:
  assumes "elf_ok f"
  shows "section_header_by_name f name =
    Some (and_then (section_headers_with_strtab f) (\<lambda>(shdrs, strtab).
      Ok (case (shdrs, strtab) of
            (Some t, Some s) \<Rightarrow> List.find (has_name s name) (table_entries SectionHeader t)
          | _ \<Rightarrow> None)))"
proof (cases "section_headers_with_strtab f")
  case (Ok p)
  obtain a b where p: "p = (a, b)" by (cases p)
  have "is_slice (pt_data t)" if "a = Some t" for t
    using Ok assms that unfolding p
    by (auto simp: section_headers_with_strtab_def section_headers_def elf_ok_def and_then_eq_Ok split: option.splits if_splits)
  then show ?thesis
    using Ok unfolding p by (auto simp: section_header_by_name_def shdr.table_find split: option.split)
qed (auto simp: section_header_by_name_def)

lemma total_by_name: "elf_ok f \<Longrightarrow> ends_safely (section_header_by_name f name)"
  by (auto simp: section_header_by_name_first no_panic_with_strtab split: prod.split)

lemma total_symbols: "elf_ok f \<Longrightarrow> ends_safely (symbol_table f)" "elf_ok f \<Longrightarrow> ends_safely (dynamic_symbol_table f)"
  by (auto simp: symbol_table_def dynamic_symbol_table_def symbol_table_of_type_def section_headers_def elf_ok_def
      shdr.table_find no_panic_table_get split: option.split)

lemma total_dynamic: "elf_ok f \<Longrightarrow> ends_safely (dynamic f)"
  by (auto simp: dynamic_def section_headers_def segments_def elf_ok_def shdr.table_find phdr.table_find
      split: option.split)

lemma no_panic_collect: "is_slice (pt_data t) \<Longrightarrow> no_panic (collect_common f t shdr r)"
  by (auto simp: collect_common_def no_panic_table_get)

lemma no_panic_list_fold: "(\<And>x s. no_panic (body x s)) \<Longrightarrow> no_panic (list_fold xs s body)"
  using list_fold_not_Panic [of xs body s] by (simp add: no_panic_def)

lemma common_pass:
  "elf_ok f \<Longrightarrow> eb_shdrs f = Some t \<Longrightarrow>
    iter_fold (iterator_next SectionHeader) (table_iter t) d (collect_common f t) =
      Some (list_fold (table_entries SectionHeader t) d (collect_common f t))"
  by (rule iter_fold_list) (simp add: shdr.table_collect elf_ok_def)

lemma total_common:
  assumes ok: "elf_ok f"
  shows "ends_safely (find_common_data f)"
proof -
  let ?d = common_elf_data_default
  have "\<exists>r. no_panic r \<and>
    (case eb_shdrs f of None \<Rightarrow> Some (Ok ?d)
     | Some t \<Rightarrow> iter_fold (iterator_next SectionHeader) (table_iter t) ?d (collect_common f t)) = Some r"
    using ok by (cases "eb_shdrs f") (auto simp: common_pass elf_ok_def intro!: no_panic_list_fold no_panic_collect)
  then obtain r where r: "no_panic r"
    "(case eb_shdrs f of None \<Rightarrow> Some (Ok ?d)
      | Some t \<Rightarrow> iter_fold (iterator_next SectionHeader) (table_iter t) ?d (collect_common f t)) = Some r"
    by blast
  show ?thesis
    unfolding find_common_data_def r(2) using r(1) ok
    by (cases r) (auto simp: elf_ok_def phdr.table_find split: option.split)
qed

lemma total_versions: "elf_ok f \<Longrightarrow> ends_safely (symbol_version_table_of f)"
proof -
  assume ok: "elf_ok f"
  have "no_panic (versions_from f t v)" if "eb_shdrs f = Some t" for t v
    using that ok
    by (auto simp: versions_from_def version_iterator_def elf_ok_def no_panic_table_get split: option.split)
  moreover have "no_panic (note_version_section x s)" for x s by (simp add: note_version_section_def Let_def)
  moreover have "iter_fold (iterator_next SectionHeader) (table_iter t) d note_version_section =
      Some (list_fold (table_entries SectionHeader t) d note_version_section)" if "eb_shdrs f = Some t" for t d
    using that ok by (intro iter_fold_list) (simp add: shdr.table_collect elf_ok_def)
  ultimately show ?thesis
    by (auto simp: symbol_version_table_of_def section_headers_def intro!: no_panic_list_fold split: option.split)
qed

text \<open>
  C7. An untrusted ELF file cannot crash or hang the reader: for any bytes, \<^verbatim>\<open>minimal_parse\<close> returns a file
  or an error, and on a file it returned, every public accessor that can fail ends and returns a value or an
  error: the section headers with their names, lookup of a section by name, the common tables, the symbol
  tables, the dynamic table, the version tables, and the contents of any section or segment, whatever its
  header says, as they are or as strings, relocations with and without addends, or notes.
\<close>

theorem elf_never_panics:
  assumes "is_slice data" and "accepts_endians from"
  shows "no_panic (minimal_parse from data) \<and>
    (\<forall>f shdr phdr name. minimal_parse from data = Ok f \<longrightarrow>
       no_panic (section_headers_with_strtab f) \<and> ends_safely (section_header_by_name f name) \<and> ends_safely (find_common_data f) \<and>
       ends_safely (symbol_table f) \<and> ends_safely (dynamic_symbol_table f) \<and> ends_safely (dynamic f) \<and> ends_safely (symbol_version_table_of f) \<and>
       no_panic (section_data f shdr) \<and> no_panic (section_data_as_strtab f shdr) \<and>
       no_panic (section_data_as_rels f shdr) \<and> no_panic (section_data_as_relas f shdr) \<and>
       no_panic (section_data_as_notes f shdr) \<and> no_panic (segment_data f phdr) \<and> no_panic (segment_data_as_notes f phdr))"
  using minimal_parse_ok [OF assms]
  by (auto simp: no_panic_with_strtab total_by_name total_common total_symbols total_dynamic total_versions)

theorem elf_never_panics_witness:
  "no_panic (minimal_parse any_from_ei_data [1, 2, 3]) \<and> is_ok (minimal_parse any_from_ei_data ex_file) \<and>
   (\<exists>f. minimal_parse any_from_ei_data ex_file = Ok f \<and> ends_safely (find_common_data f) \<and>
      ends_safely (section_header_by_name f [46, 116]) \<and> no_panic (section_data f ex_section))"
proof -
  have s: "is_slice [1, 2, 3 :: u8]" "accepts_endians any_from_ei_data"
    by (simp_all add: is_slice_def accepts_endians_def)
  obtain t u where f: "find_shdrs ex_header ex_file = Ok (Some t)" "find_phdrs ex_header ex_file = Ok (Some u)"
    using find_shdrs_at find_phdrs_at ex_file_parts by blast
  have "minimal_parse any_from_ei_data ex_file =
      Ok \<lparr>ehdr = ex_header, eb_data = ex_file, eb_shdrs = Some t, eb_phdrs = Some u\<rparr>"
    by (simp add: minimal_parse_header parse_elf_header_bytes [OF ex_file_parts(2,1,3)] f)
  then show ?thesis
    using elf_never_panics [OF s] elf_never_panics [OF ex_file_parts(1) s(2)] by simp
qed

end
