(* ===== verification/Elf_Types.thy ===== *)
theory Elf_Types
  imports Elf_Hash_Search Elf_Safety
begin

text \<open>
  The entry types of the ELF reader together: each keeps the contract of \<^verbatim>\<open>ParseAt\<close>, so each reader is
  exact, and so is each table and iterator over them.
\<close>


text \<open>
  C18. Tables and iterators over the entries: over any bytes, a table of section headers, program headers,
  symbols, dynamic entries, relocations, version indices or hash words has one entry for every whole
  entry size, and these write back to the bytes; \<^verbatim>\<open>len\<close>, \<^verbatim>\<open>is_empty\<close>, \<^verbatim>\<open>get\<close> (an error beyond the last entry,
  also where the index overflows), iteration and \<^verbatim>\<open>find\<close> are those of the list of entries, and iteration ends.
\<close>

theorem elf_tables_exact:
  "exact_tables SectionHeader section_header_bytes section_header_wf \<and>
   exact_tables ProgramHeader program_header_bytes program_header_wf \<and>
   exact_tables Symbol symbol_bytes symbol_wf \<and>
   exact_tables Dyn dyn_entry_bytes dyn_entry_wf \<and>
   exact_tables Rel rel_bytes rel_wf \<and>
   exact_tables Rela rela_bytes rela_wf \<and>
   exact_tables VersionIndexEntry version_index_bytes version_index_wf \<and>
   exact_tables U32 (\<lambda>e c. enc 4 e) (\<lambda>c x. True) \<and>
   exact_tables U64 (\<lambda>e c. enc 8 e) (\<lambda>c x. True)"
  by (intro conjI shdr.tables phdr.tables sym.tables dyn.tables rel.tables rela.tables veridx.tables u32.tables u64.tables)

end
