(* ===== verification/Spec2Isabelle.thy ===== *)
theory Spec2Isabelle
  imports Global_Allocator Ramfs_Boot Disk Posix_Boot Sleep_Mutex Elf_Types
begin

text \<open>
  A verification library of the ArceOS kernel sources under \<^verbatim>\<open>src/arceos\<close>.
\<close>

end
